(* ===== verification/Prelude.thy ===== *)
theory Prelude
  imports Main "HOL-Library.Word"
begin

text \<open>
  Shared vocabulary of the development: the machine types of the C++ sources, linked
  lists in memory (the \<^verbatim>\<open>next\<close> fields of \<^verbatim>\<open>PoolNode\<close>), and the few generic lemmas on
  lists, regions and words that the component theories use. The collections
  \<^verbatim>\<open>pool_simps\<close>, \<^verbatim>\<open>task_simps\<close> and \<^verbatim>\<open>io_simps\<close> gather the unfolding facts of the memory
  pools, of the tasks and of the event loop.
\<close>

unbundle bit_operations_syntax

named_theorems pool_simps
named_theorems task_simps
named_theorems io_simps

section \<open>Machine types\<close>

text \<open>
  \<^verbatim>\<open>uint64_t\<close> is a 64-bit word. A pool address is a natural number with 0 for
  \<^verbatim>\<open>nullptr\<close>; a \<^verbatim>\<open>size_t\<close> that takes part in address arithmetic is a natural number, and
  the places where its product can wrap say so.
\<close>

type_synonym u64 = "64 word"
type_synonym byte = "8 word"
type_synonym ptr = nat
type_synonym tid = nat

abbreviation nullptr :: ptr where
  "nullptr \<equiv> 0"

abbreviation size_t_mod :: nat where
  "size_t_mod \<equiv> 2 ^ 64"

section \<open>Linked lists in memory\<close>

text \<open>
  \<^verbatim>\<open>path h p xs q\<close>: following \<^verbatim>\<open>next\<close> from \<^verbatim>\<open>p\<close> visits the non-null nodes \<^verbatim>\<open>xs\<close> and then
  arrives at \<^verbatim>\<open>q\<close>. A null-terminated list is a path to \<^verbatim>\<open>nullptr\<close>.
\<close>

primrec path :: "(ptr \<Rightarrow> ptr) \<Rightarrow> ptr \<Rightarrow> ptr list \<Rightarrow> ptr \<Rightarrow> bool" where
  "path h p [] q \<longleftrightarrow> p = q"
| "path h p (x # xs) q \<longleftrightarrow> p = x \<and> x \<noteq> nullptr \<and> path h (h x) xs q"

abbreviation chain :: "(ptr \<Rightarrow> ptr) \<Rightarrow> ptr \<Rightarrow> ptr list \<Rightarrow> bool" where
  "chain h p xs \<equiv> path h p xs nullptr"

lemma path_null_iff [simp]: "chain h nullptr xs \<longleftrightarrow> xs = []"
  by (cases xs) auto

lemma path_append: "path h p (xs @ ys) q \<longleftrightarrow> (\<exists>r. path h p xs r \<and> path h r ys q)"
  by (induction xs arbitrary: p) auto

lemma path_cong:
  "(\<And>x. x \<in> set xs \<Longrightarrow> h x = g x) \<Longrightarrow> path h p xs q = path g p xs q"
  by (induction xs arbitrary: p) auto

lemma path_upd [simp]: "u \<notin> set xs \<Longrightarrow> path (h(u := v)) p xs q = path h p xs q"
  by (rule path_cong) auto

lemma path_functional: "path h p xs q \<Longrightarrow> path h p ys q \<Longrightarrow> length xs = length ys \<Longrightarrow> xs = ys"
  by (induction xs arbitrary: p ys) (case_tac ys, auto)+

lemma path_nonnull: "path h p xs q \<Longrightarrow> nullptr \<notin> set xs"
  by (induction xs arbitrary: p) auto

lemma chain_unique: "chain h p xs \<Longrightarrow> chain h p ys \<Longrightarrow> xs = ys"
proof (induction xs arbitrary: p ys)
  case Nil
  then show ?case by simp
next
  case (Cons x xs)
  then show ?case by (cases ys) auto
qed

lemma chain_hd:
  assumes "chain h p xs" and "p \<noteq> nullptr"
  shows "xs = p # tl xs \<and> chain h (h p) (tl xs)"
  using assms by (cases xs) auto

lemma chain_Nil_iff: "chain h p xs \<Longrightarrow> (p = nullptr) = (xs = [])"
  by (cases xs) auto

text \<open>
  Redirecting the last node of a path: the concatenation of a private chain with the
  list that the stack head points to.
\<close>

lemma path_snoc_redirect:
  assumes "path h p (xs @ [t]) q" and "t \<notin> set xs" and "t \<notin> set ys" and "chain h r ys"
  shows "chain (h(t := r)) p (xs @ t # ys)"
  using assms by (auto simp: path_append)

section \<open>Lists as fixed-size arrays\<close>

lemma take_list_update_snoc:
  "n < length xs \<Longrightarrow> take (Suc n) (xs[n := x]) = take n xs @ [x]"
  by (simp add: take_Suc_conv_app_nth)

lemma take_pred_snoc:
  "0 < n \<Longrightarrow> n \<le> length xs \<Longrightarrow> take n xs = take (n - 1) xs @ [xs ! (n - 1)]"
  using take_Suc_conv_app_nth [of "n - 1" xs] by simp

section \<open>Regions of memory\<close>

text \<open>A region is a base address and a size in bytes.\<close>

type_synonym region = "ptr \<times> nat"

definition disjoint_region :: "region \<Rightarrow> region \<Rightarrow> bool" where
  "disjoint_region a b \<longleftrightarrow> fst a + snd a \<le> fst b \<or> fst b + snd b \<le> fst a"

lemma disjoint_region_sym: "disjoint_region a b = disjoint_region b a"
  by (auto simp: disjoint_region_def)

section \<open>Results that may be faults\<close>

text \<open>Sequencing of computations that may end in a fault (\<^verbatim>\<open>Inl\<close>).\<close>

fun and_then :: "'e + 'a \<Rightarrow> ('a \<Rightarrow> 'e + 'b) \<Rightarrow> 'e + 'b" where
  "and_then (Inl e) f = Inl e"
| "and_then (Inr x) f = f x"

lemma and_then_Inr [simp]: "and_then r f = Inr y \<longleftrightarrow> (\<exists>x. r = Inr x \<and> f x = Inr y)"
  by (cases r) auto

lemma and_then_return [simp]: "and_then r Inr = r"
  by (cases r) auto

text \<open>The faults of a part of the program among the faults of the whole.\<close>

definition raise_as :: "('e \<Rightarrow> 'f) \<Rightarrow> 'e + 'a \<Rightarrow> 'f + 'a" where
  "raise_as f r = (case r of Inl e \<Rightarrow> Inl (f e) | Inr x \<Rightarrow> Inr x)"

lemma raise_as_simps [simp]:
  "raise_as f (Inl e) = Inl (f e)" "raise_as f (Inr x) = Inr x" "raise_as f r = Inr y \<longleftrightarrow> r = Inr y"
  by (simp_all add: raise_as_def split: sum.split)

end
