(* ===== verification/Constants.thy ===== *)
theory Constants
  imports Prelude
begin

text \<open>
  \<^verbatim>\<open>async_io_constants.hpp\<close>: the event flag bits, the pool and buffer sizes, the
  configuration record with its defaults, the enumerations with their names and values,
  and the tagging of a task pointer with an event flag in the \<^verbatim>\<open>user_data\<close> of an
  io\_uring entry (\<^verbatim>\<open>async_io_handler.hpp\<close>).
\<close>

section \<open>Flags\<close>

definition kTimeoutBit :: nat where "kTimeoutBit = 63"
definition kErrorBit :: nat where "kErrorBit = 62"
definition kCancelBit :: nat where "kCancelBit = 61"

definition kTimeoutFlag :: u64 where "kTimeoutFlag = push_bit kTimeoutBit 1"
definition kErrorFlag :: u64 where "kErrorFlag = push_bit kErrorBit 1"
definition kCancelFlag :: u64 where "kCancelFlag = push_bit kCancelBit 1"

definition kEventMaskFlags :: u64 where
  "kEventMaskFlags = (kTimeoutFlag OR kErrorFlag) OR kCancelFlag"

section \<open>Sizes\<close>

definition kDefaultBufferSize :: nat where "kDefaultBufferSize = 2048"
definition kKernelBufSboSize :: nat where "kKernelBufSboSize = 256"
definition kInlineFunctionSboSize :: nat where "kInlineFunctionSboSize = 64"
definition kObjectPoolDefaultCapacity :: nat where "kObjectPoolDefaultCapacity = 4096"
definition kObjectPoolGrowBatch :: nat where "kObjectPoolGrowBatch = 1024"
definition kObjectPoolTlsCacheSize :: nat where "kObjectPoolTlsCacheSize = 32"
definition kBufferPoolNumClasses :: nat where "kBufferPoolNumClasses = 11"

definition kBufferPoolClassSizes :: "nat list" where
  "kBufferPoolClassSizes =
     [64, 128, 256, 512, 1024, 2048, 4096, 8192, 16384, 32768, 65536]"

definition kBufferPoolMaxPooledSize :: nat where "kBufferPoolMaxPooledSize = 65536"
definition kBufferPoolTlsCacheSize :: nat where "kBufferPoolTlsCacheSize = 16"

lemmas size_consts =
  kDefaultBufferSize_def kKernelBufSboSize_def kInlineFunctionSboSize_def
  kObjectPoolDefaultCapacity_def kObjectPoolGrowBatch_def kObjectPoolTlsCacheSize_def
  kBufferPoolNumClasses_def kBufferPoolClassSizes_def kBufferPoolMaxPooledSize_def
  kBufferPoolTlsCacheSize_def

section \<open>Configuration\<close>

text \<open>
  \<^verbatim>\<open>struct AsyncIoConfig\<close>. The C++ \<^verbatim>\<open>int\<close> fields are integers. \<^verbatim>\<open>SOMAXCONN\<close> is a constant
  of the system headers, so the default configuration takes it as an argument.
\<close>

record AsyncIoConfig =
  max_entries :: int
  default_buffer_size :: nat
  kernel_buf_sbo_size :: nat
  task_pool_capacity :: nat
  task_pool_grow_batch :: nat
  auto_flush_threshold_percent :: int
  default_timeout_ms :: int
  default_max_retry_count :: int
  tcp_accept_backlog :: int
  tcp_default_port :: int
  connect_timeout_ms :: int
  max_inflight_ops :: int
  backpressure_retry_us :: int

definition default_config :: "int \<Rightarrow> AsyncIoConfig" where
  "default_config somaxconn =
     \<lparr>max_entries = 256,
      default_buffer_size = 2048, kernel_buf_sbo_size = 256,
      task_pool_capacity = 4096, task_pool_grow_batch = 1024,
      auto_flush_threshold_percent = 75,
      default_timeout_ms = 0, default_max_retry_count = -1,
      tcp_accept_backlog = somaxconn, tcp_default_port = 8080, connect_timeout_ms = 5000,
      max_inflight_ops = 0, backpressure_retry_us = 100\<rparr>"

section \<open>Enumerations\<close>

datatype TaskType =
    TypeNone | TypeRead | TypeWrite | TypeAccept | TypeConnect | TypeClose | TypeTimeout
  | TypeCancel | TypeLinkTimeout | TypeTimeoutRemove | TypeTimeoutUpdate

fun TaskType_value :: "TaskType \<Rightarrow> int" where
  "TaskType_value TypeNone = 0"
| "TaskType_value TypeRead = 1"
| "TaskType_value TypeWrite = 2"
| "TaskType_value TypeAccept = 3"
| "TaskType_value TypeConnect = 4"
| "TaskType_value TypeClose = 5"
| "TaskType_value TypeTimeout = 6"
| "TaskType_value TypeCancel = 7"
| "TaskType_value TypeLinkTimeout = 8"
| "TaskType_value TypeTimeoutRemove = 9"
| "TaskType_value TypeTimeoutUpdate = 10"

fun TaskTypeName :: "TaskType \<Rightarrow> string" where
  "TaskTypeName TypeNone = ''NONE''"
| "TaskTypeName TypeRead = ''READ''"
| "TaskTypeName TypeWrite = ''WRITE''"
| "TaskTypeName TypeAccept = ''ACCEPT''"
| "TaskTypeName TypeConnect = ''CONNECT''"
| "TaskTypeName TypeClose = ''CLOSE''"
| "TaskTypeName TypeTimeout = ''TIMEOUT''"
| "TaskTypeName TypeCancel = ''CANCEL''"
| "TaskTypeName TypeLinkTimeout = ''LINK_TIMEOUT''"
| "TaskTypeName TypeTimeoutRemove = ''TIMEOUT_REMOVE''"
| "TaskTypeName TypeTimeoutUpdate = ''TIMEOUT_UPDATE''"

datatype TaskState =
  StateReady | StateSubmitted | StateSuccess | StateFailed | StateTimeout | StateCanceled

fun TaskState_value :: "TaskState \<Rightarrow> int" where
  "TaskState_value StateReady = 1000"
| "TaskState_value StateSubmitted = 1001"
| "TaskState_value StateSuccess = 1002"
| "TaskState_value StateFailed = 1003"
| "TaskState_value StateTimeout = 1004"
| "TaskState_value StateCanceled = 1005"

fun TaskStateName :: "TaskState \<Rightarrow> string" where
  "TaskStateName StateReady = ''READY''"
| "TaskStateName StateSubmitted = ''SUBMITTED''"
| "TaskStateName StateSuccess = ''SUCCESS''"
| "TaskStateName StateFailed = ''FAILED''"
| "TaskStateName StateTimeout = ''TIMEOUT''"
| "TaskStateName StateCanceled = ''CANCELED''"

text \<open>
  \<^verbatim>\<open>enum class EventFlag : uint64_t\<close> is produced by a cast from the masked \<^verbatim>\<open>user_data\<close>, so
  every 64-bit value is a possible flag; the enumerators are five of them.
\<close>

type_synonym EventFlag = u64

definition EventNone :: EventFlag where "EventNone = 0"
definition EventTimeout :: EventFlag where "EventTimeout = kTimeoutFlag"
definition EventError :: EventFlag where "EventError = kErrorFlag"
definition EventCancel :: EventFlag where "EventCancel = kCancelFlag"
definition EventMask :: EventFlag where "EventMask = kEventMaskFlags"

lemmas flag_consts =
  kTimeoutBit_def kErrorBit_def kCancelBit_def
  kTimeoutFlag_def kErrorFlag_def kCancelFlag_def kEventMaskFlags_def
  EventNone_def EventTimeout_def EventError_def EventCancel_def EventMask_def

section \<open>Tagged user data\<close>

text \<open>
  A submission entry carries the task pointer, tagged with the flag of the event; the event
  loop takes the two apart again.
\<close>

definition tag_user_data :: "u64 \<Rightarrow> u64 \<Rightarrow> u64" where
  "tag_user_data p flag = p OR flag"

definition event_of_user_data :: "u64 \<Rightarrow> EventFlag" where
  "event_of_user_data ud = ud AND kEventMaskFlags"

definition task_of_user_data :: "u64 \<Rightarrow> u64" where
  "task_of_user_data ud = ud AND NOT kEventMaskFlags"

lemmas user_data_defs = tag_user_data_def event_of_user_data_def task_of_user_data_def

text \<open>A pointer whose three topmost bits are clear, as every user-space address of Linux.\<close>

definition untagged :: "u64 \<Rightarrow> bool" where
  "untagged p \<longleftrightarrow> p AND kEventMaskFlags = 0"

lemma event_flags_distinct:
  "EventNone \<noteq> EventTimeout" "EventNone \<noteq> EventError" "EventNone \<noteq> EventCancel"
  "EventTimeout \<noteq> EventError" "EventTimeout \<noteq> EventCancel" "EventError \<noteq> EventCancel"
  by (simp_all add: flag_consts)

lemma mask_value: "kEventMaskFlags = 0xE000000000000000"
  by (simp add: flag_consts)

lemma untagged_iff_bound: "untagged p \<longleftrightarrow> p < 2 ^ 61"
proof -
  have mask_bits: "bit kEventMaskFlags n \<longleftrightarrow> 61 \<le> n \<and> n < 64" for n
    unfolding flag_consts bit_or_iff bit_push_bit_iff bit_1_iff by auto
  have "untagged p \<longleftrightarrow> (\<forall>n. 61 \<le> n \<and> n < 64 \<longrightarrow> \<not> bit p n)"
    by (auto simp: untagged_def bit_eq_iff bit_and_iff mask_bits)
  also have "\<dots> \<longleftrightarrow> take_bit 61 p = p"
    by (auto simp: bit_eq_iff bit_take_bit_iff dest: bit_imp_le_length) (meson not_le)
  also have "\<dots> \<longleftrightarrow> p < 2 ^ 61"
    by (simp add: word_unat_eq_iff word_less_nat_alt unsigned_take_bit_eq take_bit_nat_eq_self_iff)
  finally show ?thesis .
qed

lemma flag_in_mask:
  assumes "flag \<in> {EventNone, EventTimeout, EventError, EventCancel}"
  shows "flag AND kEventMaskFlags = flag" and "flag AND NOT kEventMaskFlags = 0"
  using assms by (auto simp: flag_consts)

lemma untagged_split: "untagged p \<Longrightarrow> p AND NOT kEventMaskFlags = p"
  by (auto simp: untagged_def bit_eq_iff bit_and_iff bit_not_iff dest: bit_imp_le_length)

lemma untag_tag:
  assumes "untagged p" and "flag \<in> {EventNone, EventTimeout, EventError, EventCancel}"
  shows "event_of_user_data (tag_user_data p flag) = flag"
    and "task_of_user_data (tag_user_data p flag) = p"
  using assms flag_in_mask [OF assms(2)] untagged_split [OF assms(1)]
  by (simp_all add: user_data_defs bit.conj_disj_distrib2 untagged_def)

text \<open>
  C24: the tag put on a task pointer by \<^verbatim>\<open>SubmitTask\<close>, \<^verbatim>\<open>QueueFailedTask\<close> and \<^verbatim>\<open>Cancel\<close> and the
  decoding in \<^verbatim>\<open>RunEventLoop\<close> are inverse to each other: for every pointer below
  2^61 and each of the four event flags, the event loop recovers exactly the flag and the
  pointer, and the tagged value is 0 (the shutdown sentinel) only for the null pointer
  without a flag.
\<close>

theorem user_data_roundtrip:
  assumes "p < 2 ^ 61"
    and "flag \<in> {EventNone, EventTimeout, EventError, EventCancel}"
  shows "event_of_user_data (tag_user_data p flag) = flag \<and>
         task_of_user_data (tag_user_data p flag) = p \<and>
         (tag_user_data p flag = 0 \<longleftrightarrow> p = 0 \<and> flag = EventNone)"
proof -
  from assms(1) have u: "untagged p" by (simp add: untagged_iff_bound)
  show ?thesis
    using untag_tag [OF u assms(2)] by (auto simp: user_data_defs EventNone_def)
qed

theorem user_data_roundtrip_witness:
  "event_of_user_data (tag_user_data 0x7F0000001040 EventTimeout) = EventTimeout \<and>
   task_of_user_data (tag_user_data 0x7F0000001040 EventTimeout) = 0x7F0000001040"
  using user_data_roundtrip [of "0x7F0000001040" EventTimeout] by simp

end
