(* ===== verification/Node_Stack.thy ===== *)
theory Node_Stack
  imports Constants
begin

text \<open>
  \<^verbatim>\<open>async_io_pool.hpp\<close>, the free-list stacks of pool nodes: the memory that the nodes live
  in, the mutex stack, the lock-free stack with its tagged head (one call at a time; the
  interleaved version is in \<^verbatim>\<open>Treiber_Interleaving\<close>), the choice between them, and the
  interface that the pools rely on as a locale.
\<close>

section \<open>Pool memory\<close>

text \<open>
  A \<^verbatim>\<open>PoolNode\<close> overlays the start of the block it manages. \<^verbatim>\<open>nx\<close> is the \<^verbatim>\<open>next\<close> field seen
  through the node, \<^verbatim>\<open>bytes\<close> the contents of the block at that address, by offset, as its user
  sees them; a store to one of them changes the other where they overlap (the first eight bytes, little
  endian).
\<close>

record pmem =
  nx :: "ptr \<Rightarrow> ptr"
  bytes :: "ptr \<Rightarrow> nat \<Rightarrow> byte"

definition le8 :: "nat \<Rightarrow> byte list" where
  "le8 v = map (\<lambda>i. word_of_nat (v div 256 ^ i)) [0..<8]"

fun le_value :: "byte list \<Rightarrow> nat" where
  "le_value [] = 0"
| "le_value (b # bs) = unat b + 256 * le_value bs"

definition put_bytes :: "byte list \<Rightarrow> (nat \<Rightarrow> byte) \<Rightarrow> nat \<Rightarrow> byte" where
  "put_bytes xs f = (\<lambda>i. if i < length xs then xs ! i else f i)"

definition store_next :: "ptr \<Rightarrow> ptr \<Rightarrow> pmem \<Rightarrow> pmem" where
  "store_next p v m =
     m\<lparr>nx := (nx m)(p := v), bytes := (bytes m)(p := put_bytes (le8 v) (bytes m p))\<rparr>"

definition write_bytes :: "ptr \<Rightarrow> byte list \<Rightarrow> pmem \<Rightarrow> pmem" where
  "write_bytes p xs m =
     (let f = put_bytes xs (bytes m p)
      in m\<lparr>bytes := (bytes m)(p := f), nx := (nx m)(p := le_value (map f [0..<8]))\<rparr>)"

definition read_bytes :: "ptr \<Rightarrow> nat \<Rightarrow> pmem \<Rightarrow> byte list" where
  "read_bytes p n m = map (bytes m p) [0..<n]"

lemma put_bytes_idem [simp]: "put_bytes xs (put_bytes xs f) = put_bytes xs f"
  by (auto simp: put_bytes_def)

lemma nx_store_next [simp]: "nx (store_next p v m) = (nx m)(p := v)"
  by (simp add: store_next_def)

lemma bytes_store_next [simp]: "q \<noteq> p \<Longrightarrow> bytes (store_next p v m) q = bytes m q"
  by (simp add: store_next_def)

lemma store_next_idem [simp]: "store_next p v (store_next p v m) = store_next p v m"
  by (simp add: store_next_def)

lemma nx_write_bytes [simp]: "q \<noteq> p \<Longrightarrow> nx (write_bytes p xs m) q = nx m q"
  by (simp add: write_bytes_def Let_def)

lemma bytes_write_bytes [simp]:
  "bytes (write_bytes p xs m) =
     (bytes m)(p := put_bytes xs (bytes m p))"
  by (simp add: write_bytes_def Let_def)

section \<open>MutexStack\<close>

text \<open>Each operation is one critical section, so the state is the head pointer alone.\<close>

record MutexStack =
  ms_head :: ptr

definition MutexStack_Push :: "ptr \<Rightarrow> MutexStack \<Rightarrow> pmem \<Rightarrow> MutexStack \<times> pmem" where
  "MutexStack_Push node s m = (s\<lparr>ms_head := node\<rparr>, store_next node (ms_head s) m)"

definition MutexStack_Pop :: "MutexStack \<Rightarrow> pmem \<Rightarrow> ptr \<times> MutexStack" where
  "MutexStack_Pop s m =
     (if ms_head s = nullptr then (nullptr, s)
      else (ms_head s, s\<lparr>ms_head := nx m (ms_head s)\<rparr>))"

definition MutexStack_PushChain :: "ptr \<Rightarrow> ptr \<Rightarrow> MutexStack \<Rightarrow> pmem \<Rightarrow> MutexStack \<times> pmem" where
  "MutexStack_PushChain chain_head chain_tail s m =
     (s\<lparr>ms_head := chain_head\<rparr>, store_next chain_tail (ms_head s) m)"

definition MutexStack_Empty :: "MutexStack \<Rightarrow> bool" where
  "MutexStack_Empty s \<longleftrightarrow> ms_head s = nullptr"

section \<open>LockFreeStack\<close>

record TaggedPointer =
  tp_ptr :: ptr
  tp_tag :: u64

text \<open>
  The operations when no other thread changes \<^verbatim>\<open>head_\<close> meanwhile. \<^verbatim>\<open>compare_exchange_weak\<close> may
  still fail spuriously: the first argument counts how often it does before it succeeds,
  each failure reloading the unchanged head and repeating the loop body.
\<close>

fun LockFreeStack_Push :: "nat \<Rightarrow> ptr \<Rightarrow> TaggedPointer \<Rightarrow> pmem \<Rightarrow> TaggedPointer \<times> pmem" where
  "LockFreeStack_Push 0 node old_head m =
     (\<lparr>tp_ptr = node, tp_tag = tp_tag old_head + 1\<rparr>, store_next node (tp_ptr old_head) m)"
| "LockFreeStack_Push (Suc n) node old_head m =
     LockFreeStack_Push n node old_head (store_next node (tp_ptr old_head) m)"

fun LockFreeStack_Pop :: "nat \<Rightarrow> TaggedPointer \<Rightarrow> pmem \<Rightarrow> ptr \<times> TaggedPointer" where
  "LockFreeStack_Pop 0 old_head m =
     (if tp_ptr old_head = nullptr then (nullptr, old_head)
      else (tp_ptr old_head, \<lparr>tp_ptr = nx m (tp_ptr old_head), tp_tag = tp_tag old_head + 1\<rparr>))"
| "LockFreeStack_Pop (Suc n) old_head m =
     (if tp_ptr old_head = nullptr then (nullptr, old_head)
      else LockFreeStack_Pop n old_head m)"

fun LockFreeStack_PushChain ::
    "nat \<Rightarrow> ptr \<Rightarrow> ptr \<Rightarrow> TaggedPointer \<Rightarrow> pmem \<Rightarrow> TaggedPointer \<times> pmem" where
  "LockFreeStack_PushChain 0 chain_head chain_tail old_head m =
     (\<lparr>tp_ptr = chain_head, tp_tag = tp_tag old_head + 1\<rparr>,
      store_next chain_tail (tp_ptr old_head) m)"
| "LockFreeStack_PushChain (Suc n) chain_head chain_tail old_head m =
     LockFreeStack_PushChain n chain_head chain_tail old_head
       (store_next chain_tail (tp_ptr old_head) m)"

definition LockFreeStack_Empty :: "TaggedPointer \<Rightarrow> bool" where
  "LockFreeStack_Empty head = (tp_ptr head = nullptr)"

text \<open>Spurious failures change nothing: every call ends as the one without failures.\<close>

lemma LockFreeStack_Push_spurious: "LockFreeStack_Push n node h m = LockFreeStack_Push 0 node h m"
  by (induction n arbitrary: m) auto

lemma LockFreeStack_Pop_spurious: "LockFreeStack_Pop n h m = LockFreeStack_Pop 0 h m"
  by (induction n) auto

lemma LockFreeStack_PushChain_spurious:
  "LockFreeStack_PushChain n a b h m = LockFreeStack_PushChain 0 a b h m"
  by (induction n arbitrary: m) auto

section \<open>TreiberStack\<close>

text \<open>
  \<^verbatim>\<open>std::conditional_t<kHasLockFreeTaggedPtr, LockFreeStack, MutexStack>\<close>: the choice is made
  by the platform, so the initial stack takes it as an argument.
\<close>

datatype TreiberStack = LockFree TaggedPointer | Mutex MutexStack

definition TreiberStack_init :: "bool \<Rightarrow> TreiberStack" where
  "TreiberStack_init kHasLockFreeTaggedPtr =
     (if kHasLockFreeTaggedPtr then LockFree \<lparr>tp_ptr = nullptr, tp_tag = 0\<rparr>
      else Mutex \<lparr>ms_head = nullptr\<rparr>)"

fun TreiberStack_Push :: "ptr \<Rightarrow> TreiberStack \<Rightarrow> pmem \<Rightarrow> TreiberStack \<times> pmem" where
  "TreiberStack_Push node (LockFree h) m = apfst LockFree (LockFreeStack_Push 0 node h m)"
| "TreiberStack_Push node (Mutex s) m = apfst Mutex (MutexStack_Push node s m)"

fun TreiberStack_Pop :: "TreiberStack \<Rightarrow> pmem \<Rightarrow> ptr \<times> TreiberStack" where
  "TreiberStack_Pop (LockFree h) m = apsnd LockFree (LockFreeStack_Pop 0 h m)"
| "TreiberStack_Pop (Mutex s) m = apsnd Mutex (MutexStack_Pop s m)"

fun TreiberStack_PushChain :: "ptr \<Rightarrow> ptr \<Rightarrow> TreiberStack \<Rightarrow> pmem \<Rightarrow> TreiberStack \<times> pmem" where
  "TreiberStack_PushChain a b (LockFree h) m = apfst LockFree (LockFreeStack_PushChain 0 a b h m)"
| "TreiberStack_PushChain a b (Mutex s) m = apfst Mutex (MutexStack_PushChain a b s m)"

fun TreiberStack_Empty :: "TreiberStack \<Rightarrow> bool" where
  "TreiberStack_Empty (LockFree h) = LockFreeStack_Empty h"
| "TreiberStack_Empty (Mutex s) = MutexStack_Empty s"

fun UnsafeHeadForDiagnostics :: "TreiberStack \<Rightarrow> ptr" where
  "UnsafeHeadForDiagnostics (LockFree h) = tp_ptr h"
| "UnsafeHeadForDiagnostics (Mutex s) = ms_head s"

section \<open>The interface of a node stack\<close>

text \<open>
  What the pools rely on: a stack is its top pointer and the chain of nodes from there.
  The operations are given by their effect on the top and on the memory; the laws of a
  LIFO stack over lists of nodes follow once for every implementation.
\<close>

locale node_stack =
  fixes top :: "'s \<Rightarrow> ptr"
    and empty :: "'s \<Rightarrow> bool"
    and push :: "ptr \<Rightarrow> 's \<Rightarrow> pmem \<Rightarrow> 's \<times> pmem"
    and pop :: "'s \<Rightarrow> pmem \<Rightarrow> ptr \<times> 's"
    and push_chain :: "ptr \<Rightarrow> ptr \<Rightarrow> 's \<Rightarrow> pmem \<Rightarrow> 's \<times> pmem"
  assumes empty_top: "empty s \<longleftrightarrow> top s = nullptr"
    and push_top: "push n s m = (s', m') \<Longrightarrow> top s' = n \<and> m' = store_next n (top s) m"
    and pop_empty: "top s = nullptr \<Longrightarrow> pop s m = (nullptr, s)"
    and pop_top: "top s \<noteq> nullptr \<Longrightarrow> pop s m = (x, s') \<Longrightarrow> x = top s \<and> top s' = nx m (top s)"
    and push_chain_top: "push_chain a b s m = (s', m') \<Longrightarrow>
      top s' = a \<and> m' = store_next b (top s) m"
begin

lemma push_chain_list:
  assumes "chain (nx m) (top s) xs" and "path (nx m) a (ys @ [b]) q" and "distinct (ys @ [b])"
    and "set (ys @ [b]) \<inter> set xs = {}" and "push_chain a b s m = (s', m')"
  shows "chain (nx m') (top s') (ys @ b # xs)"
  using path_snoc_redirect [of "nx m" a ys b q xs "top s"] assms push_chain_top [OF assms(5)]
  by auto

lemma push_list:
  assumes "chain (nx m) (top s) xs" and "n \<noteq> nullptr" and "n \<notin> set xs"
    and "push n s m = (s', m')"
  shows "chain (nx m') (top s') (n # xs)"
  using assms push_top [OF assms(4)] by auto

lemma pop_Nil: "chain (nx m) (top s) [] \<Longrightarrow> pop s m = (nullptr, s)"
  by (simp add: pop_empty)

lemma pop_Cons:
  assumes "chain (nx m) (top s) (x # xs)" and "pop s m = (y, s')"
  shows "y = x \<and> chain (nx m) (top s') xs"
  using assms pop_top [OF _ assms(2)] by auto

lemma pop_push:
  assumes "chain (nx m) (top s) xs" and "n \<noteq> nullptr" and "n \<notin> set xs"
    and "push n s m = (s', m')" and "pop s' m' = (y, s'')"
  shows "y = n \<and> chain (nx m') (top s'') xs"
  using pop_Cons [OF push_list [OF assms(1-4)] assms(5)] .

lemma empty_list: "chain (nx m) (top s) xs \<Longrightarrow> empty s \<longleftrightarrow> xs = []"
  using chain_Nil_iff by (simp add: empty_top)

end

interpretation mutex: node_stack ms_head MutexStack_Empty MutexStack_Push MutexStack_Pop
  MutexStack_PushChain
  by unfold_locales
    (auto simp: MutexStack_Empty_def MutexStack_Push_def MutexStack_Pop_def
      MutexStack_PushChain_def)

interpretation lockfree: node_stack tp_ptr LockFreeStack_Empty "LockFreeStack_Push n"
  "LockFreeStack_Pop n" "LockFreeStack_PushChain n"
  for n
  by unfold_locales
    (auto simp: LockFreeStack_Empty_def LockFreeStack_Push_spurious [of n]
      LockFreeStack_Pop_spurious [of n] LockFreeStack_PushChain_spurious [of n])

interpretation treiber: node_stack UnsafeHeadForDiagnostics TreiberStack_Empty
  TreiberStack_Push TreiberStack_Pop TreiberStack_PushChain
proof (unfold_locales, goal_cases)
  case (1 s)
  then show ?case by (cases s) (simp_all add: mutex.empty_top lockfree.empty_top)
next
  case (2 n s m s' m')
  then show ?case by (cases s) (auto simp: MutexStack_Push_def)
next
  case (3 s m)
  then show ?case by (cases s) (auto simp: MutexStack_Pop_def)
next
  case (4 s m x s')
  then show ?case by (cases s) (auto simp: MutexStack_Pop_def)
next
  case (5 a b s m s' m')
  then show ?case by (cases s) (auto simp: MutexStack_PushChain_def)
qed

lemma TreiberStack_init_top [simp]: "UnsafeHeadForDiagnostics (TreiberStack_init b) = nullptr"
  by (simp add: TreiberStack_init_def)

end
