(* ===== verification/Treiber_Interleaving.thy ===== *)
theory Treiber_Interleaving
  imports Node_Stack
begin

text \<open>
  \<^verbatim>\<open>LockFreeStack\<close> under every interleaving of any number of threads: each atomic load,
  store and compare-exchange of \<^verbatim>\<open>Push\<close>, \<^verbatim>\<open>PushChain\<close> and \<^verbatim>\<open>Pop\<close> is a step of its own, the
  weak compare-exchange may fail at any time, and a thread may write anything into the nodes
  it owns. The tag is the 64-bit counter of the code. Sequential consistency of the atomics
  is assumed.
\<close>

section \<open>Threads and steps\<close>

text \<open>
  Program points. A push carries the list of nodes it links in: \<^verbatim>\<open>Push(node)\<close> is the push of
  \<^verbatim>\<open>[node]\<close>, and \<^verbatim>\<open>PushChain(a, b)\<close> the push of the nodes from \<^verbatim>\<open>a\<close> to \<^verbatim>\<open>b\<close>; the code of
  the two is the same with \<^verbatim>\<open>chain_head = chain_tail = node\<close>.
\<close>

datatype lf_pc =
    LF_Idle
  | Push_Load "ptr list"
  | Push_Store "ptr list" TaggedPointer
  | Push_Cas "ptr list" TaggedPointer
  | Pop_Load
  | Pop_Next TaggedPointer
  | Pop_Cas TaggedPointer ptr

text \<open>
  \<^verbatim>\<open>owned\<close> and \<^verbatim>\<open>ops\<close> are auxiliary: the nodes each client thread holds, and the number of
  successful compare-exchanges so far.
\<close>

record lf_sys =
  lf_head :: TaggedPointer
  lf_next :: "ptr \<Rightarrow> ptr"
  pcs :: "tid \<Rightarrow> lf_pc"
  owned :: "tid \<Rightarrow> ptr set"
  ops :: nat

datatype lf_label = Tau | LinPush tid "ptr list" | LinPop tid ptr | LinPopEmpty tid

inductive lf_step :: "lf_sys \<Rightarrow> lf_label \<Rightarrow> lf_sys \<Rightarrow> bool" where
  call_push: "pcs s t = LF_Idle \<Longrightarrow> ys \<noteq> [] \<Longrightarrow> distinct ys \<Longrightarrow> set ys \<subseteq> owned s t \<Longrightarrow>
    path (lf_next s) (hd ys) ys q \<Longrightarrow>
    lf_step s Tau (s\<lparr>pcs := (pcs s)(t := Push_Load ys),
                     owned := (owned s)(t := owned s t - set ys)\<rparr>)"
| push_load: "pcs s t = Push_Load ys \<Longrightarrow>
    lf_step s Tau (s\<lparr>pcs := (pcs s)(t := Push_Store ys (lf_head s))\<rparr>)"
| push_store: "pcs s t = Push_Store ys old \<Longrightarrow>
    lf_step s Tau (s\<lparr>lf_next := (lf_next s)(last ys := tp_ptr old),
                     pcs := (pcs s)(t := Push_Cas ys old)\<rparr>)"
| push_cas_ok: "pcs s t = Push_Cas ys old \<Longrightarrow> lf_head s = old \<Longrightarrow>
    lf_step s (LinPush t ys)
      (s\<lparr>lf_head := \<lparr>tp_ptr = hd ys, tp_tag = tp_tag old + 1\<rparr>,
         pcs := (pcs s)(t := LF_Idle), ops := Suc (ops s)\<rparr>)"
| push_cas_fail: "pcs s t = Push_Cas ys old \<Longrightarrow>
    lf_step s Tau (s\<lparr>pcs := (pcs s)(t := Push_Store ys (lf_head s))\<rparr>)"
| call_pop: "pcs s t = LF_Idle \<Longrightarrow> lf_step s Tau (s\<lparr>pcs := (pcs s)(t := Pop_Load)\<rparr>)"
| pop_load_null: "pcs s t = Pop_Load \<Longrightarrow> tp_ptr (lf_head s) = nullptr \<Longrightarrow>
    lf_step s (LinPopEmpty t) (s\<lparr>pcs := (pcs s)(t := LF_Idle)\<rparr>)"
| pop_load: "pcs s t = Pop_Load \<Longrightarrow> tp_ptr (lf_head s) \<noteq> nullptr \<Longrightarrow>
    lf_step s Tau (s\<lparr>pcs := (pcs s)(t := Pop_Next (lf_head s))\<rparr>)"
| pop_next: "pcs s t = Pop_Next old \<Longrightarrow>
    lf_step s Tau (s\<lparr>pcs := (pcs s)(t := Pop_Cas old (lf_next s (tp_ptr old)))\<rparr>)"
| pop_cas_ok: "pcs s t = Pop_Cas old nxt \<Longrightarrow> lf_head s = old \<Longrightarrow>
    lf_step s (LinPop t (tp_ptr old))
      (s\<lparr>lf_head := \<lparr>tp_ptr = nxt, tp_tag = tp_tag old + 1\<rparr>,
         pcs := (pcs s)(t := LF_Idle),
         owned := (owned s)(t := insert (tp_ptr old) (owned s t)), ops := Suc (ops s)\<rparr>)"
| pop_cas_fail_null: "pcs s t = Pop_Cas old nxt \<Longrightarrow> tp_ptr (lf_head s) = nullptr \<Longrightarrow>
    lf_step s (LinPopEmpty t) (s\<lparr>pcs := (pcs s)(t := LF_Idle)\<rparr>)"
| pop_cas_fail: "pcs s t = Pop_Cas old nxt \<Longrightarrow> tp_ptr (lf_head s) \<noteq> nullptr \<Longrightarrow>
    lf_step s Tau (s\<lparr>pcs := (pcs s)(t := Pop_Next (lf_head s))\<rparr>)"
| client_write: "p \<in> owned s t \<Longrightarrow>
    lf_step s Tau (s\<lparr>lf_next := (lf_next s)(p := v)\<rparr>)"

inductive_cases lf_stepE: "lf_step s l s'"

text \<open>
  The start: an empty stack, every thread outside the operations, and each thread holding
  nodes that no other thread holds.
\<close>

definition lf_init :: "(tid \<Rightarrow> ptr set) \<Rightarrow> (ptr \<Rightarrow> ptr) \<Rightarrow> lf_sys" where
  "lf_init own h = \<lparr>lf_head = \<lparr>tp_ptr = nullptr, tp_tag = 0\<rparr>, lf_next = h,
     pcs = (\<lambda>_. LF_Idle), owned = own, ops = 0\<rparr>"

definition separate :: "(tid \<Rightarrow> ptr set) \<Rightarrow> bool" where
  "separate own \<longleftrightarrow> (\<forall>t u. t \<noteq> u \<longrightarrow> own t \<inter> own u = {}) \<and> (\<forall>t. nullptr \<notin> own t)"

inductive lf_reach :: "(tid \<Rightarrow> ptr set) \<Rightarrow> (ptr \<Rightarrow> ptr) \<Rightarrow> lf_sys \<Rightarrow> bool" for own h where
  start: "lf_reach own h (lf_init own h)"
| step: "lf_reach own h s \<Longrightarrow> lf_step s l s' \<Longrightarrow> lf_reach own h s'"

section \<open>The abstract stack\<close>

inductive stack_step :: "ptr list \<Rightarrow> lf_label \<Rightarrow> ptr list \<Rightarrow> bool" where
  "stack_step xs Tau xs"
| "stack_step xs (LinPush t ys) (ys @ xs)"
| "stack_step (x # xs) (LinPop t x) xs"
| "stack_step [] (LinPopEmpty t) []"

inductive_simps stack_step_simps:
  "stack_step xs Tau zs" "stack_step xs (LinPush t ys) zs" "stack_step xs (LinPop t x) zs"
  "stack_step xs (LinPopEmpty t) zs"

section \<open>The invariant\<close>

fun pushing :: "lf_pc \<Rightarrow> ptr list" where
  "pushing (Push_Load ys) = ys"
| "pushing (Push_Store ys old) = ys"
| "pushing (Push_Cas ys old) = ys"
| "pushing _ = []"

text \<open>
  A pop holds a snapshot of the head: the \<^verbatim>\<open>k\<close>-th one. While no compare-exchange has
  succeeded since, the snapshot is the head and the \<^verbatim>\<open>next\<close> pointer read through it is
  current.
\<close>

fun pc_ok :: "lf_sys \<Rightarrow> lf_pc \<Rightarrow> bool" where
  "pc_ok s LF_Idle = True"
| "pc_ok s (Push_Load ys) = (ys \<noteq> [] \<and> distinct ys \<and> (\<exists>q. path (lf_next s) (hd ys) ys q))"
| "pc_ok s (Push_Store ys old) = (ys \<noteq> [] \<and> distinct ys \<and> (\<exists>q. path (lf_next s) (hd ys) ys q))"
| "pc_ok s (Push_Cas ys old) =
     (ys \<noteq> [] \<and> distinct ys \<and> path (lf_next s) (hd ys) ys (tp_ptr old))"
| "pc_ok s Pop_Load = True"
| "pc_ok s (Pop_Next old) =
     (tp_ptr old \<noteq> nullptr \<and>
      (\<exists>k \<le> ops s. tp_tag old = word_of_nat k \<and> (k = ops s \<longrightarrow> old = lf_head s)))"
| "pc_ok s (Pop_Cas old n) =
     (tp_ptr old \<noteq> nullptr \<and>
      (\<exists>k \<le> ops s. tp_tag old = word_of_nat k \<and>
         (k = ops s \<longrightarrow> old = lf_head s \<and> n = lf_next s (tp_ptr old))))"

definition held :: "lf_sys \<Rightarrow> tid \<Rightarrow> ptr set" where
  "held s t = owned s t \<union> set (pushing (pcs s t))"

definition lf_inv :: "ptr list \<Rightarrow> lf_sys \<Rightarrow> bool" where
  "lf_inv xs s \<longleftrightarrow>
     chain (lf_next s) (tp_ptr (lf_head s)) xs \<and> distinct xs \<and>
     tp_tag (lf_head s) = word_of_nat (ops s) \<and>
     (\<forall>t. pc_ok s (pcs s t)) \<and>
     (\<forall>t. set xs \<inter> held s t = {}) \<and>
     (\<forall>t u. t \<noteq> u \<longrightarrow> held s t \<inter> held s u = {}) \<and>
     (\<forall>t. owned s t \<inter> set (pushing (pcs s t)) = {}) \<and>
     (\<forall>t. nullptr \<notin> held s t)"

lemma lf_inv_init: "separate own \<Longrightarrow> lf_inv [] (lf_init own h)"
  by (simp add: lf_inv_def lf_init_def separate_def held_def)

lemma lf_invD:
  assumes "lf_inv xs s"
  shows "chain (lf_next s) (tp_ptr (lf_head s)) xs" and "distinct xs"
    and "tp_tag (lf_head s) = word_of_nat (ops s)" and "pc_ok s (pcs s t)"
    and "set xs \<inter> held s t = {}" and "t \<noteq> u \<Longrightarrow> held s t \<inter> held s u = {}"
    and "owned s t \<inter> set (pushing (pcs s t)) = {}" and "nullptr \<notin> held s t"
  using assms unfolding lf_inv_def by blast+

text \<open>A thread's own view survives the steps of the others.\<close>

lemma pc_ok_next_upd:
  assumes "pc_ok s pc" and "p \<notin> set (pushing pc)" and "p \<noteq> tp_ptr (lf_head s)"
    and "lf_next s' = (lf_next s)(p := v)" and "lf_head s' = lf_head s" and "ops s' = ops s"
  shows "pc_ok s' pc"
  using assms by (cases pc) auto

lemma pc_ok_new_head:
  assumes "pc_ok s pc" and "lf_next s' = lf_next s" and "ops s' = Suc (ops s)"
  shows "pc_ok s' pc"
  using assms by (cases pc) (auto intro: le_SucI)

lemma pc_ok_frame:
  assumes "lf_next s' = lf_next s" and "ops s' = ops s" and "lf_head s' = lf_head s"
  shows "pc_ok s' pc = pc_ok s pc"
  using assms by (cases pc) auto

lemma word_of_nat_bounded_inj:
  assumes "j < 2 ^ 64" and "k < 2 ^ 64" and "(word_of_nat j :: u64) = word_of_nat k"
  shows "j = k"
proof -
  have "unat (word_of_nat n :: u64) = n" if "n < 2 ^ 64" for n
    using that by (simp add: unsigned_of_nat take_bit_nat_eq_self)
  with assms show ?thesis by metis
qed

lemma lf_inv_set_pc:
  assumes "lf_inv xs s" and "pc_ok s pc" and "pushing pc = pushing (pcs s t)"
  shows "lf_inv xs (s\<lparr>pcs := (pcs s)(t := pc)\<rparr>)"
proof -
  let ?s = "s\<lparr>pcs := (pcs s)(t := pc)\<rparr>"
  have held: "held ?s u = held s u" for u
    using assms(3) by (simp add: held_def)
  have ok: "pc_ok ?s (pcs ?s u)" for u
    using assms(1,2) by (subst pc_ok_frame [of ?s s]) (simp_all add: lf_inv_def)
  show ?thesis
    using assms(1,3) ok held by (simp add: lf_inv_def)
qed

lemma lf_inv_call_push:
  assumes inv: "lf_inv xs s" and "pcs s t = LF_Idle" and "ys \<noteq> []" and "distinct ys"
    and "set ys \<subseteq> owned s t" and "path (lf_next s) (hd ys) ys q"
  shows "lf_inv xs (s\<lparr>pcs := (pcs s)(t := Push_Load ys),
                      owned := (owned s)(t := owned s t - set ys)\<rparr>)" (is "lf_inv xs ?s")
proof -
  have held: "held ?s u = held s u" for u
    using assms(2,5) by (auto simp: held_def)
  have ok: "pc_ok ?s (pcs ?s u)" for u
    using assms by (subst pc_ok_frame [of ?s s]) (auto simp: lf_inv_def)
  have "owned ?s u \<inter> set (pushing (pcs ?s u)) = {}" for u
    using inv by (auto simp: lf_inv_def)
  with inv ok held show ?thesis by (simp add: lf_inv_def)
qed

lemma lf_inv_next_upd:
  assumes inv: "lf_inv xs s" and p: "p \<in> held s t"
    and ok: "pc_ok (s\<lparr>lf_next := (lf_next s)(p := v)\<rparr>) (pcs s t)"
  shows "lf_inv xs (s\<lparr>lf_next := (lf_next s)(p := v)\<rparr>)" (is "lf_inv xs ?s")
proof -
  have fresh: "p \<notin> set xs" using lf_invD(5) [OF inv, of t] p by blast
  have nn: "p \<noteq> nullptr"
  proof
    assume "p = nullptr"
    with p have "nullptr \<in> held s t" by simp
    with lf_invD(8) [OF inv, of t] show False by contradiction
  qed
  have head: "p \<noteq> tp_ptr (lf_head s)"
    using lf_invD(1) [OF inv] fresh nn by (cases xs) auto
  have "pc_ok ?s (pcs s u)" for u
  proof (cases "u = t")
    case False
    then have "p \<notin> set (pushing (pcs s u))"
      using lf_invD(6) [OF inv False] p by (auto simp: held_def)
    then show ?thesis
      using pc_ok_next_upd [OF lf_invD(4) [OF inv, of u] _ head, of ?s v] by simp
  qed (use ok in simp)
  moreover have "held ?s u = held s u" for u by (simp add: held_def)
  moreover have "chain (lf_next ?s) (tp_ptr (lf_head ?s)) xs"
    using lf_invD(1) [OF inv] fresh by simp
  ultimately show ?thesis using inv by (simp add: lf_inv_def)
qed

lemma push_store_ok:
  assumes "ys \<noteq> []" and "distinct ys" and "path h (hd ys) ys q"
  shows "path (h(last ys := v)) (hd ys) ys v"
proof -
  from assms(1) obtain zs z where ys: "ys = zs @ [z]" by (metis rev_exhaust)
  then have "z \<notin> set zs" using assms(2) by simp
  with ys assms(3) show ?thesis by (simp add: path_append)
qed

lemma lf_inv_push_store:
  assumes inv: "lf_inv xs s" and pc: "pcs s t = Push_Store ys old"
  shows "lf_inv xs (s\<lparr>lf_next := (lf_next s)(last ys := tp_ptr old),
                      pcs := (pcs s)(t := Push_Cas ys old)\<rparr>)"
proof -
  let ?s = "s\<lparr>lf_next := (lf_next s)(last ys := tp_ptr old)\<rparr>"
  from inv have "pc_ok s (pcs s t)" by (simp add: lf_inv_def)
  then obtain q where ys: "ys \<noteq> []" "distinct ys" "path (lf_next s) (hd ys) ys q"
    using pc by auto
  have p: "path (lf_next ?s) (hd ys) ys (tp_ptr old)"
    using push_store_ok [OF ys] by simp
  have "lf_inv xs ?s"
    by (rule lf_inv_next_upd [OF inv, of _ t]) (use ys pc p in \<open>auto simp: held_def\<close>)
  then have "lf_inv xs (?s\<lparr>pcs := (pcs ?s)(t := Push_Cas ys old)\<rparr>)"
    by (rule lf_inv_set_pc) (use ys p pc in auto)
  then show ?thesis by simp
qed

lemma lf_inv_push_cas:
  assumes inv: "lf_inv xs s" and pc: "pcs s t = Push_Cas ys (lf_head s)"
  shows "lf_inv (ys @ xs)
      (s\<lparr>lf_head := \<lparr>tp_ptr = hd ys, tp_tag = tp_tag (lf_head s) + 1\<rparr>,
         pcs := (pcs s)(t := LF_Idle), ops := Suc (ops s)\<rparr>)" (is "lf_inv _ ?s")
proof -
  from inv have "pc_ok s (pcs s t)" by (simp add: lf_inv_def)
  then have ys: "distinct ys" "path (lf_next s) (hd ys) ys (tp_ptr (lf_head s))"
    using pc by auto
  have held: "held ?s u = (if u = t then owned s t else held s u)" for u
    by (simp add: held_def)
  have heldt: "held s t = owned s t \<union> set ys" using pc by (simp add: held_def)
  have ok: "pc_ok ?s (pcs ?s u)" for u
    using inv by (cases "u = t") (auto simp: lf_inv_def intro: pc_ok_new_head [of s])
  have own: "owned s t \<inter> set ys = {}" using lf_invD(7) [OF inv, of t] pc by simp
  have other: "set ys \<inter> held s u = {}" if "u \<noteq> t" for u
    using lf_invD(6) [OF inv that] heldt by blast
  have "set (ys @ xs) \<inter> held ?s u = {}" for u
    using lf_invD(5) [OF inv, of u] heldt own other [of u] unfolding held by (cases "u = t") auto
  moreover have "distinct (ys @ xs)"
    using lf_invD(2) [OF inv] lf_invD(5) [OF inv, of t] ys(1) heldt by auto
  moreover have "u \<noteq> w \<Longrightarrow> held ?s u \<inter> held ?s w = {}" for u w
    using lf_invD(6) [OF inv, of u w] heldt unfolding held by (cases "u = t"; cases "w = t") auto
  moreover have "owned ?s u \<inter> set (pushing (pcs ?s u)) = {}" for u
    using lf_invD(7) [OF inv, of u] by auto
  moreover have "nullptr \<notin> held ?s u" for u
    using lf_invD(8) [OF inv, of u] heldt unfolding held by (cases "u = t") auto
  moreover have "chain (lf_next ?s) (tp_ptr (lf_head ?s)) (ys @ xs)"
    using inv ys(2) by (auto simp: lf_inv_def path_append)
  ultimately show ?thesis
    using inv ok by (simp add: lf_inv_def)
qed

lemma pop_cas_current:
  assumes inv: "lf_inv xs s" and pc: "pcs s t = Pop_Cas (lf_head s) n" and "ops s < 2 ^ 64"
  shows "\<exists>ys. xs = tp_ptr (lf_head s) # ys \<and> chain (lf_next s) n ys"
proof -
  from inv have "pc_ok s (pcs s t)" by (simp add: lf_inv_def)
  then obtain k where k: "k \<le> ops s" "tp_tag (lf_head s) = word_of_nat k"
      "k = ops s \<longrightarrow> n = lf_next s (tp_ptr (lf_head s))" "tp_ptr (lf_head s) \<noteq> nullptr"
    using pc by auto
  from k(1,2) inv assms(3) have "k = ops s"
    by (intro word_of_nat_bounded_inj) (auto simp: lf_inv_def)
  with k inv show ?thesis by (cases xs) (auto simp: lf_inv_def)
qed

lemma lf_inv_pop_cas:
  assumes inv: "lf_inv (x # ys) s" and pc: "pcs s t = Pop_Cas (lf_head s) n"
    and ch: "chain (lf_next s) n ys"
  shows "lf_inv ys
      (s\<lparr>lf_head := \<lparr>tp_ptr = n, tp_tag = tp_tag (lf_head s) + 1\<rparr>,
         pcs := (pcs s)(t := LF_Idle),
         owned := (owned s)(t := insert x (owned s t)), ops := Suc (ops s)\<rparr>)" (is "lf_inv _ ?s")
proof -
  have x: "x \<notin> set ys" "x \<noteq> nullptr" "x \<notin> held s u" for u
    using lf_invD(1,2) [OF inv] lf_invD(5) [OF inv, of u] by auto
  have held: "held ?s u = (if u = t then insert x (held s t) else held s u)" for u
    using pc by (simp add: held_def)
  have ok: "pc_ok ?s (pcs ?s u)" for u
    using inv by (cases "u = t") (auto simp: lf_inv_def intro: pc_ok_new_head [of s])
  have "set ys \<inter> held ?s u = {}" for u
    using lf_invD(5) [OF inv, of u] x unfolding held by (cases "u = t") auto
  moreover have "u \<noteq> w \<Longrightarrow> held ?s u \<inter> held ?s w = {}" for u w
    using lf_invD(6) [OF inv, of u w] x unfolding held by (cases "u = t"; cases "w = t") auto
  moreover have "owned ?s u \<inter> set (pushing (pcs ?s u)) = {}" for u
    using lf_invD(7) [OF inv, of u] by auto
  moreover have "nullptr \<notin> held ?s u" for u
    using lf_invD(8) [OF inv, of u] x unfolding held by (cases "u = t") auto
  ultimately show ?thesis
    using inv ok ch by (simp add: lf_inv_def)
qed


lemma pc_ok_snapshot:
  assumes "lf_inv xs s" and "tp_ptr (lf_head s) \<noteq> nullptr"
  shows "pc_ok s (Pop_Next (lf_head s))"
  using assms lf_invD(3) [OF assms(1)] by auto

text \<open>
  Every step keeps the invariant, and what it does to the list of nodes in the stack is what
  the abstract stack does for its label.
\<close>

lemma lf_step_inv:
  assumes "lf_step s l s'" and inv: "lf_inv xs s" and bound: "ops s < 2 ^ 64"
  shows "\<exists>xs'. lf_inv xs' s' \<and> stack_step xs l xs'"
  using assms(1)
proof cases
  case (call_push t ys q)
  then show ?thesis
    using lf_inv_call_push [OF inv] by (auto simp: stack_step_simps)
next
  case (push_load t ys)
  then show ?thesis
    using lf_inv_set_pc [OF inv, of _ t] lf_invD(4) [OF inv, of t] by (auto simp: stack_step_simps)
next
  case (push_store t ys old)
  then show ?thesis
    using lf_inv_push_store [OF inv] by (auto simp: stack_step_simps)
next
  case (push_cas_ok t ys old)
  then show ?thesis
    using lf_inv_push_cas [OF inv, of t ys] by (auto simp: stack_step_simps)
next
  case (push_cas_fail t ys old)
  then have "pc_ok s (Push_Store ys (lf_head s))" using lf_invD(4) [OF inv, of t] by auto
  then show ?thesis
    using push_cas_fail lf_inv_set_pc [OF inv, of _ t] by (auto simp: stack_step_simps)
next
  case (call_pop t)
  then show ?thesis
    using lf_inv_set_pc [OF inv, of _ t] by (auto simp: stack_step_simps)
next
  case (pop_load_null t)
  then have "xs = []" using lf_invD(1) [OF inv] by simp
  then show ?thesis
    using pop_load_null lf_inv_set_pc [OF inv, of _ t] by (auto simp: stack_step_simps)
next
  case (pop_load t)
  then show ?thesis
    using lf_inv_set_pc [OF inv pc_ok_snapshot [OF inv], of t] by (auto simp: stack_step_simps)
next
  case (pop_next t old)
  then have "pc_ok s (Pop_Cas old (lf_next s (tp_ptr old)))"
    using lf_invD(4) [OF inv, of t] by auto
  then show ?thesis
    using pop_next lf_inv_set_pc [OF inv, of _ t] by (auto simp: stack_step_simps)
next
  case (pop_cas_ok t old n)
  then obtain ys where ys: "xs = tp_ptr (lf_head s) # ys" "chain (lf_next s) n ys"
    using pop_cas_current [OF inv _ bound] by auto
  then show ?thesis
    using pop_cas_ok lf_inv_pop_cas [of _ ys s t n] inv by (auto simp: stack_step_simps)
next
  case (pop_cas_fail_null t old n)
  then have "xs = []" using lf_invD(1) [OF inv] by simp
  then show ?thesis
    using pop_cas_fail_null lf_inv_set_pc [OF inv, of _ t] by (auto simp: stack_step_simps)
next
  case (pop_cas_fail t old n)
  then show ?thesis
    using lf_inv_set_pc [OF inv pc_ok_snapshot [OF inv], of t] by (auto simp: stack_step_simps)
next
  case (client_write p t v)
  have head: "p \<noteq> tp_ptr (lf_head s)" and push: "p \<notin> set (pushing (pcs s t))"
    using lf_invD(1,2) [OF inv] lf_invD(5,7,8) [OF inv, of t] client_write
    by (cases xs; auto simp: held_def)+
  have "pc_ok (s\<lparr>lf_next := (lf_next s)(p := v)\<rparr>) (pcs s t)"
    by (rule pc_ok_next_upd [OF lf_invD(4) [OF inv] push head]) simp_all
  then show ?thesis
    using client_write lf_inv_next_upd [OF inv, of p t v] by (auto simp: held_def stack_step_simps)
qed

lemma lf_step_ops: "lf_step s l s' \<Longrightarrow> ops s \<le> ops s'"
  by (erule lf_stepE) auto

lemma lf_reach_inv:
  "lf_reach own h s \<Longrightarrow> separate own \<Longrightarrow> ops s < 2 ^ 64 \<Longrightarrow> \<exists>xs. lf_inv xs s"
proof (induction rule: lf_reach.induct)
  case start
  then show ?case using lf_inv_init by blast
next
  case (step s l s')
  have "ops s < 2 ^ 64" using lf_step_ops [OF step.hyps(2)] step.prems(2) by linarith
  with step show ?case using lf_step_inv by blast
qed

section \<open>Safety and refinement\<close>

text \<open>
  C10: the lock-free free list is ABA-safe. Under every interleaving of any number of
  threads, with spurious compare-exchange failures and arbitrary writes of the clients into
  the nodes they own, and as long as fewer than 2^64 compare-exchanges have succeeded (the
  range of the tag), the head always leads through a null-terminated list of distinct nodes,
  none of these nodes is owned by a thread, and no node is owned by two threads.
\<close>

theorem lockfree_stack_safe:
  assumes "lf_reach own h s" and "separate own" and "ops s < 2 ^ 64"
  shows "\<exists>xs. chain (lf_next s) (tp_ptr (lf_head s)) xs \<and> distinct xs \<and>
           (\<forall>t. set xs \<inter> owned s t = {}) \<and> (\<forall>t u. t = u \<or> owned s t \<inter> owned s u = {})"
proof -
  obtain xs where inv: "lf_inv xs s" using lf_reach_inv [OF assms] by blast
  have "set xs \<inter> owned s t = {}" for t
    using lf_invD(5) [OF inv, of t] by (auto simp: held_def)
  moreover have "t = u \<or> owned s t \<inter> owned s u = {}" for t u
    using lf_invD(6) [OF inv, of t u] by (auto simp: held_def)
  ultimately show ?thesis using lf_invD(1,2) [OF inv] by blast
qed

text \<open>Two threads, one of which has started to push the node it owns.\<close>

abbreviation own12 :: "tid \<Rightarrow> ptr set" where
  "own12 \<equiv> (\<lambda>_. {})(1 := {64}, 2 := {128})"

abbreviation pushing_state :: lf_sys where
  "pushing_state \<equiv> (lf_init own12 (\<lambda>_. 0))\<lparr>pcs := (\<lambda>_. LF_Idle)(1 := Push_Load [64]),
     owned := own12(1 := {})\<rparr>"

lemma separate_own12: "separate own12"
  by (simp add: separate_def)

lemma pushing_state_reachable: "lf_reach own12 (\<lambda>_. 0) pushing_state"
  by (rule lf_reach.step [OF lf_reach.start, of _ _ Tau])
    (use call_push [of "lf_init own12 (\<lambda>_. 0)" 1 "[64]" 0] in \<open>simp add: lf_init_def\<close>)

theorem lockfree_stack_safe_witness:
  "\<exists>xs. chain (lf_next pushing_state) (tp_ptr (lf_head pushing_state)) xs \<and> distinct xs \<and>
     set xs \<inter> owned pushing_state 2 = {}"
  using lockfree_stack_safe [OF pushing_state_reachable separate_own12]
  by (auto simp: lf_init_def)

text \<open>
  C5: linearizability of the lock-free stack. From every reachable state (below 2^64
  successful compare-exchanges) whose head leads through the list \<^verbatim>\<open>xs\<close>, each step is a step
  of the abstract stack on \<^verbatim>\<open>xs\<close>: a successful push compare-exchange puts exactly the pushed
  nodes on top, a successful pop compare-exchange removes exactly the top node, which the
  popping thread then owns, a pop returns null only on an empty stack, and every other step
  leaves the contents unchanged.
\<close>

theorem lockfree_stack_linearizable:
  assumes "lf_reach own h s" and "separate own" and "ops s < 2 ^ 64"
    and "chain (lf_next s) (tp_ptr (lf_head s)) xs" and "lf_step s l s'"
  shows "\<exists>xs'. chain (lf_next s') (tp_ptr (lf_head s')) xs' \<and> stack_step xs l xs' \<and>
           (\<forall>t x. l = LinPop t x \<longrightarrow> x \<in> owned s' t)"
proof -
  obtain ys where "lf_inv ys s" using lf_reach_inv [OF assms(1-3)] by blast
  moreover from this have "ys = xs" using chain_unique lf_invD(1) assms(4) by blast
  ultimately obtain xs' where "lf_inv xs' s'" and st: "stack_step xs l xs'"
    using lf_step_inv [OF assms(5) _ assms(3)] by blast
  moreover have "\<forall>t x. l = LinPop t x \<longrightarrow> x \<in> owned s' t"
    using assms(5) by (auto elim!: lf_stepE)
  ultimately show ?thesis using lf_invD(1) by blast
qed

theorem lockfree_stack_linearizable_witness:
  "\<exists>xs'. chain (lf_next (pushing_state\<lparr>pcs := (pcs pushing_state)(1 := Push_Store [64] (lf_head pushing_state))\<rparr>))
           (tp_ptr (lf_head pushing_state)) xs' \<and> stack_step [] Tau xs'"
proof -
  have ch: "chain (lf_next pushing_state) (tp_ptr (lf_head pushing_state)) []"
    and b: "ops pushing_state < 2 ^ 64" by (simp_all add: lf_init_def)
  have st: "lf_step pushing_state Tau
      (pushing_state\<lparr>pcs := (pcs pushing_state)(1 := Push_Store [64] (lf_head pushing_state))\<rparr>)"
    by (rule push_load) simp
  show ?thesis
    using lockfree_stack_linearizable [OF pushing_state_reachable separate_own12 b ch st] by auto
qed

end
