(* ===== verification/Inline_Function.thy ===== *)
theory Inline_Function
  imports Constants
begin

text \<open>
  \<^verbatim>\<open>async_io_task.hpp\<close>, \<^verbatim>\<open>InlineFunction\<close>: a type-erased callable that lives in the object when it
  is small and on the heap otherwise. The theory follows which callable objects are
  constructed where, and shows that each is destroyed exactly once.
\<close>

section \<open>State\<close>

text \<open>
  A callable of some decayed type: its size and alignment decide the storage, \<^verbatim>\<open>c_fun\<close> stands for
  its code and captures. The vtable that \<^verbatim>\<open>Construct\<close> makes for the type is named by the callable.
\<close>

record callable =
  c_size :: nat
  c_align :: nat
  c_fun :: nat

text \<open>
  An \<^verbatim>\<open>InlineFunction\<close> at address \<^verbatim>\<open>a\<close>: \<^verbatim>\<open>stored_ptr\<close> is what \<^verbatim>\<open>storage_\<close> holds when it holds a
  pointer. The memory has the constructed callables by address and the heap blocks.
\<close>

record InlineFunction =
  stored_ptr :: ptr
  vtable :: "callable option"
  is_heap :: bool

record fn_mem =
  objs :: "ptr \<rightharpoonup> callable"
  fn_heap :: "ptr set"

datatype fn_fault = NullCall | NoObject ptr | BadFree ptr

text \<open>
  The template parameter \<^verbatim>\<open>InlineSize\<close> is an argument: 64 (\<^verbatim>\<open>kInlineFunctionSboSize\<close>) for the handlers
  of tasks, 32 for \<^verbatim>\<open>CheckBufferFunc\<close>.
\<close>

definition kStorageSize :: "nat \<Rightarrow> nat" where "kStorageSize InlineSize = InlineSize"
definition kStorageAlign :: nat where "kStorageAlign = 16"

section \<open>Operations\<close>

definition InlineFunction_empty :: InlineFunction where
  "InlineFunction_empty = \<lparr>stored_ptr = nullptr, vtable = None, is_heap = False\<rparr>"

definition ObjPtr :: "ptr \<Rightarrow> InlineFunction \<Rightarrow> ptr" where
  "ObjPtr a f = (if is_heap f then stored_ptr f else a)"

text \<open>The vtable entries: the destructor, and the move that constructs at \<^verbatim>\<open>dst\<close> and destroys \<^verbatim>\<open>src\<close>.\<close>

definition vt_destroy :: "ptr \<Rightarrow> fn_mem \<Rightarrow> fn_fault + fn_mem" where
  "vt_destroy p m = (case objs m p of None \<Rightarrow> Inl (NoObject p) | Some c \<Rightarrow> Inr (m\<lparr>objs := (objs m)(p := None)\<rparr>))"

definition vt_move_construct :: "ptr \<Rightarrow> ptr \<Rightarrow> fn_mem \<Rightarrow> fn_fault + fn_mem" where
  "vt_move_construct src dst m =
     (case objs m src of
        None \<Rightarrow> Inl (NoObject src)
      | Some c \<Rightarrow> vt_destroy src (m\<lparr>objs := (objs m)(dst \<mapsto> c)\<rparr>))"

definition fn_delete :: "ptr \<Rightarrow> fn_mem \<Rightarrow> fn_fault + fn_mem" where
  "fn_delete p m = (if p \<in> fn_heap m then Inr (m\<lparr>fn_heap := fn_heap m - {p}\<rparr>) else Inl (BadFree p))"

text \<open>\<^verbatim>\<open>Construct\<close> at address \<^verbatim>\<open>a\<close>; \<^verbatim>\<open>p\<close> is what \<^verbatim>\<open>new\<close> returns when the callable is large.\<close>

definition InlineFunction_Construct ::
    "nat \<Rightarrow> ptr \<Rightarrow> ptr \<Rightarrow> callable \<Rightarrow> InlineFunction \<times> fn_mem \<Rightarrow> InlineFunction \<times> fn_mem" where
  "InlineFunction_Construct InlineSize p a c fm =
     (let (f, m) = fm;
          (f1, m1) =
            (if c_size c \<le> kStorageSize InlineSize \<and> c_align c \<le> kStorageAlign
             then (f\<lparr>is_heap := False\<rparr>, m\<lparr>objs := (objs m)(a \<mapsto> c)\<rparr>)
             else (f\<lparr>stored_ptr := p, is_heap := True\<rparr>,
                   m\<lparr>objs := (objs m)(p \<mapsto> c), fn_heap := insert p (fn_heap m)\<rparr>))
      in (f1\<lparr>vtable := Some c\<rparr>, m1))"

definition InlineFunction_Destroy ::
    "ptr \<Rightarrow> InlineFunction \<times> fn_mem \<Rightarrow> fn_fault + InlineFunction \<times> fn_mem" where
  "InlineFunction_Destroy a fm =
     (let (f, m) = fm
      in if vtable f = None then Inr (f, m)
         else and_then (vt_destroy (ObjPtr a f) m) (\<lambda>m1.
              and_then (if is_heap f then fn_delete (ObjPtr a f) m1 else Inr m1) (\<lambda>m2.
              Inr (f\<lparr>vtable := None, is_heap := False\<rparr>, m2))))"

text \<open>What the move constructor and the move assignment share: take over the other's callable.\<close>

definition take_over ::
    "ptr \<Rightarrow> ptr \<Rightarrow> InlineFunction \<Rightarrow> InlineFunction \<Rightarrow> fn_mem \<Rightarrow>
       fn_fault + InlineFunction \<times> InlineFunction \<times> fn_mem" where
  "take_over a b this other m =
     (let this1 = this\<lparr>vtable := vtable other, is_heap := is_heap other\<rparr>;
          gone = other\<lparr>vtable := None, is_heap := False\<rparr>
      in if vtable other = None then Inr (this1, gone, m)
         else if is_heap other then Inr (this1\<lparr>stored_ptr := stored_ptr other\<rparr>, gone, m)
         else and_then (vt_move_construct b a m) (\<lambda>m1. Inr (this1, gone, m1)))"

definition InlineFunction_move_construct ::
    "ptr \<Rightarrow> ptr \<Rightarrow> InlineFunction \<Rightarrow> fn_mem \<Rightarrow> fn_fault + InlineFunction \<times> InlineFunction \<times> fn_mem" where
  "InlineFunction_move_construct a b other m = take_over a b InlineFunction_empty other m"

definition InlineFunction_move_assign ::
    "ptr \<Rightarrow> ptr \<Rightarrow> InlineFunction \<Rightarrow> InlineFunction \<Rightarrow> fn_mem \<Rightarrow>
       fn_fault + InlineFunction \<times> InlineFunction \<times> fn_mem" where
  "InlineFunction_move_assign a b this other m =
     (if a = b then Inr (this, other, m)
      else and_then (InlineFunction_Destroy a (this, m)) (\<lambda>(this1, m1). take_over a b this1 other m1))"

text \<open>The call: the callable's code is found through the vtable; an empty function has none.\<close>

definition InlineFunction_invoke ::
    "(nat \<Rightarrow> 'x \<Rightarrow> 'y) \<Rightarrow> ptr \<Rightarrow> InlineFunction \<Rightarrow> 'x \<Rightarrow> fn_mem \<Rightarrow> fn_fault + 'y" where
  "InlineFunction_invoke code a f x m =
     (case vtable f of
        None \<Rightarrow> Inl NullCall
      | Some _ \<Rightarrow> (case objs m (ObjPtr a f) of
                    None \<Rightarrow> Inl (NoObject (ObjPtr a f))
                  | Some c \<Rightarrow> Inr (code (c_fun c) x)))"

definition InlineFunction_bool :: "InlineFunction \<Rightarrow> bool" where
  "InlineFunction_bool f \<longleftrightarrow> vtable f \<noteq> None"

section \<open>Ownership\<close>

text \<open>
  All functions of a program by address, and what the non-empty ones refer to: the address of
  the callable, the callable, and whether it is on the heap. The invariant: the constructed
  callables are exactly those that the functions refer to, no two functions share one, and the
  heap blocks are exactly those of the functions with a large callable.
\<close>

type_synonym fns = "ptr \<rightharpoonup> InlineFunction"

definition view_of :: "ptr \<Rightarrow> InlineFunction option \<Rightarrow> (ptr \<times> callable \<times> bool) option" where
  "view_of a x = (case x of None \<Rightarrow> None
     | Some f \<Rightarrow> map_option (\<lambda>c. (ObjPtr a f, c, is_heap f)) (vtable f))"

definition views_ok :: "(ptr \<rightharpoonup> ptr \<times> callable \<times> bool) \<Rightarrow> fn_mem \<Rightarrow> bool" where
  "views_ok V m \<longleftrightarrow>
     (\<forall>p c. objs m p = Some c \<longleftrightarrow> (\<exists>a h. V a = Some (p, c, h))) \<and>
     (\<forall>a b p c h d k. V a = Some (p, c, h) \<longrightarrow> V b = Some (p, d, k) \<longrightarrow> a = b) \<and>
     (\<forall>p. p \<in> fn_heap m \<longleftrightarrow> (\<exists>a c. V a = Some (p, c, True)))"

definition view :: "fns \<Rightarrow> ptr \<rightharpoonup> ptr \<times> callable \<times> bool" where
  "view F = (\<lambda>a. view_of a (F a))"

definition fn_inv :: "fns \<Rightarrow> fn_mem \<Rightarrow> bool" where
  "fn_inv F m \<longleftrightarrow> views_ok (view F) m \<and> fn_heap m \<inter> dom F = {}"

text \<open>The life of functions: construction, moves, destruction.\<close>

inductive fn_step :: "fns \<times> fn_mem \<Rightarrow> fns \<times> fn_mem \<Rightarrow> bool" where
  empty: "F a = None \<Longrightarrow> a \<notin> fn_heap m \<Longrightarrow> fn_step (F, m) (F(a \<mapsto> InlineFunction_empty), m)"
| construct: "F a = None \<Longrightarrow> a \<notin> fn_heap m \<Longrightarrow> F p = None \<Longrightarrow> p \<notin> fn_heap m \<Longrightarrow> p \<noteq> a \<Longrightarrow>
    InlineFunction_Construct InlineSize p a c (InlineFunction_empty, m) = (f, m') \<Longrightarrow>
    fn_step (F, m) (F(a \<mapsto> f), m')"
| move_construct: "F a = None \<Longrightarrow> a \<notin> fn_heap m \<Longrightarrow> F b = Some g \<Longrightarrow>
    InlineFunction_move_construct a b g m = Inr (f, g', m') \<Longrightarrow>
    fn_step (F, m) (F(a \<mapsto> f, b \<mapsto> g'), m')"
| move_assign: "F a = Some f \<Longrightarrow> F b = Some g \<Longrightarrow> a \<noteq> b \<Longrightarrow>
    InlineFunction_move_assign a b f g m = Inr (f', g', m') \<Longrightarrow>
    fn_step (F, m) (F(a \<mapsto> f', b \<mapsto> g'), m')"
| destroy: "F a = Some f \<Longrightarrow> InlineFunction_Destroy a (f, m) = Inr (f', m') \<Longrightarrow>
    fn_step (F, m) (F(a := None), m')"

inductive fn_reach :: "fns \<times> fn_mem \<Rightarrow> bool" where
  init: "fn_reach (Map.empty, \<lparr>objs = Map.empty, fn_heap = {}\<rparr>)"
| step: "fn_reach s \<Longrightarrow> fn_step s s' \<Longrightarrow> fn_reach s'"

lemma view_upd [simp]: "view (F(a := x)) = (view F)(a := view_of a x)"
  by (auto simp: view_def)

lemma view_of_None [simp]: "view_of a None = None" "vtable f = None \<Longrightarrow> view_of a (Some f) = None"
  by (simp_all add: view_of_def)

lemma view_of_Some: "vtable f = Some c \<Longrightarrow> view_of a (Some f) = Some (ObjPtr a f, c, is_heap f)"
  by (simp add: view_of_def)

lemma view_at: "view F a = view_of a (F a)"
  by (simp add: view_def)

lemma views_okD:
  assumes "views_ok V m"
  shows "V a = Some (p, c, h) \<Longrightarrow> objs m p = Some c"
    and "V a = Some (p, c, h) \<Longrightarrow> h \<Longrightarrow> p \<in> fn_heap m"
    and "objs m p = Some c \<Longrightarrow> \<exists>a h. V a = Some (p, c, h)"
    and "p \<in> fn_heap m \<Longrightarrow> \<exists>a c. V a = Some (p, c, True)"
  using assms unfolding views_ok_def by (blast, (metis (full_types))+)

text \<open>A callable disappears, appears, or moves from one function to another.\<close>

lemma views_drop:
  assumes V: "views_ok V m" and a: "V a = Some (p, c, h)"
  shows "views_ok (V(a := None)) (m\<lparr>objs := (objs m)(p := None), fn_heap := fn_heap m - (if h then {p} else {})\<rparr>)"
proof -
  have inj: "\<And>b d k. V b = Some (p, d, k) \<Longrightarrow> b = a" using V a unfolding views_ok_def by blast
  then have "\<And>b d k. b \<noteq> a \<Longrightarrow> V b = Some (q, d, k) \<Longrightarrow> q \<noteq> p" for q by blast
  then show ?thesis
    using V a unfolding views_ok_def by (auto split: if_splits) (metis option.inject prod.inject)+
qed

lemma views_add:
  assumes V: "views_ok V m" and a: "V a = None" and new: "objs m p = None"
  shows "views_ok (V(a \<mapsto> (p, c, h))) (m\<lparr>objs := (objs m)(p \<mapsto> c), fn_heap := fn_heap m \<union> (if h then {p} else {})\<rparr>)"
proof -
  have n: "V b \<noteq> Some (p, d, k)" for b d k using V new unfolding views_ok_def by (metis option.distinct(1))
  show ?thesis
    using V a n unfolding views_ok_def by (auto split: if_splits) (metis option.distinct(1))+
qed

lemma views_rename:
  assumes V: "views_ok V m" and a: "V a = None" and b: "V b = Some (p, c, h)"
  shows "views_ok (V(a \<mapsto> (p, c, h), b := None)) m"
proof -
  let ?m = "m\<lparr>objs := (objs m)(p := None), fn_heap := fn_heap m - (if h then {p} else {})\<rparr>"
  have ne: "a \<noteq> b" using a b by auto
  have "objs m p = Some c" "h \<longrightarrow> p \<in> fn_heap m" using views_okD(1,2) [OF V b] by simp_all
  then have m: "?m\<lparr>objs := (objs ?m)(p \<mapsto> c), fn_heap := fn_heap ?m \<union> (if h then {p} else {})\<rparr> = m"
    by (cases m) (auto simp: fun_upd_idem)
  have "views_ok ((V(b := None))(a \<mapsto> (p, c, h))) m"
    using views_add [OF views_drop [OF V b], of a p c h] a ne unfolding m by simp
  then show ?thesis using ne by (simp add: fun_upd_twist)
qed

text \<open>The operations in a well-formed program: none of them faults.\<close>

lemma Destroy_ok:
  assumes inv: "fn_inv F m" and f: "F a = Some f"
  shows "\<exists>f' m'. InlineFunction_Destroy a (f, m) = Inr (f', m') \<and> vtable f' = None \<and>
           fn_inv (F(a \<mapsto> f')) m' \<and> fn_heap m' \<subseteq> fn_heap m"
proof (cases "vtable f")
  case None
  then show ?thesis using inv f by (simp add: InlineFunction_Destroy_def fun_upd_idem)
next
  case (Some c)
  let ?p = "ObjPtr a f" and ?f = "f\<lparr>vtable := None, is_heap := False\<rparr>"
  let ?m = "m\<lparr>objs := (objs m)(?p := None), fn_heap := fn_heap m - (if is_heap f then {?p} else {})\<rparr>"
  have V: "views_ok (view F) m" and v: "view F a = Some (?p, c, is_heap f)"
    using inv view_at [of F] f by (simp_all add: fn_inv_def view_of_Some [OF Some])
  have "objs m ?p = Some c" "is_heap f \<longrightarrow> ?p \<in> fn_heap m" using views_okD(1,2) [OF V v] by simp_all
  then have "InlineFunction_Destroy a (f, m) = Inr (?f, ?m)"
    using Some by (simp add: InlineFunction_Destroy_def vt_destroy_def fn_delete_def)
  moreover have "fn_inv (F(a \<mapsto> ?f)) ?m"
    using views_drop [OF V v] inv f unfolding fn_inv_def by auto
  ultimately show ?thesis by auto
qed

lemma take_over_ok:
  assumes inv: "fn_inv F m" and f: "F a = Some f" "vtable f = None" and g: "F b = Some g" and ne: "a \<noteq> b"
  shows "\<exists>f' g' m'. take_over a b f g m = Inr (f', g', m') \<and> fn_inv (F(a \<mapsto> f', b \<mapsto> g')) m' \<and>
           vtable f' = vtable g \<and> vtable g' = None"
proof -
  let ?g = "g\<lparr>vtable := None, is_heap := False\<rparr>"
  have V: "views_ok (view F) m" and H: "fn_heap m \<inter> dom F = {}" using inv by (simp_all add: fn_inv_def)
  have va: "view F a = None" using view_at [of F] f(1) f(2) by simp
  consider "vtable g = None" | c where "vtable g = Some c" "is_heap g" | c where "vtable g = Some c" "\<not> is_heap g"
    by fastforce
  then show ?thesis
  proof cases
    case 1
    then have "view F b = None" using view_at [of F] g by simp
    then have "(view F)(a := None, b := None) = view F" using va by (simp add: fun_upd_idem)
    then show ?thesis using 1 V H f g by (auto simp: take_over_def fn_inv_def)
  next
    case (2 c)
    have vb: "view F b = Some (stored_ptr g, c, True)"
      using view_at [of F] g 2 by (simp add: view_of_Some ObjPtr_def)
    let ?f = "f\<lparr>vtable := Some c, is_heap := True, stored_ptr := stored_ptr g\<rparr>"
    have "fn_inv (F(a \<mapsto> ?f, b \<mapsto> ?g)) m"
      using views_rename [OF V va vb] H f(1) g by (auto simp: fn_inv_def view_of_Some ObjPtr_def)
    then show ?thesis using 2 by (simp add: take_over_def)
  next
    case (3 c)
    have vb: "view F b = Some (b, c, False)"
      using view_at [of F] g 3 by (simp add: view_of_Some ObjPtr_def)
    have ob: "objs m b = Some c" using views_okD(1) [OF V vb] .
    let ?f = "f\<lparr>vtable := Some c, is_heap := False\<rparr>"
    let ?m = "m\<lparr>objs := (objs m)(a \<mapsto> c, b := None)\<rparr>"
    have oa: "objs m a = None"
    proof (rule ccontr)
      assume "objs m a \<noteq> None"
      then obtain d e k where e: "view F e = Some (a, d, k)" using V unfolding views_ok_def by blast
      then have "e \<noteq> a" using va by auto
      then have k: k using e unfolding view_def view_of_def ObjPtr_def by (auto split: option.splits if_splits)
      then have "a \<in> fn_heap m" using views_okD(2) [OF V e] by simp
      then show False using H f(1) by blast
    qed
    have d: "views_ok ((view F)(b := None)) (m\<lparr>objs := (objs m)(b := None)\<rparr>)"
      using views_drop [OF V vb] by simp
    have "views_ok ((view F)(b := None, a \<mapsto> (a, c, False))) ?m"
      using views_add [OF d, of a a c False] va oa ne by (simp add: fun_upd_twist)
    then have "fn_inv (F(a \<mapsto> ?f, b \<mapsto> ?g)) ?m"
      using ne H f(1) g by (auto simp: fn_inv_def view_of_Some ObjPtr_def fun_upd_twist)
    moreover have "take_over a b f g m = Inr (?f, ?g, ?m)"
      using 3 ob ne by (simp add: take_over_def vt_move_construct_def vt_destroy_def)
    ultimately show ?thesis using 3 by auto
  qed
qed

lemma fn_inv_add_empty:
  assumes "fn_inv F m" and "F a = None" and "a \<notin> fn_heap m" and "vtable f = None"
  shows "fn_inv (F(a \<mapsto> f)) m"
proof -
  have "view F a = None" using assms(2) by (simp add: view_at)
  then have "(view F)(a := None) = view F" by (simp add: fun_upd_idem)
  then show ?thesis using assms by (simp add: fn_inv_def)
qed

lemma empty_vtable [simp]: "vtable InlineFunction_empty = None"
  by (simp add: InlineFunction_empty_def)

lemma fn_inv_drop_empty:
  assumes "fn_inv F m" and "F a = Some f" and "vtable f = None"
  shows "fn_inv (F(a := None)) m"
proof -
  have "view F a = None" using assms(2,3) by (simp add: view_at)
  then have "(view F)(a := None) = view F" by (simp add: fun_upd_idem)
  then show ?thesis using assms(1) by (auto simp: fn_inv_def)
qed

lemma Construct_ok:
  assumes inv: "fn_inv F m" and a: "F a = Some InlineFunction_empty" and p: "F p = None" "p \<notin> fn_heap m"
    and c: "InlineFunction_Construct InlineSize p a c (InlineFunction_empty, m) = (f, m')"
  shows "fn_inv (F(a \<mapsto> f)) m' \<and> vtable f = Some c"
proof -
  have V: "views_ok (view F) m" and H: "fn_heap m \<inter> dom F = {}" using inv by (simp_all add: fn_inv_def)
  have va: "view F a = None" using a by (simp add: view_at InlineFunction_empty_def)
  have free: "objs m q = None" if "q \<notin> fn_heap m" and "view F q = None" for q
  proof (rule ccontr)
    assume "objs m q \<noteq> None"
    then obtain d e k where e: "view F e = Some (q, d, k)" using views_okD(3) [OF V] by blast
    then have "e \<noteq> q" using that(2) by auto
    then have k using e unfolding view_def view_of_def ObjPtr_def by (auto split: option.splits if_splits)
    then show False using views_okD(2) [OF V e] that(1) by simp
  qed
  have aH: "a \<notin> fn_heap m" using H a by blast
  have oa: "objs m a = None" and op: "objs m p = None"
    using free [OF aH va] free [OF p(2)] p(1) by (simp_all add: view_at)
  show ?thesis
  proof (cases "c_size c \<le> kStorageSize InlineSize \<and> c_align c \<le> kStorageAlign")
    case True
    then show ?thesis
      using c views_add [OF V va oa, of c False] H a
      by (auto simp: InlineFunction_Construct_def InlineFunction_empty_def fn_inv_def view_of_Some ObjPtr_def)
  next
    case False
    then show ?thesis
      using c views_add [OF V va op, of c True] H a p(1)
      by (auto simp: InlineFunction_Construct_def InlineFunction_empty_def fn_inv_def view_of_Some ObjPtr_def
          disjoint_iff domIff)
  qed
qed

lemma fn_step_inv:
  assumes "fn_step s s'" and "fn_inv (fst s) (snd s)"
  shows "fn_inv (fst s') (snd s')"
  using assms
proof (induction rule: fn_step.induct)
  case (empty F a m)
  from fn_inv_add_empty [of F m a, OF _ empty.hyps empty_vtable] empty.prems show ?case by (simp add: fun_upd_def)
next
  case (construct F a m p InlineSize c f m')
  have "fn_inv (F(a \<mapsto> InlineFunction_empty)) m"
    using fn_inv_add_empty [of F m a, OF _ construct.hyps(1,2) empty_vtable] construct.prems by simp
  from Construct_ok [OF this _ _ _ construct.hyps(6)] construct.hyps(3-5)
  have "fn_inv (F(a \<mapsto> f)) m'" by simp
  then show ?case by (simp only: fst_conv snd_conv)
next
  case (move_construct F a m b g f g' m')
  have "fn_inv (F(a \<mapsto> InlineFunction_empty)) m"
    using fn_inv_add_empty [of F m a, OF _ move_construct.hyps(1,2) empty_vtable] move_construct.prems by simp
  from take_over_ok [OF this, of a InlineFunction_empty b g] move_construct.hyps
  have "fn_inv (F(a \<mapsto> f, b \<mapsto> g')) m'"
    by (cases "a = b") (auto simp: InlineFunction_move_construct_def)
  then show ?case by (simp only: fst_conv snd_conv)
next
  case (move_assign F a f b g m f' g' m')
  obtain f1 m1 where d: "InlineFunction_Destroy a (f, m) = Inr (f1, m1)" "vtable f1 = None"
      "fn_inv (F(a \<mapsto> f1)) m1" using Destroy_ok [of F m a f] move_assign by auto
  from take_over_ok [OF d(3) _ d(2), of a b g] move_assign.hyps d(1)
  have "fn_inv (F(a \<mapsto> f', b \<mapsto> g')) m'" by (auto simp: InlineFunction_move_assign_def)
  then show ?case by (simp only: fst_conv snd_conv)
next
  case (destroy F a f m f' m')
  obtain f1 m1 where d: "InlineFunction_Destroy a (f, m) = Inr (f1, m1)" "vtable f1 = None"
      "fn_inv (F(a \<mapsto> f1)) m1" using Destroy_ok [of F m a f] destroy by auto
  from fn_inv_drop_empty [OF d(3), of a f1] d(1,2) destroy.hyps
  have "fn_inv (F(a := None)) m'" by simp
  then show ?case by (simp only: fst_conv snd_conv)
qed

lemma fn_reach_inv: "fn_reach s \<Longrightarrow> fn_inv (fst s) (snd s)"
proof (induction rule: fn_reach.induct)
  case init
  show ?case by (simp add: fn_inv_def views_ok_def view_def view_of_def)
next
  case (step s s')
  from fn_step_inv [OF step.hyps(2) step.IH] show ?case .
qed

section \<open>Properties\<close>

text \<open>
  C16: In every reachable program no operation on functions faults: destruction finds its
  callable and its heap block, a move between two functions succeeds and carries the callable
  over, and a call runs exactly the code the function was made from; only a call of an empty
  function goes through a null vtable.
\<close>

theorem function_ops_safe:
  assumes "fn_reach (F, m)" and "F a = Some f" and "F b = Some g" and "a \<noteq> b"
  shows "(\<exists>f' m'. InlineFunction_Destroy a (f, m) = Inr (f', m') \<and> vtable f' = None) \<and>
    (\<exists>f' g' m'. InlineFunction_move_assign a b f g m = Inr (f', g', m') \<and>
       (\<forall>x. InlineFunction_invoke code a f' x m' = InlineFunction_invoke code b g x m)) \<and>
    (\<forall>x. InlineFunction_invoke code b g x m =
       (case vtable g of None \<Rightarrow> Inl NullCall | Some c \<Rightarrow> Inr (code (c_fun c) x)))"
proof -
  have inv: "fn_inv F m" using fn_reach_inv [OF assms(1)] by simp
  have call: "InlineFunction_invoke code e h x k =
      (case vtable h of None \<Rightarrow> Inl NullCall | Some c \<Rightarrow> Inr (code (c_fun c) x))"
    if "fn_inv G k" "G e = Some h" for G k e h x
  proof (cases "vtable h")
    case (Some c)
    then have "view G e = Some (ObjPtr e h, c, is_heap h)" using that(2) by (simp add: view_at view_of_Some)
    then show ?thesis
      using views_okD(1) that(1) Some unfolding fn_inv_def InlineFunction_invoke_def by fastforce
  qed (simp add: InlineFunction_invoke_def)
  obtain f1 m1 where d: "InlineFunction_Destroy a (f, m) = Inr (f1, m1)" "vtable f1 = None"
      "fn_inv (F(a \<mapsto> f1)) m1" using Destroy_ok [OF inv assms(2)] by auto
  obtain f2 g2 m2 where t: "take_over a b f1 g m1 = Inr (f2, g2, m2)" "vtable f2 = vtable g"
      "fn_inv (F(a \<mapsto> f2, b \<mapsto> g2)) m2"
    using take_over_ok [OF d(3) _ d(2), of a b g] assms(3,4) by auto
  have "InlineFunction_move_assign a b f g m = Inr (f2, g2, m2)"
    using d(1) t(1) assms(4) by (simp add: InlineFunction_move_assign_def)
  moreover have "InlineFunction_invoke code a f2 x m2 = InlineFunction_invoke code b g x m" for x
    using call [OF t(3), of a f2 x] call [OF inv assms(3), of x] t(2) assms(4) by simp
  ultimately show ?thesis using d(1,2) call [OF inv assms(3)] by blast
qed

text \<open>For the examples: a small and a large callable.\<close>

definition small_fn :: callable where "small_fn = \<lparr>c_size = 8, c_align = 8, c_fun = 1\<rparr>"
definition large_fn :: callable where "large_fn = \<lparr>c_size = 128, c_align = 8, c_fun = 2\<rparr>"

definition two_fns :: "fns \<times> fn_mem" where
  "two_fns = ([10 \<mapsto> \<lparr>stored_ptr = 0, vtable = Some small_fn, is_heap = False\<rparr>,
               20 \<mapsto> \<lparr>stored_ptr = 1000, vtable = Some large_fn, is_heap = True\<rparr>],
              \<lparr>objs = [10 \<mapsto> small_fn, 1000 \<mapsto> large_fn], fn_heap = {1000}\<rparr>)"

lemma two_fns_reach: "fn_reach two_fns"
proof -
  have 1: "fn_step (Map.empty, \<lparr>objs = Map.empty, fn_heap = {}\<rparr>)
      ([10 \<mapsto> \<lparr>stored_ptr = 0, vtable = Some small_fn, is_heap = False\<rparr>], \<lparr>objs = [10 \<mapsto> small_fn], fn_heap = {}\<rparr>)"
    by (rule fn_step.construct [where InlineSize = kInlineFunctionSboSize and p = 900 and c = small_fn]) (simp_all add: InlineFunction_Construct_def small_fn_def
        kStorageSize_def kStorageAlign_def size_consts InlineFunction_empty_def)
  have 2: "fn_step ([10 \<mapsto> \<lparr>stored_ptr = 0, vtable = Some small_fn, is_heap = False\<rparr>], \<lparr>objs = [10 \<mapsto> small_fn], fn_heap = {}\<rparr>)
      two_fns" unfolding two_fns_def
    by (rule fn_step.construct [where InlineSize = kInlineFunctionSboSize and p = 1000 and c = large_fn]) (simp_all add: InlineFunction_Construct_def
        large_fn_def kStorageSize_def kStorageAlign_def size_consts InlineFunction_empty_def)
  show ?thesis by (rule fn_reach.step [OF fn_reach.step [OF fn_reach.init 1] 2])
qed

theorem function_ops_safe_witness:
  "\<exists>f' g' m'. InlineFunction_move_assign 10 20
     \<lparr>stored_ptr = 0, vtable = Some small_fn, is_heap = False\<rparr>
     \<lparr>stored_ptr = 1000, vtable = Some large_fn, is_heap = True\<rparr> (snd two_fns) = Inr (f', g', m') \<and>
     InlineFunction_invoke (\<lambda>n x. n + x) 10 f' (5 :: nat) m' = Inr 7"
proof -
  have r: "fn_reach (fst two_fns, snd two_fns)" using two_fns_reach by simp
  show ?thesis
    using function_ops_safe [OF r, of 10 _ 20 _ "\<lambda>n x. n + x"]
    by (force simp: two_fns_def large_fn_def)
qed

text \<open>
  No leak. Once every function has been destroyed, every callable that was ever
  constructed has been destroyed and every heap block freed.
\<close>

theorem function_no_leak:
  assumes "fn_reach (Map.empty, m)"
  shows "objs m = Map.empty \<and> fn_heap m = {}"
proof -
  have "views_ok Map.empty m"
    using fn_reach_inv [OF assms] by (simp add: fn_inv_def view_def view_of_def)
  then show ?thesis using views_okD(3,4) by (fastforce simp: fun_eq_iff)
qed

theorem function_no_leak_witness:
  "fn_reach (Map.empty, \<lparr>objs = Map.empty, fn_heap = {}\<rparr>) \<and> objs \<lparr>objs = Map.empty, fn_heap = {}\<rparr> = Map.empty"
  using function_no_leak [OF fn_reach.init] fn_reach.init by blast

end
