(* ===== verification/Done_State.thy ===== *)
theory Done_State
  imports Constants
begin

text \<open>
  \<^verbatim>\<open>async_io_result.hpp\<close>: the result record \<^verbatim>\<open>IOResult\<close> and the completion signal
  \<^verbatim>\<open>DoneState\<close>. Its operations are given twice: as functions on the atomic \<^verbatim>\<open>state_\<close> (what a
  call does when no other thread touches the object, with the arrival of a signal during a
  blocking wait as an argument) and as the atomic steps of one waiting thread and the
  signalling event loop thread, interleaved in every order.
\<close>

section \<open>IOResult\<close>

record IOResult =
  io_ret :: int
  event_fd :: int
  iodone :: bool
  err_msg :: string

section \<open>DoneState, one call at a time\<close>

definition kIdle :: int where "kIdle = -1"
definition kWaiting :: int where "kWaiting = 0"
definition kSignaled :: int where "kSignaled = 1"

lemmas done_consts = kIdle_def kWaiting_def kSignaled_def

lemma done_consts_distinct [simp]:
  "kIdle \<noteq> kWaiting" "kIdle \<noteq> kSignaled" "kWaiting \<noteq> kSignaled"
  "kWaiting \<noteq> kIdle" "kSignaled \<noteq> kIdle" "kSignaled \<noteq> kWaiting"
  by (simp_all add: done_consts)

text \<open>\<^verbatim>\<open>Signal\<close>: the new state, and whether \<^verbatim>\<open>cv_.notify_one()\<close> is called.\<close>

definition DoneState_Signal :: "int \<Rightarrow> int \<times> bool" where
  "DoneState_Signal st = (kSignaled, st = kWaiting)"

definition DoneState_Reset :: "int \<Rightarrow> int" where
  "DoneState_Reset st = kIdle"

definition DoneState_IsReady :: "int \<Rightarrow> bool" where
  "DoneState_IsReady st \<longleftrightarrow> st = kSignaled"

text \<open>
  \<^verbatim>\<open>Wait(timeout_ms)\<close>: \<^verbatim>\<open>arrives\<close> says whether a signal comes while the caller is blocked on
  the condition variable. The result is the returned boolean and the final state, or
  \<^verbatim>\<open>None\<close> when the call blocks forever.
\<close>

definition DoneState_Wait :: "int \<Rightarrow> bool \<Rightarrow> int \<Rightarrow> (bool \<times> int) option" where
  "DoneState_Wait timeout_ms arrives st =
     (if st = kSignaled then Some (True, st)
      else if timeout_ms = 0 then Some (st = kSignaled, st)
      else if arrives then Some (True, fst (DoneState_Signal kWaiting))
      else if timeout_ms < 0 then None
      else Some (False, kIdle))"

lemma DoneState_Wait_signaled [simp]: "DoneState_Wait t a kSignaled = Some (True, kSignaled)"
  by (simp add: DoneState_Wait_def)

section \<open>DoneState, interleaved\<close>

text \<open>
  Program points of \<^verbatim>\<open>Wait\<close>: before the first load; after it, before the test of the
  timeout; before the lock; locked, before the relaxed load; after that load, before the
  store of \<^verbatim>\<open>kWaiting\<close>; evaluating the predicate with the lock held; blocked on the condition
  variable with the lock released; woken, reacquiring the lock; the same after the timeout
  expired; timed out and not ready, before the store of \<^verbatim>\<open>kIdle\<close>; returned.
\<close>

datatype wait_pc =
    W_Load | W_Timeout | W_Lock | W_Check | W_Store | W_Pred | W_Blocked | W_Woken
  | W_Expired | W_Restore | W_Done bool

text \<open>
  Program points of \<^verbatim>\<open>Signal\<close>: before the exchange; after it, with the previous value
  \<^verbatim>\<open>kWaiting\<close>, before the lock; inside the empty critical section; before the notification;
  returned.
\<close>

datatype signal_pc = S_Exchange | S_Lock | S_Unlock | S_Notify | S_Done

datatype mutex_owner = Unlocked | ByWaiter | BySignaler

record done_sys =
  ds_state :: int
  mtx :: mutex_owner
  timeout :: int
  wpc :: wait_pc
  spc :: signal_pc

definition done_init :: "int \<Rightarrow> done_sys" where
  "done_init t = \<lparr>ds_state = kIdle, mtx = Unlocked, timeout = t, wpc = W_Load, spc = S_Exchange\<rparr>"

inductive wait_step :: "done_sys \<Rightarrow> done_sys \<Rightarrow> bool" where
  load_ready: "wpc s = W_Load \<Longrightarrow> ds_state s = kSignaled \<Longrightarrow> wait_step s (s\<lparr>wpc := W_Done True\<rparr>)"
| load_not: "wpc s = W_Load \<Longrightarrow> ds_state s \<noteq> kSignaled \<Longrightarrow> wait_step s (s\<lparr>wpc := W_Timeout\<rparr>)"
| poll: "wpc s = W_Timeout \<Longrightarrow> timeout s = 0 \<Longrightarrow>
    wait_step s (s\<lparr>wpc := W_Done (ds_state s = kSignaled)\<rparr>)"
| no_poll: "wpc s = W_Timeout \<Longrightarrow> timeout s \<noteq> 0 \<Longrightarrow> wait_step s (s\<lparr>wpc := W_Lock\<rparr>)"
| acquire: "wpc s = W_Lock \<Longrightarrow> mtx s = Unlocked \<Longrightarrow>
    wait_step s (s\<lparr>mtx := ByWaiter, wpc := W_Check\<rparr>)"
| check_ready: "wpc s = W_Check \<Longrightarrow> ds_state s = kSignaled \<Longrightarrow>
    wait_step s (s\<lparr>mtx := Unlocked, wpc := W_Done True\<rparr>)"
| check_not: "wpc s = W_Check \<Longrightarrow> ds_state s \<noteq> kSignaled \<Longrightarrow> wait_step s (s\<lparr>wpc := W_Store\<rparr>)"
| store: "wpc s = W_Store \<Longrightarrow> wait_step s (s\<lparr>ds_state := kWaiting, wpc := W_Pred\<rparr>)"
| pred_ready: "wpc s = W_Pred \<Longrightarrow> ds_state s = kSignaled \<Longrightarrow>
    wait_step s (s\<lparr>mtx := Unlocked, wpc := W_Done True\<rparr>)"
| pred_not: "wpc s = W_Pred \<Longrightarrow> ds_state s \<noteq> kSignaled \<Longrightarrow>
    wait_step s (s\<lparr>mtx := Unlocked, wpc := W_Blocked\<rparr>)"
| spurious: "wpc s = W_Blocked \<Longrightarrow> wait_step s (s\<lparr>wpc := W_Woken\<rparr>)"
| reacquire: "wpc s = W_Woken \<Longrightarrow> mtx s = Unlocked \<Longrightarrow>
    wait_step s (s\<lparr>mtx := ByWaiter, wpc := W_Pred\<rparr>)"
| expire: "wpc s = W_Blocked \<or> wpc s = W_Woken \<Longrightarrow> 0 < timeout s \<Longrightarrow>
    wait_step s (s\<lparr>wpc := W_Expired\<rparr>)"
| expired_ready: "wpc s = W_Expired \<Longrightarrow> mtx s = Unlocked \<Longrightarrow> ds_state s = kSignaled \<Longrightarrow>
    wait_step s (s\<lparr>wpc := W_Done True\<rparr>)"
| expired_not: "wpc s = W_Expired \<Longrightarrow> mtx s = Unlocked \<Longrightarrow> ds_state s \<noteq> kSignaled \<Longrightarrow>
    wait_step s (s\<lparr>mtx := ByWaiter, wpc := W_Restore\<rparr>)"
| restore: "wpc s = W_Restore \<Longrightarrow>
    wait_step s (s\<lparr>ds_state := kIdle, mtx := Unlocked, wpc := W_Done False\<rparr>)"

inductive signal_step :: "done_sys \<Rightarrow> done_sys \<Rightarrow> bool" where
  exchange_waiting: "spc s = S_Exchange \<Longrightarrow> ds_state s = kWaiting \<Longrightarrow>
    signal_step s (s\<lparr>ds_state := kSignaled, spc := S_Lock\<rparr>)"
| exchange_other: "spc s = S_Exchange \<Longrightarrow> ds_state s \<noteq> kWaiting \<Longrightarrow>
    signal_step s (s\<lparr>ds_state := kSignaled, spc := S_Done\<rparr>)"
| lock: "spc s = S_Lock \<Longrightarrow> mtx s = Unlocked \<Longrightarrow>
    signal_step s (s\<lparr>mtx := BySignaler, spc := S_Unlock\<rparr>)"
| unlock: "spc s = S_Unlock \<Longrightarrow> signal_step s (s\<lparr>mtx := Unlocked, spc := S_Notify\<rparr>)"
| notify: "spc s = S_Notify \<Longrightarrow>
    signal_step s (s\<lparr>spc := S_Done, wpc := (if wpc s = W_Blocked then W_Woken else wpc s)\<rparr>)"

inductive_cases wait_stepE: "wait_step s t"
inductive_cases signal_stepE: "signal_step s t"

definition done_step :: "done_sys \<Rightarrow> done_sys \<Rightarrow> bool" where
  "done_step s t \<longleftrightarrow> wait_step s t \<or> signal_step s t"

inductive done_reach :: "int \<Rightarrow> done_sys \<Rightarrow> bool" for t :: int where
  init: "done_reach t (done_init t)"
| step: "done_reach t s \<Longrightarrow> done_step s s' \<Longrightarrow> done_reach t s'"

lemmas done_steps = wait_step.intros signal_step.intros

subsection \<open>Invariants\<close>

text \<open>
  What the two threads keep true together. The conjuncts say who owns the mutex at which
  program point, that only \<^verbatim>\<open>Signal\<close> stores \<^verbatim>\<open>kSignaled\<close>, that \<^verbatim>\<open>kWaiting\<close> is only stored past
  the check, and that a waiter blocked under a signalled state is one that \<^verbatim>\<open>Signal\<close> is still
  going to notify.
\<close>

definition waiter_holds :: "wait_pc \<Rightarrow> bool" where
  "waiter_holds p \<longleftrightarrow> p \<in> {W_Check, W_Store, W_Pred, W_Restore}"

definition past_store :: "wait_pc \<Rightarrow> bool" where
  "past_store p \<longleftrightarrow> p \<in> {W_Pred, W_Blocked, W_Woken, W_Expired, W_Restore}"

lemma pc_simps [simp]:
  "waiter_holds W_Check" "waiter_holds W_Store" "waiter_holds W_Pred" "waiter_holds W_Restore"
  "\<not> waiter_holds W_Load" "\<not> waiter_holds W_Timeout" "\<not> waiter_holds W_Lock"
  "\<not> waiter_holds W_Blocked" "\<not> waiter_holds W_Woken" "\<not> waiter_holds W_Expired"
  "\<not> waiter_holds (W_Done b)"
  "past_store W_Pred" "past_store W_Blocked" "past_store W_Woken" "past_store W_Expired"
  "past_store W_Restore" "\<not> past_store W_Load" "\<not> past_store W_Timeout"
  "\<not> past_store W_Lock" "\<not> past_store W_Check" "\<not> past_store W_Store"
  "\<not> past_store (W_Done b)"
  by (simp_all add: waiter_holds_def past_store_def)

definition done_inv :: "done_sys \<Rightarrow> bool" where
  "done_inv s \<longleftrightarrow>
     (mtx s = ByWaiter \<longleftrightarrow> waiter_holds (wpc s)) \<and>
     (mtx s = BySignaler \<longleftrightarrow> spc s = S_Unlock) \<and>
     (ds_state s = kSignaled \<longrightarrow> spc s \<noteq> S_Exchange) \<and>
     (wpc s = W_Done True \<longrightarrow> spc s \<noteq> S_Exchange) \<and>
     (past_store (wpc s) \<and> spc s = S_Exchange \<longrightarrow> ds_state s = kWaiting) \<and>
     (ds_state s = kSignaled \<and> wpc s = W_Blocked \<longrightarrow> spc s \<in> {S_Lock, S_Unlock, S_Notify})"

lemma done_inv_wait: "wait_step s t \<Longrightarrow> done_inv s \<Longrightarrow> done_inv t"
  by (erule wait_stepE; unfold done_inv_def; simp; auto)

lemma done_inv_signal: "signal_step s t \<Longrightarrow> done_inv s \<Longrightarrow> done_inv t"
  by (erule signal_stepE; unfold done_inv_def; simp; auto)

lemma done_reach_inv: "done_reach t s \<Longrightarrow> done_inv s"
proof (induction rule: done_reach.induct)
  case init
  show ?case by (simp add: done_inv_def done_init_def)
next
  case (step s s')
  then show ?case by (auto simp: done_step_def intro: done_inv_wait done_inv_signal)
qed


text \<open>
  C25: soundness of \<^verbatim>\<open>DoneState::Wait\<close> under every interleaving with \<^verbatim>\<open>Signal\<close>. A wait that
  returned true returned after the exchange of a \<^verbatim>\<open>Signal\<close>, never by a spurious wake-up of
  the condition variable; and a waiter that is blocked while the state is signalled has not
  missed its notification: \<^verbatim>\<open>Signal\<close> has not returned yet.
\<close>

theorem wait_never_spurious:
  assumes "done_reach t s"
  shows "(wpc s = W_Done True \<longrightarrow> spc s \<noteq> S_Exchange) \<and>
         (wpc s = W_Blocked \<and> ds_state s = kSignaled \<longrightarrow> spc s \<noteq> S_Done)"
  using done_reach_inv [OF assms] by (auto simp: done_inv_def)

text \<open>The states after a \<^verbatim>\<open>Signal\<close> that came before the wait, and after that wait.\<close>

lemma done_reach_signaled_first:
  "done_reach t (done_init t\<lparr>ds_state := kSignaled, spc := S_Done\<rparr>)"
  by (rule done_reach.step [OF done_reach.init])
    (simp add: done_step_def, rule disjI2, rule exchange_other, simp_all add: done_init_def)

lemma done_reach_signaled_wait:
  "done_reach t (done_init t\<lparr>ds_state := kSignaled, spc := S_Done, wpc := W_Done True\<rparr>)"
  by (rule done_reach.step [OF done_reach_signaled_first])
    (use load_ready [of "done_init t\<lparr>ds_state := kSignaled, spc := S_Done\<rparr>"] in
      \<open>simp add: done_step_def done_init_def\<close>)

theorem wait_never_spurious_witness:
  "spc (done_init 5\<lparr>ds_state := kSignaled, spc := S_Done, wpc := W_Done True\<rparr>) \<noteq> S_Exchange"
  using wait_never_spurious [OF done_reach_signaled_wait [of 5]] by simp

subsection \<open>A signal outside the store windows is delivered\<close>

text \<open>
  The state is signalled, and the waiter is not between a check of \<^verbatim>\<open>Wait\<close> and its following store
  (\<^verbatim>\<open>W_Store\<close>, \<^verbatim>\<open>W_Restore\<close>). \<^verbatim>\<open>Signal\<close> may have returned or still be about to notify.
\<close>

definition delivered :: "done_sys \<Rightarrow> bool" where
  "delivered s \<longleftrightarrow> done_inv s \<and> ds_state s = kSignaled \<and> wpc s \<notin> {W_Store, W_Restore, W_Done False}"

lemma delivered_step: "delivered s \<Longrightarrow> done_step s t \<Longrightarrow> delivered t"
  unfolding delivered_def done_step_def
  apply (intro conjI)
    apply (blast intro: done_inv_wait done_inv_signal)
  by (auto elim!: wait_stepE signal_stepE split: if_splits)

lemma delivered_steps: "done_step\<^sup>*\<^sup>* s t \<Longrightarrow> delivered s \<Longrightarrow> delivered t"
  by (induction rule: rtranclp_induct) (auto intro: delivered_step)

text \<open>A bound on the steps that both threads together can still make in a delivered state.\<close>

fun wait_distance :: "wait_pc \<Rightarrow> nat" where
  "wait_distance (W_Done b) = 0"
| "wait_distance W_Load = 1"
| "wait_distance W_Pred = 1"
| "wait_distance W_Check = 1"
| "wait_distance W_Expired = 1"
| "wait_distance W_Lock = 2"
| "wait_distance W_Woken = 2"
| "wait_distance W_Blocked = 3"
| "wait_distance W_Timeout = 3"
| "wait_distance W_Store = 2"
| "wait_distance W_Restore = 1"

fun signal_distance :: "signal_pc \<Rightarrow> nat" where
  "signal_distance S_Exchange = 4"
| "signal_distance S_Lock = 3"
| "signal_distance S_Unlock = 2"
| "signal_distance S_Notify = 1"
| "signal_distance S_Done = 0"

definition remaining :: "done_sys \<Rightarrow> nat" where
  "remaining s = wait_distance (wpc s) + signal_distance (spc s)"

lemma remaining_wait: "ds_state s = kSignaled \<Longrightarrow> wpc s \<notin> {W_Store, W_Restore} \<Longrightarrow>
  wait_step s t \<Longrightarrow> remaining t < remaining s"
  by (erule wait_stepE) (auto simp: remaining_def)

lemma remaining_signal: "signal_step s t \<Longrightarrow> remaining t < remaining s"
  by (erule signal_stepE) (simp_all add: remaining_def)

lemma delivered_decreases: "delivered s \<Longrightarrow> done_step s t \<Longrightarrow> remaining t < remaining s"
  using remaining_wait remaining_signal by (simp add: delivered_def done_step_def) blast

text \<open>Nobody has to rely on a spurious wake-up: a waiter that is blocked is waited on by a signaller that can move.\<close>

lemma delivered_progress:
  assumes "delivered s" and "wpc s \<noteq> W_Done True"
  shows "\<exists>t. signal_step s t \<or> wait_step s t \<and> wpc s \<noteq> W_Blocked"
proof (cases "spc s \<in> {S_Lock, S_Unlock, S_Notify} \<and> (spc s = S_Lock \<longrightarrow> mtx s = Unlocked)")
  case True
  then consider "spc s = S_Lock" "mtx s = Unlocked" | "spc s = S_Unlock" | "spc s = S_Notify" by blast
  then have "\<exists>t. signal_step s t"
  proof cases
    case 1
    show ?thesis by (rule exI, rule lock [OF 1])
  next
    case 2
    show ?thesis by (rule exI, rule unlock [OF 2])
  next
    case 3
    show ?thesis by (rule exI, rule notify [OF 3])
  qed
  then show ?thesis by blast
next
  case False
  have inv: "done_inv s" and sig: "ds_state s = kSignaled" using assms(1) by (simp_all add: delivered_def)
  have wh: "mtx s = ByWaiter \<Longrightarrow> waiter_holds (wpc s)" and sh: "mtx s = BySignaler \<Longrightarrow> spc s = S_Unlock"
    and bl: "wpc s = W_Blocked \<Longrightarrow> spc s \<in> {S_Lock, S_Unlock, S_Notify}"
    using inv sig unfolding done_inv_def by blast+
  have m: "waiter_holds (wpc s) \<or> mtx s = Unlocked"
    using wh sh False by (cases "mtx s") (blast, blast, simp)
  have b: "wpc s \<noteq> W_Blocked"
  proof
    assume w: "wpc s = W_Blocked"
    then have "mtx s = Unlocked" using m by simp
    then show False using False bl [OF w] by blast
  qed
  have "\<exists>t. wait_step s t"
  proof (cases "wpc s")
    case W_Load
    show ?thesis by (rule exI, rule load_ready [OF W_Load sig])
  next
    case W_Timeout
    show ?thesis
    proof (cases "timeout s = 0")
      case True
      show ?thesis by (rule exI, rule poll [OF W_Timeout True])
    next
      case False
      show ?thesis by (rule exI, rule no_poll [OF W_Timeout False])
    qed
  next
    case W_Lock
    then have "mtx s = Unlocked" using m by simp
    show ?thesis by (rule exI, rule acquire [OF W_Lock \<open>mtx s = Unlocked\<close>])
  next
    case W_Check
    show ?thesis by (rule exI, rule check_ready [OF W_Check sig])
  next
    case W_Pred
    show ?thesis by (rule exI, rule pred_ready [OF W_Pred sig])
  next
    case W_Woken
    then have "mtx s = Unlocked" using m by simp
    show ?thesis by (rule exI, rule reacquire [OF W_Woken \<open>mtx s = Unlocked\<close>])
  next
    case W_Expired
    then have "mtx s = Unlocked" using m by simp
    show ?thesis by (rule exI, rule expired_ready [OF W_Expired \<open>mtx s = Unlocked\<close> sig])
  next
    case (W_Done r)
    then show ?thesis using assms by (cases r) (simp_all add: delivered_def)
  qed (use assms b in \<open>simp_all add: delivered_def\<close>)
  then show ?thesis using b by blast
qed

text \<open>
  C26: a signal is delivered. Take any reachable state in which the state is \<^verbatim>\<open>kSignaled\<close> and the
  waiter is not inside one of its two check-then-store windows. However the two threads go on,
  the wait does not return false; as long as it has not returned true there is a step that is
  not a spurious wake-up (a blocked waiter has a signaller that is still going to notify it); and
  every step brings both threads nearer to their end. So the wait returns true on every run.
\<close>

theorem signal_delivered:
  assumes "done_reach t s" and "ds_state s = kSignaled"
    and "wpc s \<noteq> W_Store" and "wpc s \<noteq> W_Restore" and "wpc s \<noteq> W_Done False"
  shows "\<forall>s'. done_step\<^sup>*\<^sup>* s s' \<longrightarrow> wpc s' \<noteq> W_Done False \<and>
    (wpc s' = W_Done True \<or> (\<exists>s''. signal_step s' s'' \<or> wait_step s' s'' \<and> wpc s' \<noteq> W_Blocked)) \<and>
    (\<forall>s''. done_step s' s'' \<longrightarrow> remaining s'' < remaining s')"
proof (intro allI impI)
  fix s'
  assume "done_step\<^sup>*\<^sup>* s s'"
  then have d: "delivered s'"
    using delivered_steps assms done_reach_inv [OF assms(1)] by (simp add: delivered_def)
  then show "wpc s' \<noteq> W_Done False \<and>
    (wpc s' = W_Done True \<or> (\<exists>s''. signal_step s' s'' \<or> wait_step s' s'' \<and> wpc s' \<noteq> W_Blocked)) \<and>
    (\<forall>s''. done_step s' s'' \<longrightarrow> remaining s'' < remaining s')"
    using delivered_progress [OF d] delivered_decreases [OF d] by (auto simp: delivered_def)
qed

text \<open>A waiter that is blocked when the signal comes: the notification is the only step but a spurious wake-up.\<close>

definition notifying_state :: done_sys where
  "notifying_state = \<lparr>ds_state = kSignaled, mtx = Unlocked, timeout = -1, wpc = W_Blocked, spc = S_Lock\<rparr>"

lemma notifying_state_reachable: "done_reach (-1) notifying_state"
proof -
  let ?s = "\<lambda>st m w p. \<lparr>ds_state = st, mtx = m, timeout = -1, wpc = w, spc = p\<rparr>"
  have "done_reach (-1) (?s kIdle Unlocked W_Load S_Exchange)"
    using done_reach.init [of "-1"] by (simp add: done_init_def)
  then have "done_reach (-1) (?s kIdle Unlocked W_Timeout S_Exchange)"
    by (rule done_reach.step) (use load_not [of "?s kIdle Unlocked W_Load S_Exchange"] in \<open>simp add: done_step_def\<close>)
  then have "done_reach (-1) (?s kIdle Unlocked W_Lock S_Exchange)"
    by (rule done_reach.step) (use no_poll [of "?s kIdle Unlocked W_Timeout S_Exchange"] in \<open>simp add: done_step_def\<close>)
  then have "done_reach (-1) (?s kIdle ByWaiter W_Check S_Exchange)"
    by (rule done_reach.step) (use acquire [of "?s kIdle Unlocked W_Lock S_Exchange"] in \<open>simp add: done_step_def\<close>)
  then have "done_reach (-1) (?s kIdle ByWaiter W_Store S_Exchange)"
    by (rule done_reach.step) (use check_not [of "?s kIdle ByWaiter W_Check S_Exchange"] in \<open>simp add: done_step_def\<close>)
  then have "done_reach (-1) (?s kWaiting ByWaiter W_Pred S_Exchange)"
    by (rule done_reach.step) (use store [of "?s kIdle ByWaiter W_Store S_Exchange"] in \<open>simp add: done_step_def\<close>)
  then have "done_reach (-1) (?s kWaiting Unlocked W_Blocked S_Exchange)"
    by (rule done_reach.step) (use pred_not [of "?s kWaiting ByWaiter W_Pred S_Exchange"] in \<open>simp add: done_step_def\<close>)
  then have "done_reach (-1) (?s kSignaled Unlocked W_Blocked S_Lock)"
    by (rule done_reach.step) (use exchange_waiting [of "?s kWaiting Unlocked W_Blocked S_Exchange"] in \<open>simp add: done_step_def\<close>)
  then show ?thesis by (simp add: notifying_state_def)
qed

theorem signal_delivered_witness:
  "\<exists>s''. signal_step notifying_state s'' \<and> wpc s'' \<noteq> W_Done False \<and> remaining s'' < 6"
proof -
  have "ds_state notifying_state = kSignaled" "wpc notifying_state = W_Blocked" "remaining notifying_state = 6"
    by (simp_all add: notifying_state_def remaining_def)
  then obtain s'' where step: "signal_step notifying_state s''" and "remaining s'' < 6"
    using signal_delivered [OF notifying_state_reachable, THEN spec, of notifying_state]
    by (auto simp: done_step_def)
  moreover have "wpc s'' \<noteq> W_Done False"
    using step by (auto simp: notifying_state_def elim!: signal_stepE)
  ultimately show ?thesis by blast
qed

subsection \<open>A signal inside the store window is lost\<close>

text \<open>The waiter sleeps, \<^verbatim>\<open>Signal\<close> is over, and its store of \<^verbatim>\<open>kSignaled\<close> was overwritten.\<close>

definition stranded :: "done_sys \<Rightarrow> bool" where
  "stranded s \<longleftrightarrow> spc s = S_Done \<and> ds_state s = kWaiting \<and> timeout s < 0 \<and>
     wpc s \<in> {W_Blocked, W_Woken, W_Pred}"

lemma stranded_step: "stranded s \<Longrightarrow> done_step s t \<Longrightarrow> stranded t"
  unfolding stranded_def done_step_def by (auto elim!: wait_stepE signal_stepE)

lemma stranded_steps: "done_step\<^sup>*\<^sup>* s t \<Longrightarrow> stranded s \<Longrightarrow> stranded t"
  by (induction rule: rtranclp_induct) (auto intro: stranded_step)

definition lost_state :: done_sys where
  "lost_state = \<lparr>ds_state = kWaiting, mtx = Unlocked, timeout = -1, wpc = W_Blocked, spc = S_Done\<rparr>"

lemma lost_state_reachable: "done_reach (-1) lost_state"
proof -
  let ?s = "\<lambda>st m w p. \<lparr>ds_state = st, mtx = m, timeout = -1, wpc = w, spc = p\<rparr>"
  have "done_reach (-1) (?s kIdle Unlocked W_Load S_Exchange)"
    using done_reach.init [of "-1"] by (simp add: done_init_def)
  then have "done_reach (-1) (?s kIdle Unlocked W_Timeout S_Exchange)"
    by (rule done_reach.step) (use load_not [of "?s kIdle Unlocked W_Load S_Exchange"] in
      \<open>simp add: done_step_def\<close>)
  then have "done_reach (-1) (?s kIdle Unlocked W_Lock S_Exchange)"
    by (rule done_reach.step) (use no_poll [of "?s kIdle Unlocked W_Timeout S_Exchange"] in
      \<open>simp add: done_step_def\<close>)
  then have "done_reach (-1) (?s kIdle ByWaiter W_Check S_Exchange)"
    by (rule done_reach.step) (use acquire [of "?s kIdle Unlocked W_Lock S_Exchange"] in
      \<open>simp add: done_step_def\<close>)
  then have "done_reach (-1) (?s kIdle ByWaiter W_Store S_Exchange)"
    by (rule done_reach.step) (use check_not [of "?s kIdle ByWaiter W_Check S_Exchange"] in
      \<open>simp add: done_step_def\<close>)
  then have "done_reach (-1) (?s kSignaled ByWaiter W_Store S_Done)"
    by (rule done_reach.step) (use exchange_other [of "?s kIdle ByWaiter W_Store S_Exchange"] in
      \<open>simp add: done_step_def\<close>)
  then have "done_reach (-1) (?s kWaiting ByWaiter W_Pred S_Done)"
    by (rule done_reach.step) (use store [of "?s kSignaled ByWaiter W_Store S_Done"] in
      \<open>simp add: done_step_def\<close>)
  then have "done_reach (-1) (?s kWaiting Unlocked W_Blocked S_Done)"
    by (rule done_reach.step) (use pred_not [of "?s kWaiting ByWaiter W_Pred S_Done"] in
      \<open>simp add: done_step_def\<close>)
  then show ?thesis by (simp add: lost_state_def)
qed

text \<open>
  C34: \<^verbatim>\<open>DoneState\<close> can lose a signal. When the exchange of \<^verbatim>\<open>Signal\<close> happens after the
  relaxed load of \<^verbatim>\<open>Wait\<close> and before its store of \<^verbatim>\<open>kWaiting\<close>, the store overwrites
  \<^verbatim>\<open>kSignaled\<close> and \<^verbatim>\<open>Signal\<close> has already decided not to notify: a wait without a timeout then
  never returns, although \<^verbatim>\<open>Signal\<close> has completed.
\<close>

theorem signal_can_be_lost:
  "\<exists>s. done_reach (-1) s \<and> spc s = S_Done \<and> wpc s = W_Blocked \<and>
       (\<nexists>s' b. done_step\<^sup>*\<^sup>* s s' \<and> wpc s' = W_Done b)"
proof -
  have "stranded lost_state" by (simp add: stranded_def lost_state_def)
  then have "\<nexists>s' b. done_step\<^sup>*\<^sup>* lost_state s' \<and> wpc s' = W_Done b"
    using stranded_steps by (fastforce simp: stranded_def)
  with lost_state_reachable show ?thesis
    by (intro exI [of _ lost_state]) (simp add: lost_state_def)
qed

end
