(* ===== verification/Pool_Cache.thy ===== *)
theory Pool_Cache
  imports Node_Stack
begin

text \<open>
  \<^verbatim>\<open>async_io_pool.hpp\<close>, what the two memory pools share: the fixed-size thread cache
  (\<^verbatim>\<open>ObjectPool::ThreadCache\<close>, \<^verbatim>\<open>BufferPool::ClassCache\<close>), the loop that links the flushed
  half of a cache into a chain, the search for the tail of such a chain, the loop that
  slices a fresh block into nodes, and \<^verbatim>\<open>std::aligned_alloc\<close>.
\<close>

section \<open>Thread caches\<close>

text \<open>
  \<^verbatim>\<open>slots\<close> is the C array, \<^verbatim>\<open>count\<close> the number of its first elements that are in use. The two
  cache classes differ only in the size of the array.
\<close>

record pool_cache =
  slots :: "ptr list"
  count :: nat

definition cache_init :: "nat \<Rightarrow> pool_cache" where
  "cache_init cap = \<lparr>slots = replicate cap nullptr, count = 0\<rparr>"

definition cache_Reset :: "pool_cache \<Rightarrow> pool_cache" where
  "cache_Reset c = c\<lparr>count := 0\<rparr>"

definition cache_Pop :: "pool_cache \<Rightarrow> ptr \<times> pool_cache" where
  "cache_Pop c =
     (if count c = 0 then (nullptr, c)
      else (slots c ! (count c - 1), c\<lparr>count := count c - 1\<rparr>))"

definition cache_Push :: "nat \<Rightarrow> ptr \<Rightarrow> pool_cache \<Rightarrow> bool \<times> pool_cache" where
  "cache_Push cap node c =
     (if cap \<le> count c then (False, c)
      else (True, c\<lparr>slots := (slots c)[count c := node], count := count c + 1\<rparr>))"

text \<open>
  The loop \<^verbatim>\<open>for (i = count + 1; i < count + n; i++)\<close> of \<^verbatim>\<open>FlushHalf\<close>, with the number of
  iterations left as its second argument.
\<close>

fun flush_loop :: "ptr list \<Rightarrow> nat \<Rightarrow> nat \<Rightarrow> ptr \<Rightarrow> pmem \<Rightarrow> ptr \<times> pmem" where
  "flush_loop nodes i 0 tail m = (tail, m)"
| "flush_loop nodes i (Suc k) tail m =
     flush_loop nodes (Suc i) k (nodes ! i) (store_next tail (nodes ! i) m)"

definition cache_FlushHalf :: "nat \<Rightarrow> pool_cache \<Rightarrow> pmem \<Rightarrow> ptr \<times> pool_cache \<times> pmem" where
  "cache_FlushHalf cap c m =
     (if count c \<le> cap div 4 then (nullptr, c, m)
      else let n = count c div 2;
               cnt = count c - n;
               head = slots c ! cnt;
               (tail, m') = flush_loop (slots c) (cnt + 1) (n - 1) head m
           in (head, c\<lparr>count := cnt\<rparr>, store_next tail nullptr m'))"

definition ThreadCache_Pop :: "pool_cache \<Rightarrow> ptr \<times> pool_cache" where
  "ThreadCache_Pop = cache_Pop"

definition ThreadCache_Push :: "ptr \<Rightarrow> pool_cache \<Rightarrow> bool \<times> pool_cache" where
  "ThreadCache_Push = cache_Push kObjectPoolTlsCacheSize"

definition ThreadCache_FlushHalf :: "pool_cache \<Rightarrow> pmem \<Rightarrow> ptr \<times> pool_cache \<times> pmem" where
  "ThreadCache_FlushHalf = cache_FlushHalf kObjectPoolTlsCacheSize"

definition ClassCache_Pop :: "pool_cache \<Rightarrow> ptr \<times> pool_cache" where
  "ClassCache_Pop = cache_Pop"

definition ClassCache_Push :: "ptr \<Rightarrow> pool_cache \<Rightarrow> bool \<times> pool_cache" where
  "ClassCache_Push = cache_Push kBufferPoolTlsCacheSize"

definition ClassCache_FlushHalf :: "pool_cache \<Rightarrow> pmem \<Rightarrow> ptr \<times> pool_cache \<times> pmem" where
  "ClassCache_FlushHalf = cache_FlushHalf kBufferPoolTlsCacheSize"

text \<open>
  The search \<^verbatim>\<open>while (tail->next != nullptr) tail = tail->next\<close> in \<^verbatim>\<open>ReleaseMemory\<close> and
  \<^verbatim>\<open>Deallocate\<close>, for at most as many iterations as its first argument says; \<^verbatim>\<open>None\<close> when it
  has not ended by then.
\<close>

fun find_tail :: "nat \<Rightarrow> (ptr \<Rightarrow> ptr) \<Rightarrow> ptr \<Rightarrow> ptr option" where
  "find_tail 0 h tail = None"
| "find_tail (Suc n) h tail = (if h tail \<noteq> nullptr then find_tail n h (h tail) else Some tail)"

text \<open>
  The loop of \<^verbatim>\<open>GrowPool\<close> and \<^verbatim>\<open>EnsureClassPopulated\<close> that constructs a node at
  \<^verbatim>\<open>block + i * stride\<close> and appends it to the chain; its fourth argument counts the
  iterations left.
\<close>

fun slice_loop ::
    "ptr \<Rightarrow> nat \<Rightarrow> nat \<Rightarrow> nat \<Rightarrow> ptr \<Rightarrow> ptr \<Rightarrow> pmem \<Rightarrow> ptr \<times> ptr \<times> pmem" where
  "slice_loop block stride i 0 chain_head chain_tail m = (chain_head, chain_tail, m)"
| "slice_loop block stride i (Suc k) chain_head chain_tail m =
     (let node = block + i * stride;
          m1 = store_next node nullptr m
      in if chain_head = nullptr then slice_loop block stride (Suc i) k node node m1
         else slice_loop block stride (Suc i) k chain_head node (store_next chain_tail node m1))"

text \<open>
  Two pieces of code that \<^verbatim>\<open>ObjectPool\<close> and \<^verbatim>\<open>BufferPool\<close> have in the same words: giving a node
  back (\<^verbatim>\<open>ReleaseMemory\<close> after its null check, \<^verbatim>\<open>Deallocate\<close> after its size check), and slicing a
  new block and pushing the chain on the free list (\<^verbatim>\<open>GrowPool\<close>, \<^verbatim>\<open>EnsureClassPopulated\<close>). The
  result of \<^verbatim>\<open>release_node\<close> is \<^verbatim>\<open>None\<close> when the search for the tail does not end within as many
  iterations as the cache has slots.
\<close>

definition release_node ::
    "nat \<Rightarrow> ptr \<Rightarrow> pool_cache \<Rightarrow> TreiberStack \<Rightarrow> pmem \<Rightarrow>
       (pool_cache \<times> TreiberStack \<times> pmem) option" where
  "release_node cap node c fl m =
     (let (pushed, c1) = cache_Push cap node c
      in if pushed then Some (c1, fl, m)
         else let (batch, c2, m2) = cache_FlushHalf cap c1 m
              in if batch \<noteq> nullptr
                 then (case find_tail cap (nx m2) batch of
                         None \<Rightarrow> None
                       | Some tail \<Rightarrow>
                           (let (fl3, m3) = TreiberStack_PushChain batch tail fl m2
                            in Some (snd (cache_Push cap node c2), fl3, m3)))
                 else Some (snd (cache_Push cap node c2), fl, m2))"

definition populate ::
    "ptr \<Rightarrow> nat \<Rightarrow> nat \<Rightarrow> TreiberStack \<Rightarrow> pmem \<Rightarrow> TreiberStack \<times> pmem" where
  "populate block stride n fl m =
     (let (chain_head, chain_tail, m1) = slice_loop block stride 0 n nullptr nullptr m
      in if chain_head \<noteq> nullptr
         then TreiberStack_PushChain chain_head chain_tail fl (store_next chain_tail nullptr m1)
         else (fl, m1))"

section \<open>Allocation\<close>

text \<open>
  \<^verbatim>\<open>std::aligned_alloc(alignment, size)\<close>: where the allocator places a block, given the live
  regions, is a parameter; 0 is failure. The standard promises an aligned block that
  overlaps no live one.
\<close>

type_synonym allocator = "nat \<Rightarrow> nat \<Rightarrow> region list \<Rightarrow> ptr"

definition allocator_ok :: "allocator \<Rightarrow> bool" where
  "allocator_ok alloc \<longleftrightarrow>
     (\<forall>al sz live. alloc al sz live \<noteq> nullptr \<longrightarrow>
        al dvd alloc al sz live \<and>
        (\<forall>r \<in> set live. disjoint_region (alloc al sz live, sz) r))"

text \<open>An allocator that never reuses addresses: it shows that the promise can be kept.\<close>

definition bump_alloc :: allocator where
  "bump_alloc al sz live =
     (let top = fold (\<lambda>r t. max t (fst r + snd r)) live 1
      in if al = 0 then nullptr else ((top + al) div al) * al)"

lemma fold_max_ge: "t \<le> fold (\<lambda>r t. max t (fst r + snd r)) live (t :: nat)"
  by (induction live arbitrary: t) (auto intro: order_trans [OF max.cobounded1])

lemma fold_max_member:
  "r \<in> set live \<Longrightarrow> fst r + snd r \<le> fold (\<lambda>r t. max t (fst r + snd r)) live (t :: nat)"
  by (induction live arbitrary: t) (auto intro: order_trans [OF _ fold_max_ge])

lemma round_up_ge: "0 < al \<Longrightarrow> t \<le> ((t + al) div al) * (al :: nat)"
  by (metis add.commute div_mult_mod_eq less_or_eq_imp_le mod_less_divisor nat_add_left_cancel_le
      add_le_cancel_right order_trans)

lemma bump_alloc_ok: "allocator_ok bump_alloc"
proof -
  have "fst r + snd r \<le> bump_alloc al sz live" if "0 < al" and "r \<in> set live" for al sz live r
    using that fold_max_member [OF that(2), of 1] round_up_ge [OF that(1)]
    by (auto simp: bump_alloc_def Let_def intro: order_trans)
  then show ?thesis
    by (auto simp: allocator_ok_def bump_alloc_def Let_def disjoint_region_def split: if_splits)
qed

section \<open>Cache contents\<close>

definition cached :: "pool_cache \<Rightarrow> ptr list" where
  "cached c = take (count c) (slots c)"

definition cache_inv :: "nat \<Rightarrow> pool_cache \<Rightarrow> bool" where
  "cache_inv cap c \<longleftrightarrow> length (slots c) = cap \<and> count c \<le> cap"

lemma cache_init_inv [simp]: "cache_inv cap (cache_init cap)" "cached (cache_init cap) = []"
  by (simp_all add: cache_inv_def cache_init_def cached_def)

lemma cache_Reset_inv [simp]:
  "cache_inv cap c \<Longrightarrow> cache_inv cap (cache_Reset c)" "cached (cache_Reset c) = []"
  by (simp_all add: cache_inv_def cache_Reset_def cached_def)

lemma cache_Pop_cases:
  assumes "cache_inv cap c"
  obtains (empty) "cached c = []" "cache_Pop c = (nullptr, c)"
  | (node) p c' where "cache_Pop c = (p, c')" "cached c = cached c' @ [p]" "cache_inv cap c'"
proof (cases "count c = 0")
  case True
  then show ?thesis using empty by (simp add: cached_def cache_Pop_def)
next
  case False
  then show ?thesis
    using node assms take_pred_snoc [of "count c" "slots c"]
    by (auto simp: cached_def cache_Pop_def cache_inv_def)
qed

lemma cache_Push_room:
  assumes "cache_inv cap c" and "count c < cap"
  shows "\<exists>c'. cache_Push cap p c = (True, c') \<and> cached c' = cached c @ [p] \<and> cache_inv cap c'"
  using assms take_list_update_snoc [of "count c" "slots c" p]
  by (auto simp: cache_Push_def cached_def cache_inv_def)

lemma cache_Push_full: "cache_inv cap c \<Longrightarrow> \<not> count c < cap \<Longrightarrow> cache_Push cap p c = (False, c)"
  by (simp add: cache_Push_def)

lemma length_cached: "cache_inv cap c \<Longrightarrow> length (cached c) = count c"
  by (simp add: cached_def cache_inv_def)

text \<open>The flush loop over the list of the nodes it visits.\<close>

fun link_nodes :: "ptr list \<Rightarrow> ptr \<Rightarrow> pmem \<Rightarrow> ptr \<times> pmem" where
  "link_nodes [] tail m = (tail, m)"
| "link_nodes (z # zs) tail m = link_nodes zs z (store_next tail z m)"

lemma flush_loop_link:
  "i + k \<le> length nodes \<Longrightarrow>
     flush_loop nodes i k tail m = link_nodes (take k (drop i nodes)) tail m"
  by (induction k arbitrary: i tail m) (auto simp: Cons_nth_drop_Suc [symmetric])

text \<open>Ending the chain behind its last node; \<^verbatim>\<open>same_outside\<close> is the frame of such writes.\<close>

definition same_outside :: "ptr set \<Rightarrow> pmem \<Rightarrow> pmem \<Rightarrow> bool" where
  "same_outside X m m' \<longleftrightarrow> (\<forall>x. x \<notin> X \<longrightarrow> nx m' x = nx m x \<and> bytes m' x = bytes m x)"

lemma same_outside_refl [simp]: "same_outside X m m"
  by (simp add: same_outside_def)

lemma same_outside_trans:
  "same_outside X m m' \<Longrightarrow> same_outside Y m' m'' \<Longrightarrow> X \<subseteq> Z \<Longrightarrow> Y \<subseteq> Z \<Longrightarrow> same_outside Z m m''"
  unfolding same_outside_def by (metis subsetD)

lemma same_outside_store: "same_outside {p} m (store_next p v m)"
  by (simp add: same_outside_def)

lemma same_outside_path:
  "same_outside X m m' \<Longrightarrow> set xs \<inter> X = {} \<Longrightarrow> path (nx m') p xs q = path (nx m) p xs q"
  by (rule path_cong) (auto simp: same_outside_def)

text \<open>
  What the linking loops achieve: behind \<^verbatim>\<open>t\<close> the nodes \<^verbatim>\<open>zs\<close> are linked up to \<^verbatim>\<open>t'\<close>, and
  clearing the last pointer gives a null-terminated chain without touching other nodes.
\<close>

definition linked :: "ptr \<Rightarrow> ptr list \<Rightarrow> pmem \<Rightarrow> ptr \<Rightarrow> pmem \<Rightarrow> bool" where
  "linked t zs m t' m' \<longleftrightarrow> t' = last (t # zs) \<and>
     chain (nx (store_next t' nullptr m')) t (t # zs) \<and>
     same_outside (set (t # zs)) m (store_next t' nullptr m')"

lemma linked_Nil: "t \<noteq> nullptr \<Longrightarrow> linked t [] m t m"
  by (simp add: linked_def same_outside_store)

lemma linkedD:
  assumes "linked t zs m t' m'"
  shows "t' = last (t # zs)" and "chain (nx (store_next t' nullptr m')) t (t # zs)"
    and "same_outside (set (t # zs)) m (store_next t' nullptr m')"
  using assms unfolding linked_def by blast+

lemma linked_Cons:
  assumes lk: "linked z zs m1 t' m'" and "nx m1 t = z" and "t \<notin> set (z # zs)" and "t \<noteq> nullptr"
    and m1: "same_outside {t, z} m m1"
  shows "linked t (z # zs) m t' m'"
proof -
  let ?m = "store_next t' nullptr m'"
  have so: "same_outside (set (z # zs)) m1 ?m" by (rule linkedD(3) [OF lk])
  then have "nx ?m t = z" using assms(2,3) by (auto simp: same_outside_def)
  moreover have "same_outside (set (t # z # zs)) m ?m"
    by (rule same_outside_trans [OF m1 so]) auto
  ultimately show ?thesis
    using linkedD(1,2) [OF lk] assms(4) unfolding linked_def by auto
qed

lemma link_nodes_linked:
  "distinct (t # zs) \<Longrightarrow> nullptr \<notin> set (t # zs) \<Longrightarrow> link_nodes zs t m = (t', m') \<Longrightarrow>
     linked t zs m t' m'"
proof (induction zs arbitrary: t m)
  case Nil
  then show ?case by (auto intro: linked_Nil)
next
  case (Cons z zs)
  have "linked z zs (store_next t z m) t' m'"
    using Cons.prems by (intro Cons.IH) auto
  then show ?case
    using Cons.prems by (intro linked_Cons) (auto simp: same_outside_def)
qed

lemma find_tail_chain:
  assumes "chain h p (x # xs)" and "length xs < n"
  shows "find_tail n h p = Some (last (x # xs))"
  using assms
proof (induction xs arbitrary: n p x)
  case Nil
  then show ?case by (cases n) auto
next
  case (Cons y ys)
  then obtain n' where n: "n = Suc n'" by (cases n) auto
  have "find_tail n' h y = Some (last (y # ys))"
    using Cons.prems n by (intro Cons.IH) auto
  with Cons.prems n show ?case by auto
qed

text \<open>
  \<^verbatim>\<open>FlushHalf\<close> on a cache that is more than a quarter full: the newer half becomes a
  null-terminated chain, the older half stays.
\<close>

lemma cache_FlushHalf_chain:
  assumes inv: "cache_inv cap c" and "cap div 4 < count c" and "4 \<le> cap"
    and "distinct (cached c)" and "nullptr \<notin> set (cached c)"
    and flush: "cache_FlushHalf cap c m = (batch, c', m')"
  shows "\<exists>old b bs. cached c = old @ b # bs \<and> batch = b \<and> cached c' = old \<and> cache_inv cap c' \<and>
           count c' < cap \<and> chain (nx m') b (b # bs) \<and> same_outside (set (b # bs)) m m'"
proof -
  let ?n = "count c div 2" let ?k = "count c - ?n"
  have n: "1 \<le> ?n" "?k < count c" using assms(2,3) by auto
  have len: "count c \<le> length (slots c)" using inv by (simp add: cache_inv_def)
  obtain t' m1 where loop: "flush_loop (slots c) (?k + 1) (?n - 1) (slots c ! ?k) m = (t', m1)"
    by fastforce
  let ?bs = "take (?n - 1) (drop (?k + 1) (slots c))"
  have link: "link_nodes ?bs (slots c ! ?k) m = (t', m1)"
    using loop flush_loop_link [of "?k + 1" "?n - 1" "slots c"] len n by simp
  have "drop ?k (cached c) = take ?n (drop ?k (slots c))"
    by (simp add: cached_def drop_take)
  also have "\<dots> = slots c ! ?k # ?bs"
    using n len by (cases ?n) (auto simp: Cons_nth_drop_Suc [symmetric])
  finally have split: "cached c = take ?k (cached c) @ slots c ! ?k # ?bs"
    by (metis append_take_drop_id)
  have d: "distinct (slots c ! ?k # ?bs)" "nullptr \<notin> set (slots c ! ?k # ?bs)"
    using assms(4,5) split by (metis distinct_append, metis UnCI set_append)
  have res: "batch = slots c ! ?k" "c' = c\<lparr>count := ?k\<rparr>" "m' = store_next t' nullptr m1"
    using flush loop assms(2) by (auto simp: cache_FlushHalf_def Let_def)
  have "cached c' = take ?k (cached c)" and "cache_inv cap c'" and "count c' < cap"
    using res inv n by (auto simp: cached_def cache_inv_def min_def)
  then show ?thesis
    using link_nodes_linked [OF d link] split res unfolding linked_def by blast
qed

section \<open>Slicing a block\<close>

definition slice :: "ptr \<Rightarrow> nat \<Rightarrow> nat \<Rightarrow> ptr list" where
  "slice block stride n = map (\<lambda>i. block + i * stride) [0..<n]"

lemma slice_loop_linked:
  assumes "h \<noteq> nullptr" and "nullptr \<notin> set (t # zs)" and "distinct (t # zs)"
    and "zs = map (\<lambda>j. block + j * stride) [i..<i + k]"
  shows "\<exists>t' m'. slice_loop block stride i k h t m = (h, t', m') \<and> linked t zs m t' m'"
  using assms
proof (induction k arbitrary: i t m zs)
  case 0
  then show ?case by (auto intro: linked_Nil)
next
  case (Suc k)
  define node where "node = block + i * stride"
  define ws where "ws = map (\<lambda>j. block + j * stride) [Suc i..<Suc i + k]"
  have zs: "zs = node # ws"
    using Suc.prems(4) by (simp add: node_def ws_def upt_conv_Cons del: upt_Suc)
  let ?m = "store_next t node (store_next node nullptr m)"
  have tw: "t \<notin> set (node # ws)" "t \<noteq> nullptr" "nullptr \<notin> set (node # ws)" "distinct (node # ws)"
    using Suc.prems(2,3) unfolding zs by auto
  obtain t' m' where sl: "slice_loop block stride (Suc i) k h node ?m = (h, t', m')"
    and lk: "linked node ws ?m t' m'"
    using Suc.IH [OF Suc.prems(1) tw(3,4) ws_def] by blast
  have "linked t zs m t' m'"
    unfolding zs by (rule linked_Cons [OF lk]) (use tw in \<open>auto simp: same_outside_def\<close>)
  moreover have "slice_loop block stride i (Suc k) h t m = (h, t', m')"
    using sl Suc.prems(1) by (simp add: node_def Let_def)
  ultimately show ?case by blast
qed

lemma distinct_slice: "0 < stride \<Longrightarrow> distinct (slice block stride n)"
  by (auto simp: slice_def distinct_map inj_on_def)

lemma nullptr_slice: "block \<noteq> nullptr \<Longrightarrow> nullptr \<notin> set (slice block stride n)"
  by (auto simp: slice_def)

text \<open>The whole loop: the nodes of the block, in address order, as a null-terminated chain.\<close>

lemma slice_loop_chain:
  assumes "block \<noteq> nullptr" and "0 < stride" and "0 < n"
  shows "\<exists>t m'. slice_loop block stride 0 n nullptr nullptr m = (block, t, m') \<and>
     t = last (slice block stride n) \<and>
     chain (nx (store_next t nullptr m')) block (slice block stride n) \<and>
     same_outside (set (slice block stride n)) m (store_next t nullptr m')"
proof -
  obtain k where n: "n = Suc k" using assms(3) by (cases n) auto
  define zs where "zs = map (\<lambda>j. block + j * stride) [Suc 0..<Suc 0 + k]"
  have sl: "slice block stride n = block # zs"
    by (simp add: slice_def zs_def n upt_conv_Cons del: upt_Suc)
  have d: "distinct (block # zs)" "nullptr \<notin> set (block # zs)"
    using distinct_slice [OF assms(2), of block n] nullptr_slice [OF assms(1), of stride n]
    unfolding sl by simp_all
  let ?m = "store_next block nullptr m"
  obtain t m' where loop: "slice_loop block stride (Suc 0) k block block ?m = (block, t, m')"
    and lk: "linked block zs ?m t m'"
    using slice_loop_linked [OF assms(1) d(2,1) zs_def] by blast
  have "same_outside (set (block # zs)) m (store_next t nullptr m')"
    by (rule same_outside_trans [OF same_outside_store linkedD(3) [OF lk]]) auto
  moreover have "slice_loop block stride 0 n nullptr nullptr m = (block, t, m')"
    using loop n by (simp add: Let_def)
  ultimately show ?thesis
    using linkedD(1,2) [OF lk] unfolding sl by blast
qed

lemma slice_bounds: "p \<in> set (slice block stride n) \<Longrightarrow> block \<le> p \<and> p + stride \<le> block + stride * n"
proof -
  assume "p \<in> set (slice block stride n)"
  then obtain i where i: "i < n" "p = block + i * stride" by (auto simp: slice_def)
  then have "Suc i * stride \<le> n * stride" by (intro mult_le_mono1) simp
  with i show ?thesis by (simp add: mult.commute)
qed

lemma slice_disjoint:
  assumes "p \<in> set (slice block stride n)" and "q \<in> set (slice block stride n)" and "p \<noteq> q"
  shows "disjoint_region (p, stride) (q, stride)"
proof -
  obtain i j where ij: "p = block + i * stride" "q = block + j * stride"
    using assms(1,2) by (auto simp: slice_def)
  have "Suc i * stride \<le> j * stride" if "i < j" for i j using that by (intro mult_le_mono1) simp
  then show ?thesis
    using ij assms(3) by (cases "i < j"; cases "j < i") (force simp: disjoint_region_def)+
qed


abbreviation fl_top :: "TreiberStack \<Rightarrow> ptr" where
  "fl_top \<equiv> UnsafeHeadForDiagnostics"

lemma treiber_push_chain:
  assumes "chain (nx m) (fl_top fl) xs" and "chain (nx m) a ys" and "ys \<noteq> []" and "distinct ys"
    and "set ys \<inter> set xs = {}" and pc: "TreiberStack_PushChain a (last ys) fl m = (fl', m')"
  shows "chain (nx m') (fl_top fl') (ys @ xs) \<and> same_outside (set ys) m m'"
proof -
  obtain zs z where ys: "ys = zs @ [z]" using assms(3) by (metis rev_exhaust)
  then have "chain (nx m') (fl_top fl') (zs @ z # xs)"
    using treiber.push_chain_list [of m fl xs a zs z nullptr] assms by auto
  moreover have "m' = store_next (last ys) (fl_top fl) m"
    using treiber.push_chain_top [OF pc] by simp
  ultimately show ?thesis using ys by (auto simp: same_outside_def)
qed

text \<open>
  Giving a node back always ends, and moves at most the newer half of the thread's cache
  to the free list; the node is the next one that the thread's cache hands out.
\<close>

lemma release_node_spec:
  assumes inv: "cache_inv cap c" and cap: "4 \<le> cap" and xs: "chain (nx m) (fl_top fl) xs"
    and d: "distinct (cached c)" and nn: "nullptr \<notin> set (cached c)"
    and dj: "set (cached c) \<inter> set xs = {}"
  shows "\<exists>c' fl' m' old bs. release_node cap node c fl m = Some (c', fl', m') \<and> cache_inv cap c' \<and>
           cached c = old @ bs \<and> cached c' = old @ [node] \<and> chain (nx m') (fl_top fl') (bs @ xs) \<and>
           same_outside (set bs) m m'"
proof (cases "count c < cap")
  case True
  then obtain c' where "cache_Push cap node c = (True, c')" "cached c' = cached c @ [node]"
      "cache_inv cap c'" using cache_Push_room [OF inv] by blast
  then show ?thesis
    using xs by (intro exI [of _ c'] exI [of _ fl] exI [of _ m] exI [of _ "cached c"] exI [of _ "[]"])
      (simp add: release_node_def)
next
  case False
  then have q: "cap div 4 < count c" and full: "cache_Push cap node c = (False, c)"
    using inv cap cache_Push_full [OF inv] by (auto simp: cache_inv_def)
  obtain batch c1 m1 where fh: "cache_FlushHalf cap c m = (batch, c1, m1)"
    by (metis surj_pair)
  obtain old b bs where f: "cached c = old @ b # bs" "batch = b" "cached c1 = old" "cache_inv cap c1"
      "count c1 < cap" "chain (nx m1) b (b # bs)" "same_outside (set (b # bs)) m m1"
    using cache_FlushHalf_chain [OF inv q cap d nn fh] by blast
  have len: "length bs < cap"
    using length_cached [OF inv] inv f(1) by (simp add: cache_inv_def)
  have bn: "b \<noteq> nullptr" using f(6) by simp
  have tail: "find_tail cap (nx m1) batch = Some (last (b # bs))"
    using find_tail_chain [OF f(6) len] f(2) by simp
  obtain fl2 m2 where pc: "TreiberStack_PushChain b (last (b # bs)) fl m1 = (fl2, m2)"
    by fastforce
  have xs1: "chain (nx m1) (fl_top fl) xs"
    using same_outside_path [OF f(7), of xs] xs dj f(1) by auto
  have pushed: "chain (nx m2) (fl_top fl2) ((b # bs) @ xs) \<and> same_outside (set (b # bs)) m1 m2"
    by (rule treiber_push_chain [OF xs1 f(6) _ _ _ pc]) (use d dj f(1) in auto)
  have so: "same_outside (set (b # bs)) m m2"
    by (rule same_outside_trans [OF f(7) conjunct2 [OF pushed]]) auto
  obtain c2 where c2: "cache_Push cap node c1 = (True, c2)" "cached c2 = old @ [node]" "cache_inv cap c2"
    using cache_Push_room [OF f(4,5)] f(3) by metis
  have "release_node cap node c fl m = Some (c2, fl2, m2)"
    using full fh tail pc c2 f(2) bn by (simp add: release_node_def Let_def del: last.simps)
  then show ?thesis using c2 f(1) conjunct1 [OF pushed] so by blast
qed

lemma populate_spec:
  assumes "block \<noteq> nullptr" and "0 < stride" and xs: "chain (nx m) (fl_top fl) xs"
    and dj: "set (slice block stride n) \<inter> set xs = {}"
    and pop: "populate block stride n fl m = (fl', m')"
  shows "chain (nx m') (fl_top fl') (slice block stride n @ xs) \<and>
         same_outside (set (slice block stride n)) m m'"
proof (cases "n = 0")
  case True
  then show ?thesis using pop xs by (simp add: populate_def slice_def)
next
  case False
  define zs where "zs = slice block stride n"
  obtain t m1 where sl: "slice_loop block stride 0 n nullptr nullptr m = (block, t, m1)"
    and t: "t = last zs" and ch: "chain (nx (store_next t nullptr m1)) block zs"
    and so: "same_outside (set zs) m (store_next t nullptr m1)"
    using slice_loop_chain [OF assms(1,2)] False unfolding zs_def by blast
  have pc: "TreiberStack_PushChain block (last zs) fl (store_next t nullptr m1) = (fl', m')"
    using pop sl assms(1) t by (simp add: populate_def)
  have xs': "chain (nx (store_next t nullptr m1)) (fl_top fl) xs"
    using same_outside_path [OF so, of xs] xs dj unfolding zs_def [symmetric] by blast
  have "zs \<noteq> []" using False by (simp add: zs_def slice_def)
  then have "chain (nx m') (fl_top fl') (zs @ xs) \<and> same_outside (set zs) (store_next t nullptr m1) m'"
    using treiber_push_chain [OF xs' ch _ _ _ pc] distinct_slice [OF assms(2)] dj
    unfolding zs_def by blast
  then show ?thesis
    using same_outside_trans [OF so] unfolding zs_def by blast
qed

section \<open>Ownership\<close>

text \<open>
  Every node is at one place only: in the free list, in the cache of one thread, or with a
  user of the pool.
\<close>

definition owners :: "ptr list \<Rightarrow> (tid \<Rightarrow> ptr list) \<Rightarrow> ptr set \<Rightarrow> bool" where
  "owners xs cs out \<longleftrightarrow>
     distinct xs \<and> (\<forall>t. distinct (cs t)) \<and> (\<forall>t. set xs \<inter> set (cs t) = {}) \<and>
     (\<forall>t u. t \<noteq> u \<longrightarrow> set (cs t) \<inter> set (cs u) = {}) \<and>
     set xs \<inter> out = {} \<and> (\<forall>t. set (cs t) \<inter> out = {})"

definition all_nodes :: "ptr list \<Rightarrow> (tid \<Rightarrow> ptr list) \<Rightarrow> ptr set \<Rightarrow> ptr set" where
  "all_nodes xs cs out = set xs \<union> (\<Union>t. set (cs t)) \<union> out"

lemma ownersD:
  assumes "owners xs cs out"
  shows "distinct xs" and "distinct (cs t)" and "set xs \<inter> set (cs t) = {}"
    and "t \<noteq> u \<Longrightarrow> set (cs t) \<inter> set (cs u) = {}" and "set xs \<inter> out = {}" and "set (cs t) \<inter> out = {}"
  using assms unfolding owners_def by blast+

lemma all_nodesI:
  "x \<in> set xs \<Longrightarrow> x \<in> all_nodes xs cs out" "x \<in> set (cs t) \<Longrightarrow> x \<in> all_nodes xs cs out"
  "x \<in> out \<Longrightarrow> x \<in> all_nodes xs cs out"
  unfolding all_nodes_def by blast+

lemma all_nodes_split:
  "all_nodes xs cs out = set xs \<union> set (cs t) \<union> (\<Union>u \<in> - {t}. set (cs u)) \<union> out"
  by (auto simp: all_nodes_def)

lemma owners_from_cache:
  assumes "owners xs cs out" and "cs t = ys @ [p]"
  shows "owners xs (cs(t := ys)) (insert p out)"
    and "all_nodes xs (cs(t := ys)) (insert p out) = all_nodes xs cs out" and "p \<notin> out"
proof -
  have dis: "x \<notin> set (ys @ [p])" if "x \<in> set (cs u)" and "t \<noteq> u" for x u
    using ownersD(4) [OF assms(1) that(2)] that(1) assms(2) by auto
  have own: "distinct (ys @ [p])" "set xs \<inter> set (ys @ [p]) = {}" "set (ys @ [p]) \<inter> out = {}"
    using ownersD(2,3,6) [OF assms(1), of t] assms(2) by simp_all
  show "owners xs (cs(t := ys)) (insert p out)"
    using assms(1) own unfolding owners_def by (auto simp: disjoint_iff dest: dis)
  show "all_nodes xs (cs(t := ys)) (insert p out) = all_nodes xs cs out"
    using assms(2) by (auto simp: all_nodes_split [where t = t])
  show "p \<notin> out" using own by simp
qed

lemma owners_from_list:
  assumes "owners (x # xs) cs out"
  shows "owners xs cs (insert x out)" and "all_nodes xs cs (insert x out) = all_nodes (x # xs) cs out"
    and "x \<notin> out"
  using assms by (auto simp: owners_def all_nodes_def)

lemma owners_to_cache:
  assumes "owners xs cs out" and "p \<in> out" and "cs t = old @ bs"
  shows "owners (bs @ xs) (cs(t := old @ [p])) (out - {p})"
    and "all_nodes (bs @ xs) (cs(t := old @ [p])) (out - {p}) = all_nodes xs cs out"
proof -
  have dis: "x \<notin> set (old @ bs)" if "x \<in> set (cs u)" and "t \<noteq> u" for x u
    using ownersD(4) [OF assms(1) that(2)] that(1) assms(3) by auto
  have own: "distinct (old @ bs)" "set xs \<inter> set (old @ bs) = {}" "set (old @ bs) \<inter> out = {}"
    using ownersD(2,3,6) [OF assms(1), of t] assms(3) by simp_all
  show "owners (bs @ xs) (cs(t := old @ [p])) (out - {p})"
    using assms(1,2) own unfolding owners_def by (auto simp: disjoint_iff dest: dis)
  show "all_nodes (bs @ xs) (cs(t := old @ [p])) (out - {p}) = all_nodes xs cs out"
    using assms(2,3) by (auto simp: all_nodes_split [where t = t])
qed

lemma owners_grow:
  assumes "owners xs cs out" and "distinct ns" and "set ns \<inter> all_nodes xs cs out = {}"
  shows "owners (ns @ xs) cs out"
    and "all_nodes (ns @ xs) cs out = set ns \<union> all_nodes xs cs out"
  using assms unfolding owners_def all_nodes_def by (auto simp: disjoint_iff)

lemma owners_fresh:
  assumes "owners xs cs out" and "p \<notin> all_nodes xs cs out"
  shows "owners xs cs (insert p out)"
    and "all_nodes xs cs (insert p out) = insert p (all_nodes xs cs out)"
  using assms unfolding owners_def all_nodes_def by (auto simp: disjoint_iff)

text \<open>
  Geometry: every node is the aligned start of a slot inside a live region, and the slots
  of two nodes never overlap.
\<close>

definition placed :: "nat \<Rightarrow> region list \<Rightarrow> ptr \<Rightarrow> bool" where
  "placed slot live p \<longleftrightarrow> p \<noteq> nullptr \<and> 64 dvd p \<and>
     (\<exists>r \<in> set live. fst r \<le> p \<and> p + slot \<le> fst r + snd r)"

definition geometry :: "nat \<Rightarrow> region list \<Rightarrow> ptr set \<Rightarrow> bool" where
  "geometry slot live N \<longleftrightarrow> (\<forall>p \<in> N. placed slot live p) \<and>
     (\<forall>p \<in> N. \<forall>q \<in> N. p \<noteq> q \<longrightarrow> disjoint_region (p, slot) (q, slot))"

lemma placed_fresh_disjoint:
  assumes "placed slot live p" and "\<forall>r \<in> set live. disjoint_region (b, n) r"
    and "b \<le> q" and "q + slot \<le> b + n"
  shows "disjoint_region (p, slot) (q, slot)"
  using assms unfolding placed_def disjoint_region_def by fastforce

lemma geometry_add:
  assumes g: "geometry slot live N" and fresh: "\<forall>r \<in> set live. disjoint_region (b, n) r"
    and M: "\<And>q. q \<in> M \<Longrightarrow> b \<le> q \<and> q + slot \<le> b + n \<and> q \<noteq> nullptr \<and> 64 dvd q"
    and MM: "\<And>p q. p \<in> M \<Longrightarrow> q \<in> M \<Longrightarrow> p \<noteq> q \<Longrightarrow> disjoint_region (p, slot) (q, slot)"
  shows "geometry slot ((b, n) # live) (M \<union> N)"
proof -
  have mix: "disjoint_region (p, slot) (q, slot)" if "p \<in> N" and "q \<in> M" for p q
    using placed_fresh_disjoint [OF _ fresh, of slot p q] g that M [OF that(2)]
    by (auto simp: geometry_def)
  have "placed slot ((b, n) # live) q" if "q \<in> M" for q
    using M [OF that] by (auto simp: placed_def)
  moreover have "placed slot ((b, n) # live) p" if "p \<in> N" for p
    using g that by (auto simp: geometry_def placed_def)
  moreover have "disjoint_region (p, slot) (q, slot)" if "p \<in> M \<union> N" "q \<in> M \<union> N" "p \<noteq> q" for p q
    using that MM [of p q] mix [of p q] mix [of q p] g disjoint_region_sym
    by (auto simp: geometry_def)
  ultimately show ?thesis unfolding geometry_def by blast
qed

lemma geometry_fresh_notin:
  assumes "geometry slot live N" and "0 < slot" and "\<forall>r \<in> set live. disjoint_region (b, n) r"
    and "b \<le> q" and "q + slot \<le> b + n"
  shows "q \<notin> N"
proof
  assume "q \<in> N"
  then have "disjoint_region (q, slot) (q, slot)"
    using placed_fresh_disjoint [OF _ assms(3-5), of q] assms(1) by (simp add: geometry_def)
  with assms(2) show False by (simp add: disjoint_region_def)
qed

section \<open>Buckets\<close>

text \<open>
  A bucket is what one pool of equal nodes consists of: the shared free list with the nodes
  \<^verbatim>\<open>xs\<close>, the caches of the threads and the nodes \<^verbatim>\<open>out\<close> in use. \<^verbatim>\<open>ObjectPool\<close> is one bucket,
  \<^verbatim>\<open>BufferPool\<close> has one for each size class.
\<close>

definition caches :: "(tid \<Rightarrow> pool_cache) \<Rightarrow> tid \<Rightarrow> ptr list" where
  "caches f = (\<lambda>t. cached (f t))"

lemma caches_upd [simp]: "caches (f(t := c)) = (caches f)(t := cached c)"
  by (auto simp: caches_def)

lemma caches_apply: "caches f t = cached (f t)"
  by (simp add: caches_def)

definition bucket_ok ::
    "nat \<Rightarrow> pmem \<Rightarrow> TreiberStack \<Rightarrow> (tid \<Rightarrow> pool_cache) \<Rightarrow> ptr list \<Rightarrow> ptr set \<Rightarrow> bool" where
  "bucket_ok cap m fl cc xs out \<longleftrightarrow>
     chain (nx m) (fl_top fl) xs \<and> owners xs (caches cc) out \<and> (\<forall>t. cache_inv cap (cc t)) \<and>
     nullptr \<notin> all_nodes xs (caches cc) out"

lemma bucket_okD:
  assumes "bucket_ok cap m fl cc xs out"
  shows "chain (nx m) (fl_top fl) xs" and "owners xs (caches cc) out" and "cache_inv cap (cc t)"
    and "nullptr \<notin> all_nodes xs (caches cc) out"
  using assms unfolding bucket_ok_def by blast+

lemma bucket_out_nonnull: "bucket_ok cap m fl cc xs out \<Longrightarrow> p \<in> out \<Longrightarrow> p \<noteq> nullptr"
  using bucket_okD(4) all_nodesI(3) by metis

lemma bucket_frame:
  assumes "bucket_ok cap m fl cc xs out" and "same_outside X m m'" and "set xs \<inter> X = {}"
  shows "bucket_ok cap m' fl cc xs out"
  using assms(1) same_outside_path [OF assms(2,3)] unfolding bucket_ok_def by simp

lemma bucket_cache_pop:
  assumes ok: "bucket_ok cap m fl cc xs out" and pop: "cache_Pop (cc t) = (p, c)"
  obtains (none) "cached (cc t) = []" "p = nullptr" "c = cc t"
  | (node) ys where "cached (cc t) = ys @ [p]" "p \<noteq> nullptr" "p \<notin> out"
      "bucket_ok cap m fl (cc(t := c)) xs (insert p out)"
      "all_nodes xs (caches (cc(t := c))) (insert p out) = all_nodes xs (caches cc) out"
proof (cases rule: cache_Pop_cases [OF bucket_okD(3) [OF ok, of t]])
  case 1
  then show ?thesis using none pop by simp
next
  case (2 q c')
  then have q: "q = p" "c' = c" using pop by simp_all
  have ct: "caches cc t = cached c @ [p]" using 2 q by (simp add: caches_apply)
  note own = owners_from_cache [OF bucket_okD(2) [OF ok], OF ct]
  have "p \<in> set (caches cc t)" unfolding ct by simp
  then have p: "p \<noteq> nullptr" using bucket_okD(4) [OF ok] all_nodesI(2) by metis
  have ci: "cache_inv cap c" using 2(3) q(2) by simp
  have "bucket_ok cap m fl (cc(t := c)) xs (insert p out)"
    using bucket_okD [OF ok] ci own(1,2) by (simp add: bucket_ok_def)
  then show ?thesis using node [of "cached c"] ct own(2,3) p by (simp add: caches_apply)
qed

lemma bucket_list_pop:
  assumes ok: "bucket_ok cap m fl cc xs out" and pop: "TreiberStack_Pop fl m = (p, fl')"
  obtains (none) "xs = []" "p = nullptr" "fl' = fl"
  | (node) xs' where "xs = p # xs'" "p \<noteq> nullptr" "p \<notin> out" "bucket_ok cap m fl' cc xs' (insert p out)"
      "all_nodes xs' (caches cc) (insert p out) = all_nodes xs (caches cc) out"
proof (cases xs)
  case Nil
  then show ?thesis using none treiber.pop_Nil bucket_okD(1) [OF ok] pop by simp
next
  case (Cons x ys)
  have p: "p = x" "chain (nx m) (fl_top fl') ys"
    using treiber.pop_Cons [OF _ pop] bucket_okD(1) [OF ok] unfolding Cons by blast+
  have x: "x \<noteq> nullptr" using bucket_okD(1) [OF ok] unfolding Cons by simp
  note own = owners_from_list [OF bucket_okD(2) [OF ok, unfolded Cons]]
  have "bucket_ok cap m fl' cc ys (insert x out)"
    using ok p own(1,2) unfolding bucket_ok_def Cons by simp
  then show ?thesis using node [of ys] Cons p x own(2,3) by simp
qed

lemma bucket_release:
  assumes ok: "bucket_ok cap m fl cc xs out" and cap: "4 \<le> cap" and p: "p \<in> out"
  obtains c fl' m' xs' ys where "release_node cap p (cc t) fl m = Some (c, fl', m')"
    "bucket_ok cap m' fl' (cc(t := c)) xs' (out - {p})" "cached c = ys @ [p]"
    "all_nodes xs' (caches (cc(t := c))) (out - {p}) = all_nodes xs (caches cc) out"
    "same_outside (set (cached (cc t))) m m'"
proof -
  have c1: "distinct (cached (cc t))"
    using ownersD(2) [OF bucket_okD(2) [OF ok]] unfolding caches_apply .
  have c2: "nullptr \<notin> set (cached (cc t))"
    using bucket_okD(4) [OF ok] all_nodesI(2) [of nullptr "caches cc" t]
    unfolding caches_apply by metis
  have c3: "set (cached (cc t)) \<inter> set xs = {}"
    using ownersD(3) [OF bucket_okD(2) [OF ok], of t] unfolding caches_apply by blast
  obtain c' fl' m' old bs where r: "release_node cap p (cc t) fl m = Some (c', fl', m')"
      "cache_inv cap c'" "cached (cc t) = old @ bs" "cached c' = old @ [p]"
      "chain (nx m') (fl_top fl') (bs @ xs)" "same_outside (set bs) m m'"
    using release_node_spec [OF bucket_okD(3) [OF ok] cap bucket_okD(1) [OF ok] c1 c2 c3, of p]
    by blast
  have ct: "caches cc t = old @ bs" using r(3) by (simp add: caches_apply)
  note own = owners_to_cache [OF bucket_okD(2) [OF ok] p, OF ct]
  have "bucket_ok cap m' fl' (cc(t := c')) (bs @ xs) (out - {p})"
    using bucket_okD [OF ok] r(2,4,5) own by (simp add: bucket_ok_def)
  moreover have "same_outside (set (cached (cc t))) m m'"
    using r(3,6) unfolding same_outside_def by auto
  ultimately show ?thesis using that [OF r(1)] r(4) own(2) by simp
qed

lemma bucket_populate:
  assumes ok: "bucket_ok cap m fl cc xs out" and b: "block \<noteq> nullptr" and st: "0 < stride"
    and new: "set (slice block stride n) \<inter> all_nodes xs (caches cc) out = {}"
    and pop: "populate block stride n fl m = (fl', m')"
  shows "bucket_ok cap m' fl' cc (slice block stride n @ xs) out"
    and "all_nodes (slice block stride n @ xs) (caches cc) out =
      set (slice block stride n) \<union> all_nodes xs (caches cc) out"
    and "same_outside (set (slice block stride n)) m m'"
proof -
  have "set (slice block stride n) \<inter> set xs = {}" using new all_nodesI(1) by blast
  note ch = populate_spec [OF b st bucket_okD(1) [OF ok] this pop]
  note own = owners_grow [OF bucket_okD(2) [OF ok] distinct_slice [OF st] new]
  show an: "all_nodes (slice block stride n @ xs) (caches cc) out =
      set (slice block stride n) \<union> all_nodes xs (caches cc) out" by (rule own(2))
  have "nullptr \<notin> set (slice block stride n) \<union> all_nodes xs (caches cc) out"
    using nullptr_slice [OF b] bucket_okD(4) [OF ok] by simp
  then show "bucket_ok cap m' fl' cc (slice block stride n @ xs) out"
    using bucket_okD(3) [OF ok] own ch unfolding bucket_ok_def by simp
  show "same_outside (set (slice block stride n)) m m'" using ch by simp
qed

lemma bucket_fresh:
  assumes "bucket_ok cap m fl cc xs out" and "p \<notin> all_nodes xs (caches cc) out" and "p \<noteq> nullptr"
  shows "bucket_ok cap m fl cc xs (insert p out)"
    and "all_nodes xs (caches cc) (insert p out) = insert p (all_nodes xs (caches cc) out)"
  using owners_fresh [OF bucket_okD(2) [OF assms(1)] assms(2)] assms(1,3)
  unfolding bucket_ok_def by auto

end
