(* ===== verification/Object_Pool.thy ===== *)
theory Object_Pool
  imports Pool_Cache
begin

text \<open>
  \<^verbatim>\<open>async_io_pool.hpp\<close>, \<^verbatim>\<open>ObjectPool<T>\<close>: construction, \<^verbatim>\<open>Acquire\<close>, \<^verbatim>\<open>Release\<close>,
  \<^verbatim>\<open>ReleaseMemory\<close>, \<^verbatim>\<open>GrowPool\<close>, \<^verbatim>\<open>ApproximateFreeCount\<close> and destruction, and the proof that
  an object is never handed out twice. The operations run one after the other, on any
  threads; the concurrent behaviour of the free list itself is in \<^verbatim>\<open>Treiber_Interleaving\<close>.
\<close>

section \<open>State and operations\<close>

text \<open>
  The members of the pool, \<^verbatim>\<open>sizeof(T)\<close> of the template argument, the thread-local caches
  (one per thread and type, shared by all pools of that type), the memory of the nodes and
  the live heap regions.
\<close>

record ObjectPool =
  free_list :: TreiberStack
  storage_blocks :: "ptr list"
  capacity :: nat
  grow_batch :: nat
  sizeof_T :: nat
  tls_cache :: "tid \<Rightarrow> pool_cache"
  mem :: pmem
  live :: "region list"

text \<open>The size of a slot: the larger of \<^verbatim>\<open>T\<close> and \<^verbatim>\<open>PoolNode\<close> (64 bytes), rounded up to 64.\<close>

definition slot_size :: "nat \<Rightarrow> nat" where
  "slot_size sz =
     unat ((word_of_nat (if 64 < sz then sz else 64) + (64 - 1) :: u64) AND NOT (64 - 1))"

definition pool_aligned_alloc ::
    "allocator \<Rightarrow> nat \<Rightarrow> nat \<Rightarrow> ObjectPool \<Rightarrow> ptr \<times> ObjectPool" where
  "pool_aligned_alloc alloc al sz s =
     (let p = alloc al sz (live s)
      in if p = nullptr then (nullptr, s) else (p, s\<lparr>live := (p, sz) # live s\<rparr>))"

definition GrowPool :: "allocator \<Rightarrow> nat \<Rightarrow> ObjectPool \<Rightarrow> ObjectPool" where
  "GrowPool alloc n s =
     (let obj_size = slot_size (sizeof_T s);
          (block, s1) = pool_aligned_alloc alloc 64 ((obj_size * n) mod size_t_mod) s
      in if block = nullptr then s1
         else let (fl, m) = populate block obj_size n (free_list s1) (mem s1)
              in s1\<lparr>storage_blocks := storage_blocks s1 @ [block], free_list := fl, mem := m\<rparr>)"

definition ObjectPool_construct ::
    "allocator \<Rightarrow> tid \<Rightarrow> bool \<Rightarrow> nat \<Rightarrow> nat \<Rightarrow> nat \<Rightarrow> (tid \<Rightarrow> pool_cache) \<Rightarrow> pmem \<Rightarrow> region list \<Rightarrow>
       ObjectPool" where
  "ObjectPool_construct alloc t lockfree szT cap gb tls0 m0 live0 =
     GrowPool alloc cap
       \<lparr>free_list = TreiberStack_init lockfree, storage_blocks = [], capacity = cap,
        grow_batch = gb, sizeof_T = szT, tls_cache = tls0(t := cache_Reset (tls0 t)),
        mem = m0, live = live0\<rparr>"

definition ObjectPool_destroy :: "ObjectPool \<Rightarrow> region list" where
  "ObjectPool_destroy s = filter (\<lambda>r. fst r \<notin> set (storage_blocks s)) (live s)"

definition Acquire :: "allocator \<Rightarrow> tid \<Rightarrow> ObjectPool \<Rightarrow> ptr \<times> ObjectPool" where
  "Acquire alloc t s =
     (let (node, c) = ThreadCache_Pop (tls_cache s t);
          s1 = s\<lparr>tls_cache := (tls_cache s)(t := c)\<rparr>
      in if node \<noteq> nullptr then (node, s1)
         else let (node, fl) = TreiberStack_Pop (free_list s1) (mem s1);
                  s2 = s1\<lparr>free_list := fl\<rparr>
              in if node \<noteq> nullptr then (node, s2)
                 else let s3 = GrowPool alloc (grow_batch s2) s2;
                          (node, fl) = TreiberStack_Pop (free_list s3) (mem s3);
                          s4 = s3\<lparr>free_list := fl\<rparr>
                      in if node \<noteq> nullptr then (node, s4)
                         else pool_aligned_alloc alloc 64 (slot_size (sizeof_T s4)) s4)"

definition ReleaseMemory :: "tid \<Rightarrow> ptr \<Rightarrow> ObjectPool \<Rightarrow> ObjectPool option" where
  "ReleaseMemory t obj s =
     (if obj = nullptr then Some s
      else case release_node kObjectPoolTlsCacheSize obj (tls_cache s t) (free_list s) (mem s) of
             None \<Rightarrow> None
           | Some (c, fl, m) \<Rightarrow>
               Some (s\<lparr>tls_cache := (tls_cache s)(t := c), free_list := fl, mem := m\<rparr>))"

text \<open>\<^verbatim>\<open>Release\<close> runs the destructor of \<^verbatim>\<open>T\<close>, a parameter, before it recycles the memory.\<close>

definition Release :: "(ptr \<Rightarrow> pmem \<Rightarrow> pmem) \<Rightarrow> tid \<Rightarrow> ptr \<Rightarrow> ObjectPool \<Rightarrow> ObjectPool option" where
  "Release dtor t obj s =
     (if obj = nullptr then Some s else ReleaseMemory t obj (s\<lparr>mem := dtor obj (mem s)\<rparr>))"

text \<open>The counting loop of \<^verbatim>\<open>ApproximateFreeCount\<close>; its first argument is \<^verbatim>\<open>1000000 - count\<close>.\<close>

fun count_loop :: "nat \<Rightarrow> (ptr \<Rightarrow> ptr) \<Rightarrow> ptr \<Rightarrow> nat" where
  "count_loop 0 h n = 0"
| "count_loop (Suc k) h n = (if n \<noteq> nullptr then Suc (count_loop k h (h n)) else 0)"

definition ApproximateFreeCount :: "ObjectPool \<Rightarrow> nat" where
  "ApproximateFreeCount s =
     count_loop 1000000 (nx (mem s)) (UnsafeHeadForDiagnostics (free_list s))"

section \<open>Slot sizes\<close>

lemma and_not_63: "(x :: u64) AND NOT 63 = push_bit 6 (drop_bit 6 x)"
proof -
  have "(63 :: u64) = mask 6" by (simp add: mask_eq_exp_minus_1)
  then show ?thesis
    by (auto simp: bit_eq_iff bit_simps)
qed

lemma unat_and_not_63: "unat ((x :: u64) AND NOT 63) = unat x div 64 * 64"
proof -
  have "unat x div 64 * 64 < 2 ^ 64"
    using unsigned_less [of x, where 'a = nat] div_times_less_eq_dividend [of "unat x" 64]
    by (simp add: order_le_less_trans)
  then show ?thesis
    unfolding and_not_63 unsigned_push_bit_eq unsigned_drop_bit_eq
    by (simp add: drop_bit_eq_div push_bit_eq_mult take_bit_nat_eq_self)
qed

lemma slot_size_alt: "slot_size sz = unat (word_of_nat (max sz 64) + 63 :: u64) div 64 * 64"
proof -
  have "slot_size sz = unat ((word_of_nat (max sz 64) + 63 :: u64) AND NOT 63)"
    unfolding slot_size_def by (simp add: max_def)
  then show ?thesis unfolding unat_and_not_63 .
qed

lemma slot_size_dvd: "64 dvd slot_size sz"
  by (simp add: slot_size_alt)

lemma slot_size_eq: "sz \<le> 2 ^ 63 \<Longrightarrow> slot_size sz = (max sz 64 + 63) div 64 * 64"
  by (simp add: slot_size_alt unat_word_ariths unsigned_of_nat take_bit_nat_eq_self max_def)

lemma slot_size_ge: "sz \<le> 2 ^ 63 \<Longrightarrow> sz \<le> slot_size sz \<and> 64 \<le> slot_size sz \<and> slot_size sz < sz + 128"
  unfolding slot_size_eq by (auto simp: max_def)


section \<open>Invariant\<close>

abbreviation pool_slot :: "ObjectPool \<Rightarrow> nat" where
  "pool_slot s \<equiv> slot_size (sizeof_T s)"

text \<open>
  \<^verbatim>\<open>xs\<close> are the nodes in the free list and \<^verbatim>\<open>out\<close> the objects in use. The last two conjuncts
  are bounds under which no \<^verbatim>\<open>size_t\<close> computation of the pool wraps.
\<close>

definition pool_inv :: "ptr list \<Rightarrow> ptr set \<Rightarrow> ObjectPool \<Rightarrow> bool" where
  "pool_inv xs out s \<longleftrightarrow>
     bucket_ok kObjectPoolTlsCacheSize (mem s) (free_list s) (tls_cache s) xs out \<and>
     geometry (pool_slot s) (live s) (all_nodes xs (caches (tls_cache s)) out) \<and>
     sizeof_T s \<le> 2 ^ 63 \<and> pool_slot s * grow_batch s < size_t_mod"

lemma pool_invD:
  assumes "pool_inv xs out s"
  shows "bucket_ok kObjectPoolTlsCacheSize (mem s) (free_list s) (tls_cache s) xs out"
    and "geometry (pool_slot s) (live s) (all_nodes xs (caches (tls_cache s)) out)"
    and "sizeof_T s \<le> 2 ^ 63" and "pool_slot s * grow_batch s < size_t_mod"
  using assms unfolding pool_inv_def by blast+

lemma pool_slot_pos: "pool_inv xs out s \<Longrightarrow> 64 \<le> pool_slot s"
  using slot_size_ge pool_invD(3) by blast

lemma GrowPool_cases:
  obtains (fail) "alloc 64 ((pool_slot s * n) mod size_t_mod) (live s) = nullptr"
      "GrowPool alloc n s = s"
  | (block) b fl m where "b \<noteq> nullptr" "b = alloc 64 ((pool_slot s * n) mod size_t_mod) (live s)"
      "populate b (pool_slot s) n (free_list s) (mem s) = (fl, m)"
      "GrowPool alloc n s =
         s\<lparr>live := (b, (pool_slot s * n) mod size_t_mod) # live s,
           storage_blocks := storage_blocks s @ [b], free_list := fl, mem := m\<rparr>"
proof (cases "alloc 64 ((pool_slot s * n) mod size_t_mod) (live s) = nullptr")
  case True
  then show ?thesis using fail by (simp add: GrowPool_def pool_aligned_alloc_def Let_def)
next
  case False
  obtain fl m where "populate (alloc 64 ((pool_slot s * n) mod size_t_mod) (live s)) (pool_slot s) n
      (free_list s) (mem s) = (fl, m)" by fastforce
  with False show ?thesis
    using block by (simp add: GrowPool_def pool_aligned_alloc_def Let_def)
qed

lemma GrowPool_inv:
  assumes ok: "allocator_ok alloc" and inv: "pool_inv xs out s" and n: "pool_slot s * n < size_t_mod"
  shows "\<exists>ns. pool_inv (ns @ xs) out (GrowPool alloc n s) \<and>
           length ns = (if alloc 64 (pool_slot s * n) (live s) = nullptr then 0 else n)"
proof (cases rule: GrowPool_cases [of alloc s n])
  case fail
  then show ?thesis using inv n by (intro exI [of _ "[]"]) simp
next
  case (block b fl m)
  let ?sz = "pool_slot s" and ?N = "all_nodes xs (caches (tls_cache s)) out"
  define ns where "ns = slice b ?sz n"
  have sz: "0 < ?sz" using pool_slot_pos [OF inv] by linarith
  have mod: "(?sz * n) mod size_t_mod = ?sz * n" using n by simp
  have fresh: "\<forall>r \<in> set (live s). disjoint_region (b, ?sz * n) r" and al: "64 dvd b"
    using ok block(1,2) unfolding allocator_ok_def mod by metis+
  have bounds: "b \<le> q \<and> q + ?sz \<le> b + ?sz * n" if "q \<in> set ns" for q
    using slice_bounds that unfolding ns_def by blast
  have notin: "set ns \<inter> ?N = {}"
    using geometry_fresh_notin [OF pool_invD(2) [OF inv] sz fresh] bounds by blast
  note pop = bucket_populate [OF pool_invD(1) [OF inv] block(1) sz notin [unfolded ns_def] block(3),
      folded ns_def]
  have al64: "64 dvd q" if "q \<in> set ns" for q
    using that al slot_size_dvd unfolding ns_def slice_def by auto
  have nn: "q \<noteq> nullptr" if "q \<in> set ns" for q
    using nullptr_slice [OF block(1)] that unfolding ns_def by metis
  have dj: "disjoint_region (p, ?sz) (q, ?sz)" if "p \<in> set ns" "q \<in> set ns" "p \<noteq> q" for p q
    using slice_disjoint that unfolding ns_def by blast
  have "geometry ?sz ((b, ?sz * n) # live s) (set ns \<union> ?N)"
    by (rule geometry_add [OF pool_invD(2) [OF inv] fresh _ dj]) (use bounds al64 nn in blast)+
  then have "pool_inv (ns @ xs) out (GrowPool alloc n s)"
    using inv block(4) pop(1,2) mod unfolding pool_inv_def by simp
  moreover have "length ns = n" by (simp add: ns_def slice_def)
  ultimately show ?thesis using block(1,2) mod by auto
qed

lemma GrowPool_frame [simp]:
  "grow_batch (GrowPool alloc n s) = grow_batch s" "sizeof_T (GrowPool alloc n s) = sizeof_T s"
  "tls_cache (GrowPool alloc n s) = tls_cache s"
  by (cases rule: GrowPool_cases [of alloc s n]; simp)+

text \<open>The construction of a pool when no thread holds a cached node of an earlier one.\<close>

lemma construct_inv:
  assumes "allocator_ok alloc" and "\<And>u. cache_inv kObjectPoolTlsCacheSize (tls0 u)"
    and "\<And>u. u \<noteq> t \<Longrightarrow> cached (tls0 u) = []" and "szT \<le> 2 ^ 63"
    and "slot_size szT * cap < size_t_mod" and "slot_size szT * gb < size_t_mod"
  shows "\<exists>xs. pool_inv xs {} (ObjectPool_construct alloc t lockfree szT cap gb tls0 m0 live0) \<and>
           length xs = (if alloc 64 (slot_size szT * cap) live0 = nullptr then 0 else cap)"
proof -
  let ?s = "\<lparr>free_list = TreiberStack_init lockfree, storage_blocks = [], capacity = cap,
        grow_batch = gb, sizeof_T = szT, tls_cache = tls0(t := cache_Reset (tls0 t)),
        mem = m0, live = live0\<rparr>"
  have c: "caches (tls_cache ?s) = (\<lambda>_. [])"
    using assms(3) by (auto simp: caches_def)
  have inv: "cache_inv kObjectPoolTlsCacheSize (tls_cache ?s u)" for u
    using assms(2) [of u] assms(2) [of t] by simp
  have "pool_inv [] {} ?s"
    unfolding pool_inv_def bucket_ok_def c using inv assms(4,6)
    by (simp add: owners_def geometry_def all_nodes_def)
  then show ?thesis
    using GrowPool_inv [OF assms(1), of "[]" "{}" ?s cap] assms(5)
    unfolding ObjectPool_construct_def by auto
qed


section \<open>Acquire and release\<close>

text \<open>The attempts of \<^verbatim>\<open>Acquire\<close>: the thread's cache, the free list (twice), the system.\<close>

lemma pop_attempt:
  assumes inv: "pool_inv xs out s" and pop: "TreiberStack_Pop (free_list s) (mem s) = (p, fl)"
  obtains (none) "xs = []" "p = nullptr" "s\<lparr>free_list := fl\<rparr> = s"
  | (node) xs' where "xs = p # xs'" "p \<noteq> nullptr" "p \<notin> out"
      "pool_inv xs' (insert p out) (s\<lparr>free_list := fl\<rparr>)"
proof (cases rule: bucket_list_pop [OF pool_invD(1) [OF inv] pop])
  case 1
  then show ?thesis using none by simp
next
  case (2 xs')
  then have "pool_inv xs' (insert p out) (s\<lparr>free_list := fl\<rparr>)"
    using inv unfolding pool_inv_def by simp
  then show ?thesis using node [of xs'] 2(1-3) by simp
qed

lemma cache_attempt:
  assumes inv: "pool_inv xs out s" and pop: "ThreadCache_Pop (tls_cache s t) = (p, c)"
  obtains (none) "cached (tls_cache s t) = []" "p = nullptr" "s\<lparr>tls_cache := (tls_cache s)(t := c)\<rparr> = s"
  | (node) ys where "cached (tls_cache s t) = ys @ [p]" "p \<noteq> nullptr" "p \<notin> out"
      "pool_inv xs (insert p out) (s\<lparr>tls_cache := (tls_cache s)(t := c)\<rparr>)"
proof (cases rule: bucket_cache_pop [OF pool_invD(1) [OF inv] pop [unfolded ThreadCache_Pop_def]])
  case 1
  then show ?thesis using none by simp
next
  case (2 ys)
  then have "pool_inv xs (insert p out) (s\<lparr>tls_cache := (tls_cache s)(t := c)\<rparr>)"
    using inv unfolding pool_inv_def by simp
  then show ?thesis using node [of ys] 2(1-3) by simp
qed

lemma system_attempt:
  assumes ok: "allocator_ok alloc" and inv: "pool_inv xs out s"
    and al: "pool_aligned_alloc alloc 64 (pool_slot s) s = (p, s')"
  shows "p = nullptr \<and> s' = s \<or> p \<noteq> nullptr \<and> p \<notin> out \<and> pool_inv xs (insert p out) s'"
proof (cases "p = nullptr")
  case True
  then show ?thesis using al by (auto simp: pool_aligned_alloc_def Let_def split: if_splits)
next
  case False
  let ?N = "all_nodes xs (caches (tls_cache s)) out"
  have s': "s' = s\<lparr>live := (p, pool_slot s) # live s\<rparr>" and p: "p = alloc 64 (pool_slot s) (live s)"
    using al False by (auto simp: pool_aligned_alloc_def Let_def split: if_splits)
  have fresh: "\<forall>r \<in> set (live s). disjoint_region (p, pool_slot s) r" and al64: "64 dvd p"
    using ok False unfolding allocator_ok_def p by metis+
  have sz: "0 < pool_slot s" using pool_slot_pos [OF inv] by linarith
  have new: "p \<notin> ?N" using geometry_fresh_notin [OF pool_invD(2) [OF inv] sz fresh] by simp
  note own = bucket_fresh [OF pool_invD(1) [OF inv] new False]
  have "geometry (pool_slot s) ((p, pool_slot s) # live s) ({p} \<union> ?N)"
    using geometry_add [OF pool_invD(2) [OF inv] fresh, of "{p}"] al64 False by simp
  then have "pool_inv xs (insert p out) s'"
    using inv own unfolding pool_inv_def s' by simp
  then show ?thesis using False new by (simp add: all_nodes_def)
qed

lemma Acquire_inv:
  assumes ok: "allocator_ok alloc" and inv: "pool_inv xs out s" and acq: "Acquire alloc t s = (p, s')"
  shows "p = nullptr \<and> (\<exists>xs'. pool_inv xs' out s') \<or>
         p \<noteq> nullptr \<and> p \<notin> out \<and> (\<exists>xs'. pool_inv xs' (insert p out) s')"
proof -
  obtain n1 c where c: "ThreadCache_Pop (tls_cache s t) = (n1, c)" by fastforce
  obtain n2 fl2 where f2: "TreiberStack_Pop (free_list s) (mem s) = (n2, fl2)" by fastforce
  let ?g = "GrowPool alloc (grow_batch s) s"
  obtain n3 fl3 where f3: "TreiberStack_Pop (free_list ?g) (mem ?g) = (n3, fl3)" by fastforce
  note defs = Acquire_def Let_def c f2 f3
  show ?thesis
  proof (cases rule: cache_attempt [OF inv c])
    case 2
    then show ?thesis using acq by (auto simp: defs)
  next
    case 1
    note A = 1
    show ?thesis
    proof (cases rule: pop_attempt [OF inv f2])
      case 2
      then show ?thesis using acq A by (auto simp: defs)
    next
      case 1
      note B = 1
      obtain ns where gi: "pool_inv (ns @ xs) out ?g"
        using GrowPool_inv [OF ok inv pool_invD(4) [OF inv]] by blast
      show ?thesis
      proof (cases rule: pop_attempt [OF gi f3])
        case 2
        have "p = n3" "s' = ?g\<lparr>free_list := fl3\<rparr>" using acq A B 2(2) by (simp_all add: defs)
        with 2 show ?thesis by blast
      next
        case 1
        then have "pool_aligned_alloc alloc 64 (pool_slot ?g) ?g = (p, s')"
          using acq A B by (simp add: defs)
        from system_attempt [OF ok gi this] show ?thesis using gi by blast
      qed
    qed
  qed
qed

lemma ReleaseMemory_inv:
  assumes inv: "pool_inv xs out s" and p: "p \<in> out"
  shows "\<exists>s' xs' ys. ReleaseMemory t p s = Some s' \<and> pool_inv xs' (out - {p}) s' \<and>
           cached (tls_cache s' t) = ys @ [p]"
proof -
  have cap: "4 \<le> kObjectPoolTlsCacheSize" by (simp add: size_consts)
  obtain c fl m xs' ys where r: "release_node kObjectPoolTlsCacheSize p (tls_cache s t) (free_list s)
      (mem s) = Some (c, fl, m)"
    "bucket_ok kObjectPoolTlsCacheSize m fl ((tls_cache s)(t := c)) xs' (out - {p})"
    "cached c = ys @ [p]"
    "all_nodes xs' (caches ((tls_cache s)(t := c))) (out - {p}) =
       all_nodes xs (caches (tls_cache s)) out"
    using bucket_release [OF pool_invD(1) [OF inv] cap p, of t] by metis
  let ?s = "s\<lparr>tls_cache := (tls_cache s)(t := c), free_list := fl, mem := m\<rparr>"
  have "ReleaseMemory t p s = Some ?s"
    using bucket_out_nonnull [OF pool_invD(1) [OF inv] p] by (simp add: ReleaseMemory_def r(1))
  moreover have "pool_inv xs' (out - {p}) ?s"
    using inv r(2,4) unfolding pool_inv_def by simp
  ultimately show ?thesis using r(3) by auto
qed

text \<open>
  A client that writes into an object it holds, the destructor included, does not disturb
  the pool: its only effect outside \<^verbatim>\<open>out\<close> would be on other memory.
\<close>

lemma mem_write_inv:
  assumes "pool_inv xs out s" and "same_outside out (mem s) m"
  shows "pool_inv xs out (s\<lparr>mem := m\<rparr>)"
  using assms(1) bucket_frame [OF pool_invD(1) [OF assms(1)] assms(2)
      ownersD(5) [OF bucket_okD(2) [OF pool_invD(1) [OF assms(1)]]]]
  unfolding pool_inv_def by simp

lemma count_loop_chain: "chain h p xs \<Longrightarrow> count_loop k h p = min k (length xs)"
proof (induction k arbitrary: p xs)
  case (Suc k)
  then show ?case by (cases xs) auto
qed simp


section \<open>Reachable pools\<close>

text \<open>
  Pools as a program can bring them about: \<^verbatim>\<open>out\<close> are the objects that \<^verbatim>\<open>Acquire\<close> returned and
  that were not released since. Between the calls the owner of an object writes into it.
\<close>

abbreviation no_cached :: "tid \<Rightarrow> pool_cache" where
  "no_cached \<equiv> \<lambda>_. cache_init kObjectPoolTlsCacheSize"

inductive pool_reach :: "allocator \<Rightarrow> ptr set \<Rightarrow> ObjectPool \<Rightarrow> bool" for alloc :: allocator where
  construct: "szT \<le> 2 ^ 63 \<Longrightarrow> slot_size szT * cap < size_t_mod \<Longrightarrow> slot_size szT * gb < size_t_mod \<Longrightarrow>
    pool_reach alloc {} (ObjectPool_construct alloc t lockfree szT cap gb no_cached m0 live0)"
| acquire: "pool_reach alloc out s \<Longrightarrow> Acquire alloc t s = (p, s') \<Longrightarrow>
    pool_reach alloc (if p = nullptr then out else insert p out) s'"
| release: "pool_reach alloc out s \<Longrightarrow> p \<in> out \<Longrightarrow> same_outside {p} (mem s) (dtor p (mem s)) \<Longrightarrow>
    Release dtor t p s = Some s' \<Longrightarrow> pool_reach alloc (out - {p}) s'"
| client_write: "pool_reach alloc out s \<Longrightarrow> p \<in> out \<Longrightarrow>
    pool_reach alloc out (s\<lparr>mem := write_bytes p bs (mem s)\<rparr>)"

lemma pool_reach_inv:
  assumes ok: "allocator_ok alloc" and "pool_reach alloc out s"
  shows "\<exists>xs. pool_inv xs out s"
  using assms(2)
proof (induction rule: pool_reach.induct)
  case (construct szT cap gb t lockfree m0 live0)
  then show ?case
    using construct_inv [OF ok, of no_cached t szT cap gb lockfree m0 live0] by auto
next
  case (acquire out s t p s')
  then show ?case using Acquire_inv [OF ok] by (metis (full_types))
next
  case (release out s p dtor t s')
  then obtain xs where inv: "pool_inv xs out s" by blast
  have "same_outside out (mem s) (dtor p (mem s))"
    using release.hyps(2,3) unfolding same_outside_def by auto
  note rel = ReleaseMemory_inv [OF mem_write_inv [OF inv this] release.hyps(2), of t]
  have "p \<noteq> nullptr" using bucket_out_nonnull [OF pool_invD(1) [OF inv] release.hyps(2)] .
  then show ?case using rel release.hyps(4) unfolding Release_def by auto
next
  case (client_write out s p bs)
  then obtain xs where inv: "pool_inv xs out s" by blast
  have "same_outside out (mem s) (write_bytes p bs (mem s))"
    using client_write.hyps(2) unfolding same_outside_def by auto
  from mem_write_inv [OF inv this] show ?case by blast
qed

lemma acquire_cached:
  assumes "cache_inv kObjectPoolTlsCacheSize (tls_cache s t)" and "cached (tls_cache s t) = ys @ [p]"
    and "p \<noteq> nullptr"
  shows "fst (Acquire alloc t s) = p"
  using assms(1)
proof (cases rule: cache_Pop_cases)
  case (node q c')
  then show ?thesis using assms(2,3) by (simp add: Acquire_def ThreadCache_Pop_def)
qed (use assms(2) in simp)

text \<open>
  C6: Exclusive ownership. Whatever calls of the pool and whatever writes of the owners came
  before, on any threads and with either kind of free list, an object that \<^verbatim>\<open>Acquire\<close> returns is
  not in use by anyone; it is a 64-byte aligned slot inside live memory of the allocator, and
  its slot overlaps the slot of no object in use.
\<close>

theorem acquire_exclusive:
  assumes "allocator_ok alloc" and "pool_reach alloc out s" and "Acquire alloc t s = (p, s')"
    and "p \<noteq> nullptr"
  shows "p \<notin> out \<and> placed (slot_size (sizeof_T s')) (live s') p \<and>
    (\<forall>q \<in> out. disjoint_region (p, slot_size (sizeof_T s')) (q, slot_size (sizeof_T s')))"
proof -
  obtain xs where inv: "pool_inv xs out s" using pool_reach_inv assms(1,2) by blast
  then obtain xs' where p: "p \<notin> out" and inv': "pool_inv xs' (insert p out) s'"
    using Acquire_inv [OF assms(1) inv assms(3)] assms(4) by blast
  let ?N = "all_nodes xs' (caches (tls_cache s')) (insert p out)"
  have g: "geometry (pool_slot s') (live s') ?N" by (rule pool_invD(2) [OF inv'])
  have "p \<in> ?N" and "\<And>q. q \<in> out \<Longrightarrow> q \<in> ?N" by (simp_all add: all_nodes_def)
  then show ?thesis using p g unfolding geometry_def by metis
qed

theorem acquire_exclusive_witness:
  "let s0 = ObjectPool_construct bump_alloc 0 True 96 2 2 no_cached \<lparr>nx = \<lambda>_. 0, bytes = \<lambda>_ _. 0\<rparr> [];
       (p, s1) = Acquire bump_alloc 0 s0; (q, s2) = Acquire bump_alloc 1 s1
   in p = 64 \<and> q = 192 \<and> q \<notin> {p} \<and> disjoint_region (q, 128) (p, 128)"
proof -
  define s0 where "s0 = ObjectPool_construct bump_alloc 0 True 96 2 2 no_cached
    \<lparr>nx = \<lambda>_. 0, bytes = \<lambda>_ _. 0\<rparr> []"
  have sz: "slot_size 96 = 128" by (simp add: slot_size_eq)
  obtain p s1 where a1: "Acquire bump_alloc 0 s0 = (p, s1)" by fastforce
  obtain q s2 where a2: "Acquire bump_alloc 1 s1 = (q, s2)" by fastforce
  have ev: "p = 64 \<and> q = 192 \<and> sizeof_T s2 = 96"
    using a1 a2 unfolding s0_def
    by (auto simp: ObjectPool_construct_def GrowPool_def pool_aligned_alloc_def sz bump_alloc_def Let_def
        populate_def numeral_2_eq_2 Acquire_def ThreadCache_Pop_def cache_Pop_def cache_Reset_def
        cache_init_def TreiberStack_init_def split: prod.splits if_splits)
  have "pool_reach bump_alloc {} s0" unfolding s0_def by (intro pool_reach.construct) (simp_all add: sz)
  from pool_reach.acquire [OF this a1] ev have "pool_reach bump_alloc {p} s1" by simp
  from acquire_exclusive [OF bump_alloc_ok this a2] show ?thesis
    using ev a1 a2 sz unfolding s0_def [symmetric] by simp
qed

text \<open>
  \<^verbatim>\<open>ReleaseMemory\<close> always ends, its search for the tail of the flushed chain included, and
  the next \<^verbatim>\<open>Acquire\<close> of the same thread returns the object just released (LIFO reuse).
\<close>

theorem release_acquire_roundtrip:
  assumes "allocator_ok alloc" and "pool_reach alloc out s" and "p \<in> out"
  shows "\<exists>s'. ReleaseMemory t p s = Some s' \<and> fst (Acquire alloc t s') = p"
proof -
  obtain xs where inv: "pool_inv xs out s" using pool_reach_inv assms(1,2) by blast
  obtain s' xs' ys where r: "ReleaseMemory t p s = Some s'" "pool_inv xs' (out - {p}) s'"
      "cached (tls_cache s' t) = ys @ [p]" using ReleaseMemory_inv [OF inv assms(3)] by blast
  have "p \<noteq> nullptr" using bucket_out_nonnull [OF pool_invD(1) [OF inv] assms(3)] .
  then show ?thesis using r acquire_cached [OF bucket_okD(3) [OF pool_invD(1) [OF r(2)]] r(3)] by blast
qed

text \<open>A pool with one free slot, the first one it hands out, and the state after that.\<close>

definition small_pool :: ObjectPool where
  "small_pool = ObjectPool_construct bump_alloc 0 True 96 1 1 no_cached \<lparr>nx = \<lambda>_. 0, bytes = \<lambda>_ _. 0\<rparr> []"

lemma small_pool_reach: "pool_reach bump_alloc {} small_pool"
  unfolding small_pool_def by (intro pool_reach.construct) (simp_all add: slot_size_eq)

lemmas pool_eval = small_pool_def ObjectPool_construct_def GrowPool_def pool_aligned_alloc_def
  slot_size_eq bump_alloc_def Let_def populate_def numeral_2_eq_2 Acquire_def ThreadCache_Pop_def
  cache_Pop_def cache_Reset_def cache_init_def TreiberStack_init_def

lemma small_pool_acquire: "fst (Acquire bump_alloc 0 small_pool) = 64"
  by (simp add: pool_eval)

theorem release_acquire_roundtrip_witness:
  "let s1 = snd (Acquire bump_alloc 0 small_pool)
   in \<exists>s'. ReleaseMemory 3 64 s1 = Some s' \<and> fst (Acquire bump_alloc 3 s') = 64"
proof -
  have "Acquire bump_alloc 0 small_pool = (64, snd (Acquire bump_alloc 0 small_pool))"
    using small_pool_acquire by (simp add: prod_eq_iff)
  from pool_reach.acquire [OF small_pool_reach this]
  have "pool_reach bump_alloc {64} (snd (Acquire bump_alloc 0 small_pool))" by simp
  from release_acquire_roundtrip [OF bump_alloc_ok this, of 64 3] show ?thesis by simp
qed

lemma Acquire_null:
  assumes "allocator_ok alloc" and inv: "pool_inv xs out s"
  shows "fst (Acquire alloc t s) = nullptr \<longleftrightarrow>
    cached (tls_cache s t) = [] \<and> TreiberStack_Empty (free_list s) \<and>
    (grow_batch s = 0 \<or> alloc 64 (slot_size (sizeof_T s) * grow_batch s) (live s) = nullptr) \<and>
    alloc 64 (slot_size (sizeof_T s)) (live (GrowPool alloc (grow_batch s) s)) = nullptr"
proof -
  obtain n1 c where c: "ThreadCache_Pop (tls_cache s t) = (n1, c)" by fastforce
  obtain n2 fl2 where f2: "TreiberStack_Pop (free_list s) (mem s) = (n2, fl2)" by fastforce
  let ?g = "GrowPool alloc (grow_batch s) s"
  obtain n3 fl3 where f3: "TreiberStack_Pop (free_list ?g) (mem ?g) = (n3, fl3)" by fastforce
  note defs = Acquire_def Let_def c f2 f3
  have empty: "TreiberStack_Empty (free_list s) \<longleftrightarrow> xs = []"
    by (rule treiber.empty_list [OF bucket_okD(1) [OF pool_invD(1) [OF inv]]])
  obtain ns where gi: "pool_inv (ns @ xs) out ?g" and ns: "length ns =
      (if alloc 64 (pool_slot s * grow_batch s) (live s) = nullptr then 0 else grow_batch s)"
    using GrowPool_inv [OF assms(1) inv pool_invD(4) [OF inv]] by blast
  have ns0: "ns = [] \<longleftrightarrow> grow_batch s = 0 \<or> alloc 64 (pool_slot s * grow_batch s) (live s) = nullptr"
    using ns by (cases ns) (auto split: if_splits)
  show ?thesis
  proof (cases rule: cache_attempt [OF inv c])
    case 2
    then show ?thesis by (simp add: defs)
  next
    case 1
    note A = 1
    show ?thesis
    proof (cases rule: pop_attempt [OF inv f2])
      case 2
      then show ?thesis using A empty by (simp add: defs)
    next
      case 1
      note B = 1
      show ?thesis
      proof (cases rule: pop_attempt [OF gi f3])
        case (2 xs')
        then show ?thesis using A B ns0 empty by (simp add: defs)
      next
        case 1
        then show ?thesis using A B ns0 empty by (simp add: defs pool_aligned_alloc_def)
      qed
    qed
  qed
qed

text \<open>
  When \<^verbatim>\<open>Acquire\<close> fails. It returns null exactly when the thread's cache and the free list
  are empty, growing the pool gave nothing (its batch is 0 or the allocator failed) and the
  last-resort allocation of one slot failed too.
\<close>

theorem acquire_null_iff:
  assumes "allocator_ok alloc" and "pool_reach alloc out s"
  shows "fst (Acquire alloc t s) = nullptr \<longleftrightarrow>
    cached (tls_cache s t) = [] \<and> TreiberStack_Empty (free_list s) \<and>
    (grow_batch s = 0 \<or> alloc 64 (slot_size (sizeof_T s) * grow_batch s) (live s) = nullptr) \<and>
    alloc 64 (slot_size (sizeof_T s)) (live (GrowPool alloc (grow_batch s) s)) = nullptr"
proof -
  obtain xs where "pool_inv xs out s" using pool_reach_inv assms by blast
  from Acquire_null [OF assms(1) this] show ?thesis .
qed

theorem acquire_null_iff_witness:
  "fst (Acquire (\<lambda>_ _ _. nullptr) 5
     (ObjectPool_construct (\<lambda>_ _ _. nullptr) 0 False 96 8 8 no_cached
        \<lparr>nx = \<lambda>_. 0, bytes = \<lambda>_ _. 0\<rparr> [])) = nullptr"
proof -
  have ok: "allocator_ok (\<lambda>_ _ _. nullptr)" by (simp add: allocator_ok_def)
  have reach: "pool_reach (\<lambda>_ _ _. nullptr) {}
      (ObjectPool_construct (\<lambda>_ _ _. nullptr) 0 False 96 8 8 no_cached
        \<lparr>nx = \<lambda>_. 0, bytes = \<lambda>_ _. 0\<rparr> [])"
    by (intro pool_reach.construct) (simp_all add: slot_size_eq)
  show ?thesis
    using acquire_null_iff [OF ok reach, of 5]
    by (simp add: ObjectPool_construct_def GrowPool_def pool_aligned_alloc_def TreiberStack_init_def
        MutexStack_Empty_def Let_def)
qed

text \<open>
  A freshly built pool holds as many free objects as its capacity (the diagnostic counter
  stops at a million), provided the allocator served the first block.
\<close>

theorem construct_free_count:
  assumes "allocator_ok alloc" and "szT \<le> 2 ^ 63" and "slot_size szT * cap < size_t_mod"
    and "slot_size szT * gb < size_t_mod" and "alloc 64 (slot_size szT * cap) live0 \<noteq> nullptr"
  shows "ApproximateFreeCount (ObjectPool_construct alloc t lockfree szT cap gb no_cached m0 live0) =
    min 1000000 cap"
  using construct_inv [OF assms(1) _ _ assms(2-4), of no_cached t lockfree m0 live0] assms(5)
    count_loop_chain [OF bucket_okD(1) [OF pool_invD(1)]] unfolding ApproximateFreeCount_def by fastforce

theorem construct_free_count_witness:
  "ApproximateFreeCount (ObjectPool_construct bump_alloc 7 False 200 4096 1024 no_cached
     \<lparr>nx = \<lambda>_. 0, bytes = \<lambda>_ _. 0\<rparr> [(64, 1000)]) = 4096"
  using construct_free_count [OF bump_alloc_ok, of 200 4096 1024 "[(64, 1000)]" 7 False
      "\<lparr>nx = \<lambda>_. 0, bytes = \<lambda>_ _. 0\<rparr>"]
  by (simp add: slot_size_eq bump_alloc_def)

text \<open>
  Stale caches. The constructor empties only the cache of the thread that runs it. When
  another thread still caches a node of an earlier pool of the same type, its first \<^verbatim>\<open>Acquire\<close>
  from the new pool returns that old node, wherever it was.
\<close>

theorem reconstruct_stale_cache:
  assumes "cache_inv kObjectPoolTlsCacheSize (tls0 u)" and "cached (tls0 u) = ys @ [p]"
    and "p \<noteq> nullptr" and "u \<noteq> t"
  shows "fst (Acquire alloc u (ObjectPool_construct alloc t lockfree szT cap gb tls0 m0 live0)) = p"
proof -
  have "tls_cache (ObjectPool_construct alloc t lockfree szT cap gb tls0 m0 live0) u = tls0 u"
    using assms(4) by (simp add: ObjectPool_construct_def)
  then show ?thesis using acquire_cached [of _ u] assms(1-3) by metis
qed

text \<open>
  The witness: thread 2 takes and releases the only object of a first pool, the pool is
  destroyed, thread 0 builds a second one at another address. The object that thread 2
  gets then lies in no live region.
\<close>

theorem reconstruct_stale_cache_witness:
  "let (p, s1) = Acquire bump_alloc 2 small_pool;
       s2 = the (ReleaseMemory 2 p s1);
       heap = (4096, 4096) # ObjectPool_destroy s2;
       s3 = ObjectPool_construct bump_alloc 0 True 96 1 1 (tls_cache s2) (mem s2) heap
   in fst (Acquire bump_alloc 2 s3) = p \<and> \<not> placed 128 (live s3) p"
proof -
  have a: "fst (Acquire bump_alloc 2 small_pool) = 64" by (simp add: pool_eval)
  define s1 where "s1 = snd (Acquire bump_alloc 2 small_pool)"
  have acq: "Acquire bump_alloc 2 small_pool = (64, s1)" using a by (simp add: prod_eq_iff s1_def)
  have r1: "pool_reach bump_alloc {64} s1"
    using pool_reach.acquire [OF small_pool_reach acq] by simp
  obtain xs where inv: "pool_inv xs {64} s1" using pool_reach_inv [OF bump_alloc_ok r1] by blast
  obtain s2 xs' ys where r: "ReleaseMemory 2 64 s1 = Some s2" "pool_inv xs' ({64} - {64}) s2"
      "cached (tls_cache s2 2) = ys @ [64]" using ReleaseMemory_inv [OF inv, of 64] by blast
  have l: "ObjectPool_destroy s2 = []"
    using r(1) by (simp add: s1_def pool_eval ReleaseMemory_def release_node_def cache_Push_def
        size_consts ObjectPool_destroy_def) (auto simp: pool_eval)
  let ?s3 = "ObjectPool_construct bump_alloc 0 True 96 1 1 (tls_cache s2) (mem s2) [(4096, 4096)]"
  have "fst (Acquire bump_alloc 2 ?s3) = 64"
    by (rule reconstruct_stale_cache [of "tls_cache s2" 2, OF bucket_okD(3) [OF pool_invD(1) [OF r(2)]] r(3)]) simp_all
  moreover have "live ?s3 = [(8256, 128), (4096, 4096)]"
    by (simp add: ObjectPool_construct_def GrowPool_def pool_aligned_alloc_def slot_size_eq
        bump_alloc_def Let_def split: prod.split)
  ultimately show ?thesis
    unfolding acq Let_def prod.case r(1) option.sel l by (simp add: placed_def)
qed

end
