(* ===== verification/Buffer_Pool.thy ===== *)
theory Buffer_Pool
  imports Pool_Cache
begin

text \<open>
  \<^verbatim>\<open>async_io_pool.hpp\<close>, \<^verbatim>\<open>BufferPool\<close>: eleven size classes, each a bucket of equal blocks with a
  shared free list and a cache per thread. The operations run one after the other, on any
  threads.
\<close>

section \<open>State and operations\<close>

text \<open>
  The members of the pool, arrays with one element per size class; the thread-local caches,
  the memory of the blocks and the live heap regions.
\<close>

record BufferPool =
  free_lists :: "nat \<Rightarrow> TreiberStack"
  class_initialized :: "nat \<Rightarrow> bool"
  slabs :: "nat \<Rightarrow> ptr list"
  class_tls :: "nat \<Rightarrow> tid \<Rightarrow> pool_cache"
  buf_mem :: pmem
  buf_live :: "region list"

fun class_loop :: "nat \<Rightarrow> nat list \<Rightarrow> nat \<Rightarrow> nat" where
  "class_loop i [] nbytes = i"
| "class_loop i (c # cs) nbytes = (if nbytes \<le> c then i else class_loop (Suc i) cs nbytes)"

definition ClassForSize :: "nat \<Rightarrow> nat" where
  "ClassForSize nbytes = class_loop 0 kBufferPoolClassSizes nbytes"

definition BufferPool_construct ::
    "bool \<Rightarrow> (nat \<Rightarrow> tid \<Rightarrow> pool_cache) \<Rightarrow> pmem \<Rightarrow> region list \<Rightarrow> BufferPool" where
  "BufferPool_construct lockfree tls0 m0 live0 =
     \<lparr>free_lists = \<lambda>_. TreiberStack_init lockfree, class_initialized = \<lambda>_. False, slabs = \<lambda>_. [],
      class_tls = tls0, buf_mem = m0, buf_live = live0\<rparr>"

definition BufferPool_destroy :: "BufferPool \<Rightarrow> region list" where
  "BufferPool_destroy s =
     filter (\<lambda>r. fst r \<notin> (\<Union>i \<in> {..<kBufferPoolNumClasses}. set (slabs s i))) (buf_live s)"

definition buf_aligned_alloc ::
    "allocator \<Rightarrow> nat \<Rightarrow> nat \<Rightarrow> BufferPool \<Rightarrow> ptr \<times> BufferPool" where
  "buf_aligned_alloc alloc al sz s =
     (let p = alloc al sz (buf_live s)
      in if p = nullptr then (nullptr, s) else (p, s\<lparr>buf_live := (p, sz) # buf_live s\<rparr>))"

text \<open>The size of a block of a class: the class size and room for a \<^verbatim>\<open>PoolNode\<close>, 64 bytes.\<close>

definition alloc_size_of :: "nat \<Rightarrow> nat" where
  "alloc_size_of idx = kBufferPoolClassSizes ! idx + 64"

definition num_blocks :: "nat \<Rightarrow> nat" where
  "num_blocks idx =
     (if 4096 \<le> kBufferPoolClassSizes ! idx then 4 * 1024 * 1024 else 1 * 1024 * 1024)
       div alloc_size_of idx"

definition EnsureClassPopulated :: "allocator \<Rightarrow> nat \<Rightarrow> BufferPool \<Rightarrow> BufferPool" where
  "EnsureClassPopulated alloc idx s =
     (if class_initialized s idx then s
      else let s0 = s\<lparr>class_initialized := (class_initialized s)(idx := True)\<rparr>;
               (slab, s1) = buf_aligned_alloc alloc 64 (num_blocks idx * alloc_size_of idx) s0
           in if slab = nullptr then s1
              else let (fl, m) = populate slab (alloc_size_of idx) (num_blocks idx)
                                   (free_lists s1 idx) (buf_mem s1)
                   in s1\<lparr>slabs := (slabs s1)(idx := slabs s1 idx @ [slab]),
                         free_lists := (free_lists s1)(idx := fl), buf_mem := m\<rparr>)"

definition AllocateFromSystem :: "allocator \<Rightarrow> nat \<Rightarrow> BufferPool \<Rightarrow> ptr \<times> BufferPool" where
  "AllocateFromSystem alloc idx s = buf_aligned_alloc alloc 64 (alloc_size_of idx) s"

definition Allocate :: "allocator \<Rightarrow> tid \<Rightarrow> nat \<Rightarrow> BufferPool \<Rightarrow> ptr \<times> BufferPool" where
  "Allocate alloc t nbytes s =
     (let idx = ClassForSize nbytes
      in if kBufferPoolNumClasses \<le> idx then (nullptr, s)
         else let (buf, c) = ClassCache_Pop (class_tls s idx t);
                  s1 = s\<lparr>class_tls := (class_tls s)(idx := (class_tls s idx)(t := c))\<rparr>
              in if buf \<noteq> nullptr then (buf, s1)
                 else let (node, fl) = TreiberStack_Pop (free_lists s1 idx) (buf_mem s1);
                          s2 = s1\<lparr>free_lists := (free_lists s1)(idx := fl)\<rparr>
                      in if node \<noteq> nullptr then (node, s2)
                         else let s3 = EnsureClassPopulated alloc idx s2;
                                  (node, fl) = TreiberStack_Pop (free_lists s3 idx) (buf_mem s3);
                                  s4 = s3\<lparr>free_lists := (free_lists s3)(idx := fl)\<rparr>
                              in if node \<noteq> nullptr then (node, s4)
                                 else AllocateFromSystem alloc idx s4)"

text \<open>\<^verbatim>\<open>std::free\<close> takes the block that starts at the pointer out of the live regions.\<close>

definition heap_free :: "ptr \<Rightarrow> region list \<Rightarrow> region list" where
  "heap_free p live = filter (\<lambda>r. fst r \<noteq> p) live"

definition Deallocate :: "tid \<Rightarrow> ptr \<Rightarrow> nat \<Rightarrow> BufferPool \<Rightarrow> BufferPool option" where
  "Deallocate t p nbytes s =
     (if p = nullptr then Some s
      else let idx = ClassForSize nbytes
           in if kBufferPoolNumClasses \<le> idx then Some (s\<lparr>buf_live := heap_free p (buf_live s)\<rparr>)
              else case release_node kBufferPoolTlsCacheSize p (class_tls s idx t)
                          (free_lists s idx) (buf_mem s) of
                     None \<Rightarrow> None
                   | Some (c, fl, m) \<Rightarrow>
                       Some (s\<lparr>class_tls := (class_tls s)(idx := (class_tls s idx)(t := c)),
                               free_lists := (free_lists s)(idx := fl), buf_mem := m\<rparr>))"

section \<open>Size classes\<close>

lemma class_loop_bounds: "i \<le> class_loop i cs b \<and> class_loop i cs b \<le> i + length cs"
proof (induction cs arbitrary: i)
  case (Cons c cs)
  show ?case using Cons.IH [of "Suc i"] by auto
qed simp

lemma class_loop_found:
  "class_loop i cs b < i + length cs \<Longrightarrow>
     b \<le> cs ! (class_loop i cs b - i) \<and> (\<forall>j < class_loop i cs b - i. cs ! j < b)"
proof (induction cs arbitrary: i)
  case (Cons c cs)
  show ?case
  proof (cases "b \<le> c")
    case False
    have b: "Suc i \<le> class_loop (Suc i) cs b" using class_loop_bounds by blast
    then obtain d where d: "class_loop (Suc i) cs b = Suc i + d" using nat_le_iff_add by blast
    have "cs ! j < b" if "j < d" for j using Cons.IH [of "Suc i"] Cons.prems False d that by simp
    moreover have "b \<le> cs ! d" using Cons.IH [of "Suc i"] Cons.prems False d by simp
    ultimately show ?thesis using False d by (auto simp: nth_Cons split: nat.split)
  qed simp
qed simp

lemma class_loop_none: "class_loop i cs b = i + length cs \<longleftrightarrow> (\<forall>c \<in> set cs. c < b)"
proof (induction cs arbitrary: i)
  case (Cons c cs)
  then show ?case using Cons.IH [of "Suc i"] by (auto simp: not_le)
qed simp

lemma num_classes: "kBufferPoolNumClasses = length kBufferPoolClassSizes"
  by (simp add: size_consts)

lemma ClassForSize_lt: "ClassForSize b < kBufferPoolNumClasses \<longleftrightarrow> b \<le> kBufferPoolMaxPooledSize"
proof -
  have "ClassForSize b \<noteq> kBufferPoolNumClasses \<longleftrightarrow> \<not> (\<forall>c \<in> set kBufferPoolClassSizes. c < b)"
    using class_loop_none [of 0 kBufferPoolClassSizes b] unfolding ClassForSize_def num_classes by simp
  also have "\<dots> \<longleftrightarrow> b \<le> kBufferPoolMaxPooledSize" by (auto simp: size_consts)
  finally show ?thesis
    using class_loop_bounds [of 0 kBufferPoolClassSizes b] unfolding ClassForSize_def num_classes
    by linarith
qed

text \<open>
  C35: \<^verbatim>\<open>ClassForSize\<close> picks the smallest class that is large enough, and its answer is the
  number of classes exactly when the request is above \<^verbatim>\<open>kMaxPooledSize\<close>.
\<close>

theorem ClassForSize_smallest:
  "if nbytes \<le> kBufferPoolMaxPooledSize
   then ClassForSize nbytes = (LEAST i. i < kBufferPoolNumClasses \<and> nbytes \<le> kBufferPoolClassSizes ! i)
   else ClassForSize nbytes = kBufferPoolNumClasses"
proof (cases "nbytes \<le> kBufferPoolMaxPooledSize")
  case True
  let ?c = "ClassForSize nbytes"
  have lt: "?c < kBufferPoolNumClasses" using True ClassForSize_lt by blast
  then have f: "nbytes \<le> kBufferPoolClassSizes ! ?c" "\<And>j. j < ?c \<Longrightarrow> kBufferPoolClassSizes ! j < nbytes"
    using class_loop_found [of 0 kBufferPoolClassSizes nbytes]
    unfolding ClassForSize_def num_classes by simp_all
  have "(LEAST i. i < kBufferPoolNumClasses \<and> nbytes \<le> kBufferPoolClassSizes ! i) = ?c"
    by (rule Least_equality) (use lt f in \<open>auto simp: not_le [symmetric]\<close>)
  then show ?thesis using True by simp
next
  case False
  then show ?thesis
    using ClassForSize_lt [of nbytes] class_loop_bounds [of 0 kBufferPoolClassSizes nbytes]
    unfolding ClassForSize_def num_classes by simp
qed

section \<open>Invariant\<close>

lemma alloc_size_pos: "0 < alloc_size_of i"
  by (simp add: alloc_size_of_def)

lemma alloc_size_dvd: "i < kBufferPoolNumClasses \<Longrightarrow> 64 dvd alloc_size_of i"
proof -
  have "\<forall>c \<in> set kBufferPoolClassSizes. 64 dvd c" by (simp add: size_consts)
  then show "i < kBufferPoolNumClasses \<Longrightarrow> 64 dvd alloc_size_of i"
    unfolding num_classes alloc_size_of_def by simp
qed

lemma num_blocks_pos: "i < kBufferPoolNumClasses \<Longrightarrow> 0 < num_blocks i"
proof -
  have "\<forall>c \<in> set kBufferPoolClassSizes. c \<le> 65536" by (simp add: size_consts)
  then have "i < kBufferPoolNumClasses \<Longrightarrow> kBufferPoolClassSizes ! i \<le> 65536"
    unfolding num_classes by simp
  then show "i < kBufferPoolNumClasses \<Longrightarrow> 0 < num_blocks i"
    unfolding num_blocks_def alloc_size_of_def by (simp add: div_greater_zero_iff)
qed

text \<open>
  Blocks of all classes together: \<^verbatim>\<open>N i\<close> are the blocks of class \<^verbatim>\<open>i\<close>. Each lies in a live region
  and two of them never overlap, within a class or across classes.
\<close>

definition layout :: "region list \<Rightarrow> (nat \<Rightarrow> ptr set) \<Rightarrow> bool" where
  "layout live N \<longleftrightarrow>
     (\<forall>i < kBufferPoolNumClasses. \<forall>p \<in> N i. placed (alloc_size_of i) live p) \<and>
     (\<forall>i < kBufferPoolNumClasses. \<forall>j < kBufferPoolNumClasses. \<forall>p \<in> N i. \<forall>q \<in> N j.
        (i, p) \<noteq> (j, q) \<longrightarrow> disjoint_region (p, alloc_size_of i) (q, alloc_size_of j))"

lemma layoutD:
  assumes "layout live N" and "i < kBufferPoolNumClasses" and "p \<in> N i"
  shows "placed (alloc_size_of i) live p"
    and "j < kBufferPoolNumClasses \<Longrightarrow> q \<in> N j \<Longrightarrow> (i, p) \<noteq> (j, q) \<Longrightarrow>
      disjoint_region (p, alloc_size_of i) (q, alloc_size_of j)"
  using assms unfolding layout_def by blast+

lemma fresh_disjoint:
  assumes "layout live N" and "i < kBufferPoolNumClasses" and "p \<in> N i"
    and "\<forall>r \<in> set live. disjoint_region (b, n) r" and "b \<le> q" and "q + slot \<le> b + n"
  shows "disjoint_region (p, alloc_size_of i) (q, slot)"
  using layoutD(1) [OF assms(1-3)] assms(4-6) unfolding placed_def disjoint_region_def by fastforce

lemma layout_fresh_notin:
  assumes "layout live N" and "i < kBufferPoolNumClasses" and "0 < slot"
    and "\<forall>r \<in> set live. disjoint_region (b, n) r" and "b \<le> q" and "q + slot \<le> b + n"
  shows "q \<notin> N i"
proof
  assume "q \<in> N i"
  from fresh_disjoint [OF assms(1,2) this assms(4-6)] assms(3) alloc_size_pos [of i]
  show False by (simp add: disjoint_region_def)
qed

lemma layout_same: "layout live N \<Longrightarrow> M = N i \<Longrightarrow> layout live (N(i := M))"
  by simp

lemma layout_add:
  assumes l: "layout live N" and fresh: "\<forall>r \<in> set live. disjoint_region (b, n) r"
    and M: "\<And>q. q \<in> M \<Longrightarrow> b \<le> q \<and> q + alloc_size_of k \<le> b + n \<and> q \<noteq> nullptr \<and> 64 dvd q"
    and MM: "\<And>p q. p \<in> M \<Longrightarrow> q \<in> M \<Longrightarrow> p \<noteq> q \<Longrightarrow>
      disjoint_region (p, alloc_size_of k) (q, alloc_size_of k)"
  shows "layout ((b, n) # live) (N(k := M \<union> N k))"
proof -
  let ?N = "N(k := M \<union> N k)"
  have mem: "q \<in> N i \<or> i = k \<and> q \<in> M" if "q \<in> ?N i" for i q using that by (auto split: if_splits)
  have "placed (alloc_size_of i) ((b, n) # live) q"
    if i: "i < kBufferPoolNumClasses" and q: "q \<in> ?N i" for i q
    using mem [OF q] layoutD(1) [OF l i] M unfolding placed_def by auto
  moreover have "disjoint_region (p, alloc_size_of i) (q, alloc_size_of j)"
    if i: "i < kBufferPoolNumClasses" and j: "j < kBufferPoolNumClasses" and p: "p \<in> ?N i"
      and q: "q \<in> ?N j" and ne: "(i, p) \<noteq> (j, q)" for i j p q
  proof -
    consider "p \<in> N i" "q \<in> N j" | "p \<in> N i" "j = k" "q \<in> M" | "i = k" "p \<in> M" "q \<in> N j"
      | "i = k" "p \<in> M" "j = k" "q \<in> M" using mem [OF p] mem [OF q] by blast
    then show ?thesis
    proof cases
      case 1 then show ?thesis using layoutD(2) [OF l i _ j _ ne] by blast
    next
      case 2 then show ?thesis using fresh_disjoint [OF l i _ fresh] M by blast
    next
      case 3 then show ?thesis using fresh_disjoint [OF l j _ fresh] M disjoint_region_sym by blast
    next
      case 4 then show ?thesis using MM ne by blast
    qed
  qed
  ultimately show ?thesis unfolding layout_def by blast
qed

text \<open>\<^verbatim>\<open>xs i\<close> are the blocks in the free list of class \<^verbatim>\<open>i\<close>, \<^verbatim>\<open>out i\<close> those in use.\<close>

abbreviation class_nodes :: "(nat \<Rightarrow> ptr list) \<Rightarrow> (nat \<Rightarrow> ptr set) \<Rightarrow> BufferPool \<Rightarrow> nat \<Rightarrow> ptr set" where
  "class_nodes xs out s \<equiv> \<lambda>i. all_nodes (xs i) (caches (class_tls s i)) (out i)"

abbreviation class_ok ::
    "pmem \<Rightarrow> TreiberStack \<Rightarrow> (tid \<Rightarrow> pool_cache) \<Rightarrow> ptr list \<Rightarrow> ptr set \<Rightarrow> bool" where
  "class_ok \<equiv> bucket_ok kBufferPoolTlsCacheSize"

definition buf_inv :: "(nat \<Rightarrow> ptr list) \<Rightarrow> (nat \<Rightarrow> ptr set) \<Rightarrow> BufferPool \<Rightarrow> bool" where
  "buf_inv xs out s \<longleftrightarrow>
     (\<forall>i < kBufferPoolNumClasses.
        class_ok (buf_mem s) (free_lists s i) (class_tls s i) (xs i) (out i)) \<and>
     layout (buf_live s) (class_nodes xs out s)"

lemma buf_invD:
  assumes "buf_inv xs out s"
  shows "i < kBufferPoolNumClasses \<Longrightarrow>
      class_ok (buf_mem s) (free_lists s i) (class_tls s i) (xs i) (out i)"
    and "layout (buf_live s) (class_nodes xs out s)"
  using assms unfolding buf_inv_def by blast+

lemma classes_disjoint:
  assumes "buf_inv xs out s" and "i < kBufferPoolNumClasses" and "j < kBufferPoolNumClasses" and "i \<noteq> j"
  shows "class_nodes xs out s i \<inter> class_nodes xs out s j = {}"
proof -
  have "disjoint_region (p, alloc_size_of i) (p, alloc_size_of j)"
    if "p \<in> class_nodes xs out s i" "p \<in> class_nodes xs out s j" for p
    using layoutD(2) [OF buf_invD(2) [OF assms(1)] assms(2) that(1) assms(3) that(2)] assms(4) by blast
  then have "\<not> (p \<in> class_nodes xs out s i \<and> p \<in> class_nodes xs out s j)" for p
    using alloc_size_pos [of i] alloc_size_pos [of j] by (fastforce simp: disjoint_region_def)
  then show ?thesis by blast
qed

text \<open>
  An operation on one class: when it leaves that bucket well formed, writes only to blocks of
  the class or to fresh ones, and keeps the layout, the invariant holds again.
\<close>

lemma buf_inv_class:
  assumes inv: "buf_inv xs out s" and i: "i < kBufferPoolNumClasses"
    and ok: "class_ok (buf_mem s') (free_lists s' i) (class_tls s' i) x o'"
    and frame: "\<And>j. j \<noteq> i \<Longrightarrow> free_lists s' j = free_lists s j \<and> class_tls s' j = class_tls s j"
    and wr: "same_outside X (buf_mem s) (buf_mem s')"
    and X: "\<And>j. j < kBufferPoolNumClasses \<Longrightarrow> j \<noteq> i \<Longrightarrow> class_nodes xs out s j \<inter> X = {}"
    and l: "layout (buf_live s')
      ((class_nodes xs out s)(i := all_nodes x (caches (class_tls s' i)) o'))"
  shows "buf_inv (xs(i := x)) (out(i := o')) s'"
proof -
  have "class_ok (buf_mem s') (free_lists s' j) (class_tls s' j) (xs j) (out j)"
    if j: "j < kBufferPoolNumClasses" and ne: "j \<noteq> i" for j
  proof -
    have "set (xs j) \<inter> X = {}" using X [OF j ne] all_nodesI(1) by blast
    from bucket_frame [OF buf_invD(1) [OF inv j] wr this] show ?thesis using frame [OF ne] by simp
  qed
  moreover have "class_nodes (xs(i := x)) (out(i := o')) s' =
      (class_nodes xs out s)(i := all_nodes x (caches (class_tls s' i)) o')"
    using frame by (intro ext) simp
  ultimately show ?thesis using ok l unfolding buf_inv_def by simp
qed

section \<open>Allocation and release\<close>

lemma class_cache_attempt:
  assumes inv: "buf_inv xs out s" and i: "i < kBufferPoolNumClasses"
    and pop: "ClassCache_Pop (class_tls s i t) = (p, c)"
  obtains (none) "cached (class_tls s i t) = []" "p = nullptr"
      "s\<lparr>class_tls := (class_tls s)(i := (class_tls s i)(t := c))\<rparr> = s"
  | (node) "cached (class_tls s i t) \<noteq> []" "p \<noteq> nullptr" "p \<notin> out i"
      "buf_inv xs (out(i := insert p (out i)))
         (s\<lparr>class_tls := (class_tls s)(i := (class_tls s i)(t := c))\<rparr>)"
proof (cases rule: bucket_cache_pop [OF buf_invD(1) [OF inv i] pop [unfolded ClassCache_Pop_def]])
  case 1
  then show ?thesis using none by simp
next
  case (2 ys)
  let ?s = "s\<lparr>class_tls := (class_tls s)(i := (class_tls s i)(t := c))\<rparr>"
  have "layout (buf_live ?s)
      ((class_nodes xs out s)(i := all_nodes (xs i) (caches (class_tls ?s i)) (insert p (out i))))"
    using layout_same [OF buf_invD(2) [OF inv] 2(5)] by simp
  from buf_inv_class [OF inv i _ _ _ _ this, of "{}"]
  have "buf_inv xs (out(i := insert p (out i))) ?s" using 2(4) by simp
  then show ?thesis using node 2(1-3) by simp
qed

lemma class_pop_attempt:
  assumes inv: "buf_inv xs out s" and i: "i < kBufferPoolNumClasses"
    and pop: "TreiberStack_Pop (free_lists s i) (buf_mem s) = (p, fl)"
  obtains (none) "xs i = []" "p = nullptr" "s\<lparr>free_lists := (free_lists s)(i := fl)\<rparr> = s"
  | (node) x where "xs i = p # x" "p \<noteq> nullptr" "p \<notin> out i"
      "buf_inv (xs(i := x)) (out(i := insert p (out i))) (s\<lparr>free_lists := (free_lists s)(i := fl)\<rparr>)"
proof (cases rule: bucket_list_pop [OF buf_invD(1) [OF inv i] pop])
  case 1
  then show ?thesis using none by simp
next
  case (2 x)
  let ?s = "s\<lparr>free_lists := (free_lists s)(i := fl)\<rparr>"
  have "layout (buf_live ?s)
      ((class_nodes xs out s)(i := all_nodes x (caches (class_tls ?s i)) (insert p (out i))))"
    using layout_same [OF buf_invD(2) [OF inv] 2(5)] by simp
  from buf_inv_class [OF inv i _ _ _ _ this, of "{}"]
  have "buf_inv (xs(i := x)) (out(i := insert p (out i))) ?s" using 2(4) by simp
  then show ?thesis using node 2(1-3) by blast
qed

lemma buf_aligned_alloc_fresh:
  assumes ok: "allocator_ok alloc" and al: "buf_aligned_alloc alloc 64 sz s = (p, s')"
  obtains (fail) "alloc 64 sz (buf_live s) = nullptr" "p = nullptr" "s' = s"
  | (block) "p = alloc 64 sz (buf_live s)" "p \<noteq> nullptr" "s' = s\<lparr>buf_live := (p, sz) # buf_live s\<rparr>"
      "\<forall>r \<in> set (buf_live s). disjoint_region (p, sz) r" "64 dvd p"
proof (cases "p = nullptr")
  case True
  then show ?thesis
    using fail al by (auto simp: buf_aligned_alloc_def Let_def split: if_splits)
next
  case False
  then have p: "p = alloc 64 sz (buf_live s)" "s' = s\<lparr>buf_live := (p, sz) # buf_live s\<rparr>"
    using al by (auto simp: buf_aligned_alloc_def Let_def split: if_splits)
  then show ?thesis using block False ok unfolding allocator_ok_def by metis
qed

lemma AllocateFromSystem_inv:
  assumes ok: "allocator_ok alloc" and inv: "buf_inv xs out s" and i: "i < kBufferPoolNumClasses"
    and al: "AllocateFromSystem alloc i s = (p, s')"
  shows "p = nullptr \<and> s' = s \<or>
         p \<noteq> nullptr \<and> p \<notin> out i \<and> buf_inv xs (out(i := insert p (out i))) s'"
proof (cases rule: buf_aligned_alloc_fresh [OF ok al [unfolded AllocateFromSystem_def]])
  case 1
  then show ?thesis by simp
next
  case 2
  note l = buf_invD(2) [OF inv]
  have new: "p \<notin> class_nodes xs out s i"
    using layout_fresh_notin [OF l i alloc_size_pos 2(4), of p i] by simp
  note b = bucket_fresh [OF buf_invD(1) [OF inv i] new 2(2)]
  have "layout ((p, alloc_size_of i) # buf_live s) ((class_nodes xs out s)(i := {p} \<union> class_nodes xs out s i))"
    by (rule layout_add [OF l 2(4)]) (use 2(2,5) in \<open>simp_all\<close>)
  then have "layout (buf_live s')
      ((class_nodes xs out s)(i := all_nodes (xs i) (caches (class_tls s' i)) (insert p (out i))))"
    using b(2) 2(3) by simp
  from buf_inv_class [OF inv i _ _ _ _ this, of "{}"]
  have "buf_inv xs (out(i := insert p (out i))) s'" using b(1) 2(3) by simp
  then show ?thesis using 2(2) new all_nodesI(3) by metis
qed

text \<open>What an operation leaves alone: the contents of the blocks that exist before it.\<close>

definition kept ::
    "(nat \<Rightarrow> ptr list) \<Rightarrow> (nat \<Rightarrow> ptr set) \<Rightarrow> BufferPool \<Rightarrow> BufferPool \<Rightarrow> bool" where
  "kept xs out s s' \<longleftrightarrow> (\<forall>j < kBufferPoolNumClasses. \<forall>p \<in> class_nodes xs out s j.
     bytes (buf_mem s') p = bytes (buf_mem s) p)"

lemma keptD:
  "kept xs out s s' \<Longrightarrow> j < kBufferPoolNumClasses \<Longrightarrow> p \<in> class_nodes xs out s j \<Longrightarrow>
     bytes (buf_mem s') p = bytes (buf_mem s) p"
  unfolding kept_def by blast

lemma kept_mem [simp]: "buf_mem s' = buf_mem s \<Longrightarrow> kept xs out s s'"
  by (simp add: kept_def)

lemma EnsureClassPopulated_inv:
  assumes ok: "allocator_ok alloc" and inv: "buf_inv xs out s" and i: "i < kBufferPoolNumClasses"
  shows "\<exists>ns. buf_inv (xs(i := ns @ xs i)) out (EnsureClassPopulated alloc i s) \<and>
    kept xs out s (EnsureClassPopulated alloc i s) \<and>
    (ns = [] \<longleftrightarrow> class_initialized s i \<or> alloc 64 (num_blocks i * alloc_size_of i) (buf_live s) = nullptr)"
proof (cases "class_initialized s i")
  case True
  then show ?thesis using inv by (intro exI [of _ "[]"]) (simp add: EnsureClassPopulated_def)
next
  case False
  let ?marked = "s\<lparr>class_initialized := (class_initialized s)(i := True)\<rparr>"
  have inv0: "buf_inv xs out ?marked" using inv by (simp add: buf_inv_def)
  obtain b s1 where al: "buf_aligned_alloc alloc 64 (num_blocks i * alloc_size_of i) ?marked = (b, s1)"
    by fastforce
  show ?thesis
  proof (cases rule: buf_aligned_alloc_fresh [OF ok al])
    case 1
    then show ?thesis using inv0 al False
      by (intro exI [of _ "[]"]) (simp add: EnsureClassPopulated_def)
  next
    case 2
    note l = buf_invD(2) [OF inv0]
    define ns where "ns = slice b (alloc_size_of i) (num_blocks i)"
    have bounds: "b \<le> q \<and> q + alloc_size_of i \<le> b + num_blocks i * alloc_size_of i" if "q \<in> set ns" for q
      using slice_bounds [of q b] that unfolding ns_def by (simp add: mult.commute)
    have notin: "set ns \<inter> class_nodes xs out ?marked j = {}" if "j < kBufferPoolNumClasses" for j
      using layout_fresh_notin [OF l that alloc_size_pos 2(4)] bounds by blast
    obtain fl m where pop: "populate b (alloc_size_of i) (num_blocks i) (free_lists s i) (buf_mem s) = (fl, m)"
      by fastforce
    note bp = bucket_populate [OF buf_invD(1) [OF inv0 i] 2(2) alloc_size_pos
        notin [OF i, unfolded ns_def], folded ns_def]
    let ?s = "s1\<lparr>slabs := (slabs s1)(i := slabs s1 i @ [b]), free_lists := (free_lists s1)(i := fl),
      buf_mem := m\<rparr>"
    have e: "EnsureClassPopulated alloc i s = ?s"
      using False al 2 pop by (simp add: EnsureClassPopulated_def)
    have al64: "64 dvd q" if "q \<in> set ns" for q
      using that 2(5) alloc_size_dvd [OF i] unfolding ns_def slice_def by auto
    have nn: "q \<noteq> nullptr" if "q \<in> set ns" for q
      using nullptr_slice [OF 2(2)] that unfolding ns_def by metis
    have dj: "disjoint_region (p, alloc_size_of i) (q, alloc_size_of i)"
      if "p \<in> set ns" "q \<in> set ns" "p \<noteq> q" for p q using slice_disjoint that unfolding ns_def by blast
    have "layout ((b, num_blocks i * alloc_size_of i) # buf_live ?marked)
        ((class_nodes xs out ?marked)(i := set ns \<union> class_nodes xs out ?marked i))"
      by (rule layout_add [OF l 2(4) _ dj]) (use bounds al64 nn in blast)+
    then have l': "layout (buf_live ?s)
        ((class_nodes xs out ?marked)(i := all_nodes (ns @ xs i) (caches (class_tls ?s i)) (out i)))"
      using bp(2) pop 2(3) by simp
    have "buf_inv (xs(i := ns @ xs i)) (out(i := out i)) ?s"
      by (rule buf_inv_class [OF inv0 i _ _ _ _ l', of "set ns"])
        (use bp(1,3) pop 2(3) notin in \<open>auto\<close>)
    moreover have "ns \<noteq> []" using num_blocks_pos [OF i] by (simp add: ns_def slice_def)
    moreover have "bytes m q = bytes (buf_mem s) q"
      if "j < kBufferPoolNumClasses" "q \<in> class_nodes xs out s j" for j q
      using bp(3) pop notin [OF that(1)] that(2) by (auto simp: same_outside_def)
    then have "kept xs out s ?s" by (simp add: kept_def)
    ultimately show ?thesis using e False 2(1,2) by auto
  qed
qed

lemma Allocate_inv:
  assumes ok: "allocator_ok alloc" and inv: "buf_inv xs out s" and al: "Allocate alloc t n s = (p, s')"
  shows "kept xs out s s' \<and> (p = nullptr \<and> (\<exists>xs'. buf_inv xs' out s') \<or>
         ClassForSize n < kBufferPoolNumClasses \<and> p \<noteq> nullptr \<and> p \<notin> out (ClassForSize n) \<and>
         (\<exists>xs'. buf_inv xs' (out(ClassForSize n := insert p (out (ClassForSize n)))) s'))"
proof (cases "kBufferPoolNumClasses \<le> ClassForSize n")
  case True
  then show ?thesis using al inv by (auto simp: Allocate_def Let_def)
next
  case False
  then have i: "ClassForSize n < kBufferPoolNumClasses" by simp
  let ?i = "ClassForSize n"
  let ?g = "EnsureClassPopulated alloc ?i s"
  obtain p1 c where c: "ClassCache_Pop (class_tls s ?i t) = (p1, c)" by fastforce
  obtain p2 fl2 where f2: "TreiberStack_Pop (free_lists s ?i) (buf_mem s) = (p2, fl2)" by fastforce
  obtain p3 fl3 where f3: "TreiberStack_Pop (free_lists ?g ?i) (buf_mem ?g) = (p3, fl3)" by fastforce
  note defs = Allocate_def Let_def c f2 f3
  show ?thesis
  proof (cases rule: class_cache_attempt [OF inv i c])
    case 2
    then show ?thesis using al False by (auto simp: defs)
  next
    case 1
    note A = 1
    show ?thesis
    proof (cases rule: class_pop_attempt [OF inv i f2])
      case 2
      have "p = p2" "s' = s\<lparr>free_lists := (free_lists s)(?i := fl2)\<rparr>"
        using al A 2(2) False by (simp_all add: defs)
      moreover from this have "kept xs out s s'" by simp
      ultimately show ?thesis using 2 i by blast
    next
      case 1
      note B = 1
      obtain ns where gi: "buf_inv (xs(?i := ns @ xs ?i)) out ?g" and k: "kept xs out s ?g"
        using EnsureClassPopulated_inv [OF ok inv i] by (elim exE conjE) (rule that)
      show ?thesis
      proof (cases rule: class_pop_attempt [OF gi i f3])
        case 2
        have "p = p3" "s' = ?g\<lparr>free_lists := (free_lists ?g)(?i := fl3)\<rparr>"
          using al A B 2(2) False by (simp_all add: defs)
        moreover from this have "kept xs out s s'" using k by (simp add: kept_def)
        ultimately show ?thesis using 2 i by blast
      next
        case 1
        then have "AllocateFromSystem alloc ?i ?g = (p, s')" using al A B False by (simp add: defs)
        moreover from this have "buf_mem s' = buf_mem ?g"
          by (auto simp: AllocateFromSystem_def buf_aligned_alloc_def Let_def split: if_splits)
        then have "kept xs out s s'" using k by (simp add: kept_def)
        ultimately show ?thesis using AllocateFromSystem_inv [OF ok gi i] gi i by blast
      qed
    qed
  qed
qed

lemma Deallocate_inv:
  assumes inv: "buf_inv xs out s" and i: "ClassForSize n < kBufferPoolNumClasses"
    and p: "p \<in> out (ClassForSize n)"
  shows "\<exists>s' xs' ys. Deallocate t p n s = Some s' \<and>
    buf_inv xs' (out(ClassForSize n := out (ClassForSize n) - {p})) s' \<and>
    cached (class_tls s' (ClassForSize n) t) = ys @ [p] \<and> bytes (buf_mem s') p = bytes (buf_mem s) p"
proof -
  let ?i = "ClassForSize n"
  have cap: "4 \<le> kBufferPoolTlsCacheSize" by (simp add: size_consts)
  obtain c fl m x ys where r: "release_node kBufferPoolTlsCacheSize p (class_tls s ?i t) (free_lists s ?i)
      (buf_mem s) = Some (c, fl, m)"
    "class_ok m fl ((class_tls s ?i)(t := c)) x (out ?i - {p})" "cached c = ys @ [p]"
    "all_nodes x (caches ((class_tls s ?i)(t := c))) (out ?i - {p}) = class_nodes xs out s ?i"
    "same_outside (set (cached (class_tls s ?i t))) (buf_mem s) m"
    using bucket_release [OF buf_invD(1) [OF inv i] cap p, of t] by metis
  let ?s = "s\<lparr>class_tls := (class_tls s)(?i := (class_tls s ?i)(t := c)),
    free_lists := (free_lists s)(?i := fl), buf_mem := m\<rparr>"
  have d: "Deallocate t p n s = Some ?s"
    using bucket_out_nonnull [OF buf_invD(1) [OF inv i] p] i r(1) by (simp add: Deallocate_def Let_def)
  have l: "layout (buf_live ?s)
      ((class_nodes xs out s)(?i := all_nodes x (caches (class_tls ?s ?i)) (out ?i - {p})))"
    using layout_same [OF buf_invD(2) [OF inv] r(4)] by simp
  have X: "class_nodes xs out s j \<inter> set (cached (class_tls s ?i t)) = {}"
    if "j < kBufferPoolNumClasses" "j \<noteq> ?i" for j
    using classes_disjoint [OF inv i that(1)] that(2) all_nodesI(2) [of _ "caches (class_tls s ?i)" t]
    unfolding caches_apply by blast
  have "buf_inv (xs(?i := x)) (out(?i := out ?i - {p})) ?s"
    by (rule buf_inv_class [OF inv i _ _ _ X l]) (use r(2,5) in simp_all)
  moreover have "p \<notin> set (cached (class_tls s ?i t))"
    using ownersD(6) [OF bucket_okD(2) [OF buf_invD(1) [OF inv i]], of t] p unfolding caches_apply by blast
  then have "bytes m p = bytes (buf_mem s) p" using r(5) by (simp add: same_outside_def)
  ultimately show ?thesis using d r(3) by auto
qed

lemma buf_write_inv:
  assumes inv: "buf_inv xs out s" and i: "i < kBufferPoolNumClasses" and p: "p \<in> out i"
    and m: "same_outside {p} (buf_mem s) m"
  shows "buf_inv xs out (s\<lparr>buf_mem := m\<rparr>)"
proof -
  have "set (xs j) \<inter> {p} = {}" if j: "j < kBufferPoolNumClasses" for j
  proof (cases "j = i")
    case True
    then show ?thesis using ownersD(5) [OF bucket_okD(2) [OF buf_invD(1) [OF inv i]]] p by blast
  next
    case False
    then show ?thesis using classes_disjoint [OF inv j i] all_nodesI(1,3) p by blast
  qed
  then show ?thesis
    using bucket_frame [OF buf_invD(1) [OF inv] m] buf_invD(2) [OF inv] unfolding buf_inv_def by simp
qed

section \<open>Reachable pools\<close>

text \<open>\<^verbatim>\<open>out i\<close> are the blocks of class \<^verbatim>\<open>i\<close> that are in use; their owners write into them.\<close>

abbreviation no_bufs :: "nat \<Rightarrow> tid \<Rightarrow> pool_cache" where
  "no_bufs \<equiv> \<lambda>_ _. cache_init kBufferPoolTlsCacheSize"

inductive buf_reach :: "allocator \<Rightarrow> (nat \<Rightarrow> ptr set) \<Rightarrow> BufferPool \<Rightarrow> bool" for alloc :: allocator where
  construct: "buf_reach alloc (\<lambda>_. {}) (BufferPool_construct lockfree no_bufs m0 live0)"
| allocate: "buf_reach alloc out s \<Longrightarrow> Allocate alloc t n s = (p, s') \<Longrightarrow>
    buf_reach alloc
      (if p = nullptr then out else out(ClassForSize n := insert p (out (ClassForSize n)))) s'"
| deallocate: "buf_reach alloc out s \<Longrightarrow> n \<le> kBufferPoolMaxPooledSize \<Longrightarrow> p \<in> out (ClassForSize n) \<Longrightarrow>
    Deallocate t p n s = Some s' \<Longrightarrow>
    buf_reach alloc (out(ClassForSize n := out (ClassForSize n) - {p})) s'"
| client_write: "buf_reach alloc out s \<Longrightarrow> i < kBufferPoolNumClasses \<Longrightarrow> p \<in> out i \<Longrightarrow>
    buf_reach alloc out (s\<lparr>buf_mem := write_bytes p bs (buf_mem s)\<rparr>)"

lemma construct_buf_inv:
  "buf_inv (\<lambda>_. []) (\<lambda>_. {}) (BufferPool_construct lockfree no_bufs m0 live0)"
  by (simp add: buf_inv_def BufferPool_construct_def bucket_ok_def owners_def caches_def all_nodes_def
      layout_def)

lemma buf_reach_inv:
  assumes ok: "allocator_ok alloc" and "buf_reach alloc out s"
  shows "\<exists>xs. buf_inv xs out s"
  using assms(2)
proof (induction rule: buf_reach.induct)
  case (construct lockfree m0 live0)
  then show ?case using construct_buf_inv by blast
next
  case (allocate out s t n p s')
  then obtain xs where "buf_inv xs out s" by blast
  from Allocate_inv [OF ok this allocate.hyps(2)] show ?case by auto
next
  case (deallocate out s n p t s')
  then obtain xs where "buf_inv xs out s" by blast
  from Deallocate_inv [OF this _ deallocate.hyps(3), of t] obtain s'' xs' where
    "Deallocate t p n s = Some s''"
    "buf_inv xs' (out(ClassForSize n := out (ClassForSize n) - {p})) s''"
    using deallocate.hyps(2) unfolding ClassForSize_lt by blast
  then show ?case using deallocate.hyps(4) by (metis option.inject)
next
  case (client_write out s i p bs)
  then obtain xs where inv: "buf_inv xs out s" by blast
  have "same_outside {p} (buf_mem s) (write_bytes p bs (buf_mem s))"
    by (simp add: same_outside_def)
  from buf_write_inv [OF inv client_write.hyps(2,3) this] show ?case by blast
qed

lemma alloc_size_ge:
  "ClassForSize n < kBufferPoolNumClasses \<Longrightarrow> n \<le> kBufferPoolClassSizes ! ClassForSize n"
  using class_loop_found [of 0 kBufferPoolClassSizes n] unfolding ClassForSize_def num_classes by simp

lemma Allocate_hit:
  assumes "ClassForSize n < kBufferPoolNumClasses"
    and "ClassCache_Pop (class_tls s (ClassForSize n) t) = (p, c)" and "p \<noteq> nullptr"
  shows "fst (Allocate alloc t n s) = p"
  using assms by (simp add: Allocate_def Let_def)

lemma allocate_cached:
  assumes "cache_inv kBufferPoolTlsCacheSize (class_tls s (ClassForSize n) t)"
    and "cached (class_tls s (ClassForSize n) t) = ys @ [p]" and "p \<noteq> nullptr"
    and "ClassForSize n < kBufferPoolNumClasses"
  shows "fst (Allocate alloc t n s) = p"
  using assms(1)
proof (cases rule: cache_Pop_cases)
  case (node q c')
  then show ?thesis using Allocate_hit [OF assms(4), of s t q c'] assms(2,3)
    by (simp add: ClassCache_Pop_def)
qed (use assms(2) in simp)

text \<open>For the examples: an allocator that refuses blocks of more than 100000 bytes, and an empty pool.\<close>

definition tight_alloc :: allocator where
  "tight_alloc al sz live = (if 100000 < sz then nullptr else bump_alloc al sz live)"

lemma tight_alloc_ok: "allocator_ok tight_alloc"
  using bump_alloc_ok unfolding allocator_ok_def tight_alloc_def by auto

lemma tight_alloc_nonnull: "sz \<le> 100000 \<Longrightarrow> tight_alloc 64 sz live \<noteq> nullptr"
  using fold_max_ge [of 1 live] by (simp add: tight_alloc_def bump_alloc_def Let_def div_greater_zero_iff)

definition empty_pool :: BufferPool where
  "empty_pool = BufferPool_construct True no_bufs \<lparr>nx = \<lambda>_. 0, bytes = \<lambda>_ _. 0\<rparr> []"

lemma empty_pool_reach: "buf_reach tight_alloc (\<lambda>_. {}) empty_pool"
  unfolding empty_pool_def by (rule buf_reach.construct)

lemmas buf_eval = empty_pool_def BufferPool_construct_def Allocate_def ClassForSize_def size_consts
  ClassCache_Pop_def cache_Pop_def cache_init_def TreiberStack_init_def EnsureClassPopulated_def
  buf_aligned_alloc_def tight_alloc_def num_blocks_def alloc_size_of_def AllocateFromSystem_def
  bump_alloc_def Let_def

lemma empty_pool_allocate: "fst (Allocate tight_alloc 0 300 empty_pool) = 64"
  by (simp add: buf_eval)

definition one_used :: BufferPool where
  "one_used = snd (Allocate tight_alloc 0 300 empty_pool)"

lemma one_used_reach: "buf_reach tight_alloc ((\<lambda>_. {})(3 := {64})) one_used"
proof -
  have "Allocate tight_alloc 0 300 empty_pool = (64, one_used)"
    using empty_pool_allocate by (simp add: one_used_def prod_eq_iff)
  from buf_reach.allocate [OF empty_pool_reach this] show ?thesis
    by (simp add: ClassForSize_def size_consts numeral_3_eq_3)
qed

lemma one_used_allocate: "fst (Allocate tight_alloc 1 5000 one_used) = 704"
  by (simp add: buf_eval one_used_def)

text \<open>
  C9: A block that \<^verbatim>\<open>Allocate\<close> returns is in use by nobody; all the bytes that were asked for
  lie inside one live region of the allocator, and they overlap no block in use of any size
  class, after any calls of the pool and any writes of the owners of the blocks.
\<close>

theorem allocate_exclusive:
  assumes "allocator_ok alloc" and "buf_reach alloc out s" and "Allocate alloc t n s = (p, s')"
    and "p \<noteq> nullptr"
  shows "p \<notin> out (ClassForSize n) \<and> placed n (buf_live s') p \<and>
    (\<forall>j < kBufferPoolNumClasses. \<forall>q \<in> out j.
       disjoint_region (p, n) (q, kBufferPoolClassSizes ! j))"
proof -
  let ?i = "ClassForSize n"
  let ?out = "out(?i := insert p (out ?i))"
  obtain xs where inv: "buf_inv xs out s" using buf_reach_inv assms(1,2) by blast
  then obtain xs' where i: "?i < kBufferPoolNumClasses" and p: "p \<notin> out ?i" and inv': "buf_inv xs' ?out s'"
    using Allocate_inv [OF assms(1) inv assms(3)] assms(4) by blast
  let ?N = "class_nodes xs' ?out s'"
  have pN: "p \<in> ?N ?i" by (simp add: all_nodes_def)
  have n: "n \<le> alloc_size_of ?i" using alloc_size_ge [OF i] by (simp add: alloc_size_of_def)
  have "disjoint_region (p, n) (q, kBufferPoolClassSizes ! j)"
    if j: "j < kBufferPoolNumClasses" and q: "q \<in> out j" for j q
  proof -
    have "q \<in> ?N j" using q by (intro all_nodesI(3)) (auto simp: fun_upd_def)
    then have "disjoint_region (p, alloc_size_of ?i) (q, alloc_size_of j)"
      using layoutD(2) [OF buf_invD(2) [OF inv'] i pN j] p q by blast
    then show ?thesis using n by (auto simp: disjoint_region_def alloc_size_of_def)
  qed
  moreover have "placed n (buf_live s') p"
    using layoutD(1) [OF buf_invD(2) [OF inv'] i pN] n unfolding placed_def by fastforce
  ultimately show ?thesis using p by blast
qed

theorem allocate_exclusive_witness:
  "fst (Allocate tight_alloc 1 5000 one_used) = 704 \<and> disjoint_region (704, 5000) (64, 512)"
proof -
  have "Allocate tight_alloc 1 5000 one_used = (704, snd (Allocate tight_alloc 1 5000 one_used))"
    using one_used_allocate by (simp add: prod_eq_iff)
  from allocate_exclusive [OF tight_alloc_ok one_used_reach this] have d:
    "\<forall>j < kBufferPoolNumClasses. \<forall>q \<in> ((\<lambda>_. {})(3 := {64})) j.
       disjoint_region (704, 5000) (q, kBufferPoolClassSizes ! j)" by simp
  have "disjoint_region (704, 5000) (64, kBufferPoolClassSizes ! 3)"
    by (rule d [rule_format]) (simp_all add: kBufferPoolNumClasses_def)
  then show ?thesis using one_used_allocate by (simp add: size_consts)
qed

text \<open>
  Giving a block back always ends, and the thread's next request that falls in the same
  size class is served with that block.
\<close>

theorem deallocate_allocate_roundtrip:
  assumes "allocator_ok alloc" and "buf_reach alloc out s" and "n \<le> kBufferPoolMaxPooledSize"
    and "p \<in> out (ClassForSize n)" and "ClassForSize k = ClassForSize n"
  shows "\<exists>s'. Deallocate t p n s = Some s' \<and> fst (Allocate alloc t k s') = p"
proof -
  have i: "ClassForSize n < kBufferPoolNumClasses" using assms(3) by (simp add: ClassForSize_lt)
  obtain xs where inv: "buf_inv xs out s" using buf_reach_inv assms(1,2) by blast
  obtain s' xs' ys where d: "Deallocate t p n s = Some s'"
      "buf_inv xs' (out(ClassForSize n := out (ClassForSize n) - {p})) s'"
      "cached (class_tls s' (ClassForSize n) t) = ys @ [p]"
    using Deallocate_inv [OF inv i assms(4)] by blast
  have "fst (Allocate alloc t k s') = p"
    using allocate_cached [of s' k t ys p] bucket_okD(3) [OF buf_invD(1) [OF d(2) i]] d(3) assms(5) i
      bucket_out_nonnull [OF buf_invD(1) [OF inv i] assms(4)] by simp
  then show ?thesis using d(1) by blast
qed

theorem deallocate_allocate_roundtrip_witness:
  "\<exists>s'. Deallocate 7 64 300 one_used = Some s' \<and> fst (Allocate tight_alloc 7 512 s') = 64"
  using deallocate_allocate_roundtrip [OF tight_alloc_ok one_used_reach, of 300 64 512 7]
  by (simp add: ClassForSize_def size_consts numeral_3_eq_3)

text \<open>
  When \<^verbatim>\<open>Allocate\<close> fails. It returns null exactly when the request is above the largest
  class, or the thread's cache and the free list of the class are empty, the class cannot be
  filled (it was filled before, or the slab allocation failed) and the allocation of a single
  block failed as well.
\<close>

theorem allocate_null_iff:
  assumes "allocator_ok alloc" and inv: "buf_inv xs out s"
  shows "fst (Allocate alloc t n s) = nullptr \<longleftrightarrow> kBufferPoolMaxPooledSize < n \<or>
    (let i = ClassForSize n in
       cached (class_tls s i t) = [] \<and> TreiberStack_Empty (free_lists s i) \<and>
       (class_initialized s i \<or> alloc 64 (num_blocks i * alloc_size_of i) (buf_live s) = nullptr) \<and>
       alloc 64 (alloc_size_of i) (buf_live (EnsureClassPopulated alloc i s)) = nullptr)"
proof (cases "kBufferPoolMaxPooledSize < n")
  case True
  then have "kBufferPoolNumClasses \<le> ClassForSize n" using ClassForSize_lt [of n] by linarith
  then have "fst (Allocate alloc t n s) = nullptr" by (simp add: Allocate_def)
  then show ?thesis using True by simp
next
  case False
  then have i: "ClassForSize n < kBufferPoolNumClasses" by (simp add: ClassForSize_lt)
  then have ni: "\<not> kBufferPoolNumClasses \<le> ClassForSize n" by simp
  let ?i = "ClassForSize n"
  let ?g = "EnsureClassPopulated alloc ?i s"
  obtain p1 c where c: "ClassCache_Pop (class_tls s ?i t) = (p1, c)" by fastforce
  obtain p2 fl2 where f2: "TreiberStack_Pop (free_lists s ?i) (buf_mem s) = (p2, fl2)" by fastforce
  obtain p3 fl3 where f3: "TreiberStack_Pop (free_lists ?g ?i) (buf_mem ?g) = (p3, fl3)" by fastforce
  note defs = Allocate_def Let_def c f2 f3
  have empty: "TreiberStack_Empty (free_lists s ?i) \<longleftrightarrow> xs ?i = []"
    by (rule treiber.empty_list [OF bucket_okD(1) [OF buf_invD(1) [OF inv i]]])
  obtain ns where gi: "buf_inv (xs(?i := ns @ xs ?i)) out ?g" and ns: "ns = [] \<longleftrightarrow>
      class_initialized s ?i \<or> alloc 64 (num_blocks ?i * alloc_size_of ?i) (buf_live s) = nullptr"
    using EnsureClassPopulated_inv [OF assms(1) inv i] by (elim exE conjE) (rule that)
  show ?thesis
  proof (cases rule: class_cache_attempt [OF inv i c])
    case 2
    have "fst (Allocate alloc t n s) \<noteq> nullptr" using Allocate_hit [OF i c] 2(2) by simp
    then show ?thesis using False 2(1) by (simp add: Let_def)
  next
    case 1
    note A = 1
    show ?thesis
    proof (cases rule: class_pop_attempt [OF inv i f2])
      case 2
      have "fst (Allocate alloc t n s) \<noteq> nullptr" using 2(2) A ni by (simp add: defs)
      then show ?thesis using False 2(1) empty by (simp add: Let_def)
    next
      case 1
      note B = 1
      show ?thesis
      proof (cases rule: class_pop_attempt [OF gi i f3])
        case 2
        have "fst (Allocate alloc t n s) \<noteq> nullptr" using 2(2) A B ni by (simp add: defs)
        moreover have "ns \<noteq> []" using 2(1) B(1) by auto
        ultimately show ?thesis using False ns by (simp add: Let_def)
      next
        case 1
        then have "fst (Allocate alloc t n s) = fst (AllocateFromSystem alloc ?i ?g)"
          using A B ni by (simp add: defs)
        then have "fst (Allocate alloc t n s) = alloc 64 (alloc_size_of ?i) (buf_live ?g)"
          by (simp add: AllocateFromSystem_def buf_aligned_alloc_def Let_def)
        moreover have "ns = []" using 1(1) by auto
        ultimately show ?thesis using False ns A(1) B(1) empty by (simp add: Let_def)
      qed
    qed
  qed
qed

theorem allocate_null_iff_witness:
  "fst (Allocate tight_alloc 0 65537 one_used) = nullptr \<and>
   fst (Allocate tight_alloc 0 65536 one_used) \<noteq> nullptr"
proof -
  obtain xs where inv: "buf_inv xs ((\<lambda>_. {})(3 := {64})) one_used"
    using buf_reach_inv tight_alloc_ok one_used_reach by blast
  have "alloc_size_of (ClassForSize 65536) = 65600"
    by (simp add: alloc_size_of_def ClassForSize_def size_consts)
  then show ?thesis
    using allocate_null_iff [OF tight_alloc_ok inv, of 0 65537]
      allocate_null_iff [OF tight_alloc_ok inv, of 0 65536] tight_alloc_nonnull [of 65600]
    by (simp add: kBufferPoolMaxPooledSize_def Let_def)
qed

end
