(* ===== verification/Kernel_Buf.thy ===== *)
theory Kernel_Buf
  imports Buffer_Pool
begin

text \<open>
  \<^verbatim>\<open>async_io_kernelbuf.hpp\<close>: the buffer of a task. Its bytes live in the object itself (up to
  256), in a block of the \<^verbatim>\<open>BufferPool\<close>, or in a \<^verbatim>\<open>std::vector\<close>.
\<close>

section \<open>State\<close>

datatype StorageTag = TagNone | TagSbo | TagPool | TagHeap

text \<open>
  \<^verbatim>\<open>heap_vec\<close> is the heap block of the vector, none for an empty one. \<^verbatim>\<open>io_value\<close> and \<^verbatim>\<open>io_fd\<close> are the
  two fields of \<^verbatim>\<open>IORet\<close>.
\<close>

record KernelBuf =
  kb_size :: nat
  kb_offset :: int
  storage_tag :: StorageTag
  sbo_data :: "byte list"
  pool_data :: ptr
  pool_alloc_size :: nat
  heap_vec :: "nat option"
  io_value :: int
  io_fd :: int

text \<open>The process-wide buffer pool and the blocks that vectors own.\<close>

record kb_world =
  bpool :: BufferPool
  vecs :: "nat \<rightharpoonup> byte list"
  vnext :: nat

datatype kb_fault = HeapUseAfterFree | NullData | OutOfRange | PoolLoops

text \<open>
  What \<^verbatim>\<open>Data()\<close> may point to: the array in the object, a block of the pool with the number of
  bytes that were asked for, or the block of the vector.
\<close>

datatype data_ptr = DNull | DSbo | DPool ptr nat | DVec nat

definition vec_new :: "nat \<Rightarrow> kb_world \<Rightarrow> nat option \<times> kb_world" where
  "vec_new n w =
     (if n = 0 then (None, w)
      else (Some (vnext w), w\<lparr>vecs := (vecs w)(vnext w \<mapsto> replicate n 0), vnext := vnext w + 1\<rparr>))"

definition vec_destroy :: "nat option \<Rightarrow> kb_world \<Rightarrow> kb_world" where
  "vec_destroy v w = (case v of None \<Rightarrow> w | Some b \<Rightarrow> w\<lparr>vecs := (vecs w)(b := None)\<rparr>)"

section \<open>Operations\<close>

definition KernelBuf_Data :: "KernelBuf \<Rightarrow> data_ptr" where
  "KernelBuf_Data k =
     (case storage_tag k of
        TagSbo \<Rightarrow> DSbo
      | TagPool \<Rightarrow> if pool_data k = nullptr then DNull else DPool (pool_data k) (pool_alloc_size k)
      | TagHeap \<Rightarrow> (case heap_vec k of None \<Rightarrow> DNull | Some b \<Rightarrow> DVec b)
      | TagNone \<Rightarrow> DNull)"

text \<open>The switch to a new vector: destroy the old one, construct one of \<^verbatim>\<open>n\<close> zero bytes.\<close>

definition storage_heap :: "nat \<Rightarrow> KernelBuf \<times> kb_world \<Rightarrow> KernelBuf \<times> kb_world" where
  "storage_heap n kw =
     (let (k, w) = kw; (v, w') = vec_new n (vec_destroy (heap_vec k) w)
      in (k\<lparr>storage_tag := TagHeap, heap_vec := v\<rparr>, w'))"

definition AllocateStorage ::
    "allocator \<Rightarrow> tid \<Rightarrow> nat \<Rightarrow> KernelBuf \<times> kb_world \<Rightarrow> KernelBuf \<times> kb_world" where
  "AllocateStorage alloc t n kw =
     (let (k, w) = kw;
          (k', w') =
            (if n \<le> kKernelBufSboSize
             then (k\<lparr>storage_tag := TagSbo, sbo_data := replicate kKernelBufSboSize 0\<rparr>, w)
             else if n \<le> kBufferPoolMaxPooledSize
             then let (buf, bp) = Allocate alloc t n (bpool w); w1 = w\<lparr>bpool := bp\<rparr>
                  in if buf \<noteq> nullptr
                     then (k\<lparr>storage_tag := TagPool, pool_data := buf, pool_alloc_size := n\<rparr>, w1)
                     else storage_heap n (k, w1)
             else storage_heap n (k, w))
      in (k'\<lparr>kb_size := n\<rparr>, w'))"

definition DestroyStorage :: "tid \<Rightarrow> KernelBuf \<times> kb_world \<Rightarrow> kb_fault + KernelBuf \<times> kb_world" where
  "DestroyStorage t kw =
     (let (k, w) = kw
      in case storage_tag k of
           TagSbo \<Rightarrow> Inr (k\<lparr>storage_tag := TagNone\<rparr>, w)
         | TagPool \<Rightarrow>
             if pool_data k \<noteq> nullptr
             then (case Deallocate t (pool_data k) (pool_alloc_size k) (bpool w) of
                     None \<Rightarrow> Inl PoolLoops
                   | Some bp \<Rightarrow> Inr (k\<lparr>pool_data := nullptr, pool_alloc_size := 0, storage_tag := TagNone\<rparr>,
                                    w\<lparr>bpool := bp\<rparr>))
             else Inr (k\<lparr>storage_tag := TagNone\<rparr>, w)
         | TagHeap \<Rightarrow> Inr (k\<lparr>heap_vec := None, storage_tag := TagNone\<rparr>, vec_destroy (heap_vec k) w)
         | TagNone \<Rightarrow> Inr (k\<lparr>storage_tag := TagNone\<rparr>, w))"

definition MoveStorageFrom :: "KernelBuf \<Rightarrow> KernelBuf \<Rightarrow> KernelBuf \<times> KernelBuf" where
  "MoveStorageFrom this other =
     (let this1 = this\<lparr>storage_tag := storage_tag other\<rparr>;
          (this2, other2) =
            (case storage_tag other of
               TagSbo \<Rightarrow> (this1\<lparr>sbo_data := sbo_data other\<rparr>, other)
             | TagPool \<Rightarrow> (this1\<lparr>pool_data := pool_data other, pool_alloc_size := pool_alloc_size other\<rparr>,
                          other\<lparr>pool_data := nullptr, pool_alloc_size := 0\<rparr>)
             | TagHeap \<Rightarrow> (this1\<lparr>heap_vec := heap_vec other\<rparr>, other\<lparr>heap_vec := None\<rparr>)
             | TagNone \<Rightarrow> (this1, other))
      in (this2, other2\<lparr>storage_tag := TagNone\<rparr>))"

text \<open>The members as their default initialisers set them.\<close>

definition kb_fresh :: KernelBuf where
  "kb_fresh = \<lparr>kb_size = 0, kb_offset = 0, storage_tag = TagNone, sbo_data = replicate kKernelBufSboSize 0,
     pool_data = nullptr, pool_alloc_size = 0, heap_vec = None, io_value = 0, io_fd = 0\<rparr>"

definition KernelBuf_construct ::
    "allocator \<Rightarrow> tid \<Rightarrow> nat \<Rightarrow> kb_world \<Rightarrow> KernelBuf \<times> kb_world" where
  "KernelBuf_construct alloc t sz w = AllocateStorage alloc t sz (kb_fresh\<lparr>kb_size := sz\<rparr>, w)"

definition KernelBuf_move_construct :: "KernelBuf \<Rightarrow> KernelBuf \<times> KernelBuf" where
  "KernelBuf_move_construct other =
     (let this = kb_fresh\<lparr>kb_size := kb_size other, kb_offset := kb_offset other,
            io_value := io_value other, io_fd := io_fd other\<rparr>;
          (this1, other1) = MoveStorageFrom this other
      in (this1, other1\<lparr>kb_size := 0, kb_offset := 0\<rparr>))"

text \<open>Move assignment of two different objects; with the same object it does nothing.\<close>

definition KernelBuf_move_assign ::
    "tid \<Rightarrow> KernelBuf \<Rightarrow> KernelBuf \<Rightarrow> kb_world \<Rightarrow> kb_fault + KernelBuf \<times> KernelBuf \<times> kb_world" where
  "KernelBuf_move_assign t this other w =
     and_then (DestroyStorage t (this, w)) (\<lambda>(this1, w1).
       let this2 = this1\<lparr>kb_size := kb_size other, kb_offset := kb_offset other,
             io_value := io_value other, io_fd := io_fd other\<rparr>;
           (this3, other1) = MoveStorageFrom this2 other
       in Inr (this3, other1\<lparr>kb_size := 0, kb_offset := 0\<rparr>, w1))"

definition KernelBuf_destroy :: "tid \<Rightarrow> KernelBuf \<times> kb_world \<Rightarrow> kb_fault + kb_world" where
  "KernelBuf_destroy t kw =
     and_then (DestroyStorage t kw) (\<lambda>(k, w). Inr (vec_destroy (heap_vec k) w))"

text \<open>Reading and writing \<^verbatim>\<open>n\<close> bytes through a data pointer, for \<^verbatim>\<open>memcpy\<close> and the index operator.\<close>

definition load_bytes :: "data_ptr \<Rightarrow> nat \<Rightarrow> KernelBuf \<times> kb_world \<Rightarrow> kb_fault + byte list" where
  "load_bytes d n kw =
     (let (k, w) = kw
      in case d of
           DNull \<Rightarrow> Inl NullData
         | DSbo \<Rightarrow> if n \<le> length (sbo_data k) then Inr (take n (sbo_data k)) else Inl OutOfRange
         | DPool p cap \<Rightarrow> if n \<le> cap then Inr (read_bytes p n (buf_mem (bpool w))) else Inl OutOfRange
         | DVec b \<Rightarrow> (case vecs w b of
                       None \<Rightarrow> Inl HeapUseAfterFree
                     | Some bs \<Rightarrow> if n \<le> length bs then Inr (take n bs) else Inl OutOfRange))"

definition store_bytes ::
    "data_ptr \<Rightarrow> byte list \<Rightarrow> KernelBuf \<times> kb_world \<Rightarrow> kb_fault + KernelBuf \<times> kb_world" where
  "store_bytes d xs kw =
     (let (k, w) = kw
      in case d of
           DNull \<Rightarrow> Inl NullData
         | DSbo \<Rightarrow> if length xs \<le> length (sbo_data k)
                   then Inr (k\<lparr>sbo_data := xs @ drop (length xs) (sbo_data k)\<rparr>, w) else Inl OutOfRange
         | DPool p cap \<Rightarrow> if length xs \<le> cap
                   then Inr (k, w\<lparr>bpool := (bpool w)\<lparr>buf_mem := write_bytes p xs (buf_mem (bpool w))\<rparr>\<rparr>)
                   else Inl OutOfRange
         | DVec b \<Rightarrow> (case vecs w b of
                       None \<Rightarrow> Inl HeapUseAfterFree
                     | Some bs \<Rightarrow> if length xs \<le> length bs
                         then Inr (k, w\<lparr>vecs := (vecs w)(b \<mapsto> xs @ drop (length xs) bs)\<rparr>)
                         else Inl OutOfRange))"

definition KernelBuf_Resize ::
    "allocator \<Rightarrow> tid \<Rightarrow> nat \<Rightarrow> KernelBuf \<times> kb_world \<Rightarrow> kb_fault + KernelBuf \<times> kb_world" where
  "KernelBuf_Resize alloc t new_size kw =
     (let (k, w) = kw
      in if new_size = kb_size k \<and> storage_tag k \<noteq> TagNone then Inr (k, w)
         else let copy_size = (if new_size < kb_size k then new_size else kb_size k);
                  old_data = (if storage_tag k \<noteq> TagNone then KernelBuf_Data k else DNull)
              in and_then (DestroyStorage t (k, w)) (\<lambda>kw1.
                   let kw2 = AllocateStorage alloc t new_size kw1
                   in and_then
                        (if old_data \<noteq> DNull \<and> 0 < copy_size
                         then and_then (load_bytes old_data copy_size kw2)
                                (\<lambda>xs. store_bytes (KernelBuf_Data (fst kw2)) xs kw2)
                         else Inr kw2)
                        (\<lambda>(k3, w3). Inr (k3\<lparr>kb_size := new_size\<rparr>, w3))))"

definition SetFdOffset :: "int \<Rightarrow> KernelBuf \<Rightarrow> KernelBuf" where
  "SetFdOffset off k = k\<lparr>kb_offset := off\<rparr>"

definition SetBytesTransferred :: "int \<Rightarrow> KernelBuf \<Rightarrow> KernelBuf" where
  "SetBytesTransferred ret k = k\<lparr>io_value := ret\<rparr>"

definition SetActiveFileDescriptor :: "int \<Rightarrow> KernelBuf \<Rightarrow> KernelBuf" where
  "SetActiveFileDescriptor fd k = k\<lparr>io_fd := fd\<rparr>"

definition MakeKernelBuffer :: "allocator \<Rightarrow> tid \<Rightarrow> nat \<Rightarrow> kb_world \<Rightarrow> KernelBuf \<times> kb_world" where
  "MakeKernelBuffer alloc t sz w = KernelBuf_construct alloc t sz w"

section \<open>Well-formed buffers\<close>

text \<open>
  \<^verbatim>\<open>out\<close> are the pool blocks in use, as in \<^verbatim>\<open>Buffer_Pool\<close>. A buffer owns its pool block or its
  vector, and its storage is as large as \<^verbatim>\<open>size\<close> says.
\<close>

definition kb_ok :: "(nat \<Rightarrow> ptr set) \<Rightarrow> KernelBuf \<Rightarrow> kb_world \<Rightarrow> bool" where
  "kb_ok out k w \<longleftrightarrow> length (sbo_data k) = kKernelBufSboSize \<and>
     (case storage_tag k of
        TagSbo \<Rightarrow> kb_size k \<le> kKernelBufSboSize \<and> heap_vec k = None
      | TagPool \<Rightarrow> kb_size k \<le> kBufferPoolMaxPooledSize \<and> pool_alloc_size k = kb_size k \<and>
          pool_data k \<in> out (ClassForSize (kb_size k)) \<and> pool_data k \<noteq> nullptr \<and> heap_vec k = None
      | TagHeap \<Rightarrow> (case heap_vec k of None \<Rightarrow> False
          | Some b \<Rightarrow> b < vnext w \<and> map_option length (vecs w b) = Some (kb_size k))
      | TagNone \<Rightarrow> heap_vec k = None)"

definition kb_contents :: "KernelBuf \<Rightarrow> kb_world \<Rightarrow> byte list" where
  "kb_contents k w =
     (case load_bytes (KernelBuf_Data k) (kb_size k) (k, w) of Inl _ \<Rightarrow> [] | Inr xs \<Rightarrow> xs)"

lemma length_read_bytes [simp]: "length (read_bytes p n m) = n"
  by (simp add: read_bytes_def)

lemma read_write_bytes [simp]: "read_bytes p (length xs) (write_bytes p xs m) = xs"
  by (rule nth_equalityI) (simp_all add: read_bytes_def put_bytes_def)

lemma take_read_bytes [simp]: "k \<le> n \<Longrightarrow> take k (read_bytes p n m) = read_bytes p k m"
  by (auto simp: read_bytes_def take_map)

lemmas kb_defs = kb_ok_def kb_contents_def load_bytes_def store_bytes_def KernelBuf_Data_def

text \<open>Writing a prefix of the buffer and reading it back.\<close>

lemma store_contents:
  assumes "kb_ok out k w" and "storage_tag k \<noteq> TagNone" and "length xs \<le> kb_size k"
  shows "\<exists>k' w'. store_bytes (KernelBuf_Data k) xs (k, w) = Inr (k', w') \<and>
           take (length xs) (kb_contents k' w') = xs \<and> kb_size k' = kb_size k"
  using assms
  by (cases "storage_tag k") (auto simp: kb_defs split: option.splits)

lemma load_contents:
  assumes "kb_ok out k w" and "storage_tag k \<noteq> TagNone" and "n \<le> kb_size k"
  shows "load_bytes (KernelBuf_Data k) n (k, w) = Inr (take n (kb_contents k w))"
  using assms
  by (cases "storage_tag k") (auto simp: kb_defs min_def split: option.splits)

lemma vec_destroy_frame [simp]: "bpool (vec_destroy v w) = bpool w" "vnext (vec_destroy v w) = vnext w"
  by (simp_all add: vec_destroy_def split: option.split)

text \<open>\<^verbatim>\<open>AllocateStorage\<close> on an object without storage.\<close>

lemma storage_heap_ok:
  assumes "heap_vec k = None" and "length (sbo_data k) = kKernelBufSboSize" and "0 < n"
    and "storage_heap n (k, w) = (k', w')"
  shows "kb_ok out (k'\<lparr>kb_size := n\<rparr>) w' \<and> storage_tag k' = TagHeap \<and> bpool w' = bpool w \<and>
    kb_contents (k'\<lparr>kb_size := n\<rparr>) w' = replicate n 0 \<and> (\<forall>b < vnext w. vecs w' b = vecs w b)"
  using assms by (auto simp: storage_heap_def vec_new_def vec_destroy_def kb_defs)

lemma AllocateStorage_ok:
  assumes ok: "allocator_ok alloc" and inv: "buf_inv xs out (bpool w)" and hv: "heap_vec k = None"
    and sbo: "length (sbo_data k) = kKernelBufSboSize"
    and al: "AllocateStorage alloc t n (k, w) = (k', w')"
  shows "\<exists>out' xs'. buf_inv xs' out' (bpool w') \<and> kb_ok out' k' w' \<and> kept xs out (bpool w) (bpool w') \<and>
    kb_size k' = n \<and> storage_tag k' \<noteq> TagNone \<and>
    (storage_tag k' \<noteq> TagPool \<longrightarrow> kb_contents k' w' = replicate n 0 \<and> out' = out) \<and>
    (storage_tag k' = TagPool \<longrightarrow> pool_data k' \<notin> out (ClassForSize n) \<and>
       out' = out(ClassForSize n := insert (pool_data k') (out (ClassForSize n)))) \<and>
    (\<forall>b < vnext w. vecs w' b = vecs w b)"
proof -
  consider "n \<le> kKernelBufSboSize"
    | "\<not> n \<le> kKernelBufSboSize" "n \<le> kBufferPoolMaxPooledSize"
    | "\<not> n \<le> kKernelBufSboSize" "\<not> n \<le> kBufferPoolMaxPooledSize" by blast
  then show ?thesis
  proof cases
    case 1
    then show ?thesis
      using al inv hv
      by (intro exI [of _ out] exI [of _ xs]) (auto simp: AllocateStorage_def kb_defs kept_def)
  next
    case 2
    obtain p bp where a: "Allocate alloc t n (bpool w) = (p, bp)" by fastforce
    note A = Allocate_inv [OF ok inv a]
    show ?thesis
    proof (cases "p = nullptr")
      case True
      then obtain k1 w1 where h: "storage_heap n (k, w\<lparr>bpool := bp\<rparr>) = (k1, w1)" by fastforce
      then have e: "k' = k1\<lparr>kb_size := n\<rparr>" "w' = w1"
        using al a 2 True by (simp_all add: AllocateStorage_def)
      have "0 < n" using 2 by linarith
      note H = storage_heap_ok [OF hv sbo this h, of out]
      obtain xs' where "buf_inv xs' out bp" using A True by blast
      then show ?thesis using H A e by (intro exI [of _ out] exI [of _ xs']) simp
    next
      case False
      have e: "k' = k\<lparr>storage_tag := TagPool, pool_data := p, pool_alloc_size := n, kb_size := n\<rparr>"
          "w' = w\<lparr>bpool := bp\<rparr>" using al a 2 False by (simp_all add: AllocateStorage_def)
      let ?out = "out(ClassForSize n := insert p (out (ClassForSize n)))"
      obtain xs' where x: "buf_inv xs' ?out bp" "p \<notin> out (ClassForSize n)" using A False by blast
      have "kb_ok ?out k' w'" using e 2 False sbo hv by (simp add: kb_ok_def)
      then show ?thesis using A x e by (intro exI [of _ ?out] exI [of _ xs']) simp
    qed
  next
    case 3
    obtain k1 w1 where h: "storage_heap n (k, w) = (k1, w1)" by fastforce
    then have e: "k' = k1\<lparr>kb_size := n\<rparr>" "w' = w1"
      using al 3 by (simp_all add: AllocateStorage_def)
    have "0 < n" using 3 by linarith
    note H = storage_heap_ok [OF hv sbo this h, of out]
    then show ?thesis using inv e by (intro exI [of _ out] exI [of _ xs]) (simp add: kept_def)
  qed
qed

section \<open>Properties\<close>

text \<open>
  Constructing a buffer never fails, for every size: it ends up with storage of at least
  that size, in the object, in a fresh block of the pool, or, when the pool has none or the
  size is above the largest class, in a vector; what is not in the pool is zeroed.
\<close>

theorem construct_storage:
  assumes "allocator_ok alloc" and "buf_reach alloc out (bpool w)"
    and "KernelBuf_construct alloc t n w = (k, w')"
  shows "kb_size k = n \<and> storage_tag k \<noteq> TagNone \<and>
    (storage_tag k = TagSbo \<longleftrightarrow> n \<le> kKernelBufSboSize) \<and>
    (storage_tag k = TagPool \<longrightarrow> n \<le> kBufferPoolMaxPooledSize \<and> pool_data k \<notin> out (ClassForSize n) \<and>
       kb_ok (out(ClassForSize n := insert (pool_data k) (out (ClassForSize n)))) k w') \<and>
    (storage_tag k \<noteq> TagPool \<longrightarrow> kb_ok out k w' \<and> kb_contents k w' = replicate n 0)"
proof -
  obtain xs where inv: "buf_inv xs out (bpool w)" using buf_reach_inv assms(1,2) by blast
  have al: "AllocateStorage alloc t n (kb_fresh\<lparr>kb_size := n\<rparr>, w) = (k, w')"
    using assms(3) by (simp add: KernelBuf_construct_def)
  have "heap_vec (kb_fresh\<lparr>kb_size := n\<rparr>) = None"
    "length (sbo_data (kb_fresh\<lparr>kb_size := n\<rparr>)) = kKernelBufSboSize" by (simp_all add: kb_fresh_def)
  from AllocateStorage_ok [OF assms(1) inv this al] obtain out' where
    o: "kb_ok out' k w'" "kb_size k = n" "storage_tag k \<noteq> TagNone"
    "storage_tag k \<noteq> TagPool \<longrightarrow> kb_contents k w' = replicate n 0 \<and> out' = out"
    "storage_tag k = TagPool \<longrightarrow> pool_data k \<notin> out (ClassForSize n) \<and>
       out' = out(ClassForSize n := insert (pool_data k) (out (ClassForSize n)))" by blast
  moreover have "storage_tag k = TagSbo \<longleftrightarrow> n \<le> kKernelBufSboSize"
    using al by (auto simp: AllocateStorage_def storage_heap_def Let_def split: prod.splits if_splits)
  ultimately show ?thesis unfolding kb_ok_def by auto
qed

text \<open>\<^verbatim>\<open>DestroyStorage\<close> of a pooled buffer: the block goes to the thread's cache with its contents.\<close>

abbreviation emptied :: "KernelBuf \<Rightarrow> KernelBuf" where
  "emptied k \<equiv> k\<lparr>pool_data := nullptr, pool_alloc_size := 0, storage_tag := TagNone\<rparr>"

lemma DestroyStorage_pool:
  assumes inv: "buf_inv xs out (bpool w)" and k: "kb_ok out k w" and tag: "storage_tag k = TagPool"
    and i_def: "i = ClassForSize (kb_size k)"
  obtains s' xs' where "DestroyStorage t (k, w) = Inr (emptied k, w\<lparr>bpool := s'\<rparr>)"
    "Deallocate t (pool_data k) (kb_size k) (bpool w) = Some s'"
    "buf_inv xs' (out(i := out i - {pool_data k})) s'"
    "pool_data k \<in> class_nodes xs' (out(i := out i - {pool_data k})) s' i"
    "bytes (buf_mem s') (pool_data k) = bytes (buf_mem (bpool w)) (pool_data k)"
proof -
  have i: "i < kBufferPoolNumClasses" and p: "pool_data k \<in> out i" and kk: "pool_alloc_size k = kb_size k"
    "pool_data k \<noteq> nullptr"
    using k tag by (simp_all add: kb_ok_def ClassForSize_lt i_def)
  obtain s' xs' ys where d: "Deallocate t (pool_data k) (kb_size k) (bpool w) = Some s'"
      "buf_inv xs' (out(i := out i - {pool_data k})) s'" "cached (class_tls s' i t) = ys @ [pool_data k]"
      "bytes (buf_mem s') (pool_data k) = bytes (buf_mem (bpool w)) (pool_data k)"
    using Deallocate_inv [of xs out "bpool w" "kb_size k" "pool_data k" t] inv i p
    unfolding i_def by blast
  have "pool_data k \<in> set (caches (class_tls s' i) t)" unfolding caches_apply d(3) by simp
  then have n: "pool_data k \<in> class_nodes xs' (out(i := out i - {pool_data k})) s' i"
    by (rule all_nodesI(2))
  have "DestroyStorage t (k, w) = Inr (emptied k, w\<lparr>bpool := s'\<rparr>)"
    using tag kk d(1) by (simp add: DestroyStorage_def)
  from that [OF this d(1,2) n d(4)] show ?thesis .
qed

text \<open>The copy step of \<^verbatim>\<open>Resize\<close>, once the old bytes could be read.\<close>

lemma copy_into_new:
  assumes "kb_ok out k w" and "storage_tag k \<noteq> TagNone" and "length xs \<le> kb_size k" and "kb_size k = n"
  shows "\<exists>k' w'. and_then (store_bytes (KernelBuf_Data k) xs (k, w))
             (\<lambda>(k3, w3). Inr (k3\<lparr>kb_size := n\<rparr>, w3)) = Inr (k', w') \<and>
           kb_size k' = n \<and> take (length xs) (kb_contents k' w') = xs"
proof -
  obtain k' w' where st: "store_bytes (KernelBuf_Data k) xs (k, w) = Inr (k', w')"
      "take (length xs) (kb_contents k' w') = xs" "kb_size k' = kb_size k"
    using store_contents [OF assms(1-3)] by blast
  have "k'\<lparr>kb_size := n\<rparr> = k'" using st(3) assms(4) by simp
  then show ?thesis
    using st(2,3) assms(4) unfolding st(1) by (intro exI [of _ k'] exI [of _ w']) simp
qed

lemma read_bytes_cong: "bytes m' p = bytes m p \<Longrightarrow> read_bytes p n m' = read_bytes p n m"
  by (simp add: read_bytes_def)

lemma resize_destroy:
  assumes inv: "buf_inv xs out (bpool w)" and k: "kb_ok out k w"
    and "storage_tag k = TagPool \<or> storage_tag k = TagSbo \<and> q"
  obtains k1 w1 out1 xs1 where "DestroyStorage t (k, w) = Inr (k1, w1)" "buf_inv xs1 out1 (bpool w1)"
    "heap_vec k1 = None" "sbo_data k1 = sbo_data k"
    "storage_tag k = TagPool \<longrightarrow>
       pool_data k \<in> class_nodes xs1 out1 (bpool w1) (ClassForSize (kb_size k)) \<and>
       bytes (buf_mem (bpool w1)) (pool_data k) = bytes (buf_mem (bpool w)) (pool_data k)"
proof (cases "storage_tag k = TagPool")
  case True
  have hv: "heap_vec k = None" using k True by (simp add: kb_ok_def)
  show ?thesis
  proof (cases rule: DestroyStorage_pool [OF inv k True refl, of t])
    case (1 s' xs')
    from that [OF 1(1), of xs'] 1(3-5) hv show ?thesis by simp
  qed
next
  case False
  then have "DestroyStorage t (k, w) = Inr (k\<lparr>storage_tag := TagNone\<rparr>, w)" "heap_vec k = None"
    using assms(2,3) by (auto simp: DestroyStorage_def kb_ok_def)
  then show ?thesis using that [of _ w xs out] inv False by simp
qed

text \<open>
  The first half of \<^verbatim>\<open>Resize\<close>: the old storage is given up, the new one is there, and the old bytes
  can still be read.
\<close>

lemma resize_load:
  assumes "allocator_ok alloc" and inv: "buf_inv xs out (bpool w)" and k: "kb_ok out k w"
    and tg: "storage_tag k = TagPool \<or> storage_tag k = TagSbo \<and> kKernelBufSboSize < n" and c: "c \<le> kb_size k"
  obtains k1 w1 k2 w2 out2 where "DestroyStorage t (k, w) = Inr (k1, w1)" "AllocateStorage alloc t n (k1, w1) = (k2, w2)"
    "kb_ok out2 k2 w2" "kb_size k2 = n" "storage_tag k2 \<noteq> TagNone"
    "load_bytes (KernelBuf_Data k) c (k2, w2) = Inr (take c (kb_contents k w))"
proof -
  obtain k1 w1 out1 xs1 where d: "DestroyStorage t (k, w) = Inr (k1, w1)" "buf_inv xs1 out1 (bpool w1)"
    "heap_vec k1 = None" "sbo_data k1 = sbo_data k"
    and dp: "storage_tag k = TagPool \<longrightarrow>
       pool_data k \<in> class_nodes xs1 out1 (bpool w1) (ClassForSize (kb_size k)) \<and>
       bytes (buf_mem (bpool w1)) (pool_data k) = bytes (buf_mem (bpool w)) (pool_data k)"
    by (rule resize_destroy [OF inv assms(3,4), of t])
  obtain k2 w2 where a: "AllocateStorage alloc t n (k1, w1) = (k2, w2)" by fastforce
  have sbo: "length (sbo_data k1) = kKernelBufSboSize" using assms(3) d(4) by (simp add: kb_ok_def)
  obtain out2 where k2: "kb_ok out2 k2 w2" "kb_size k2 = n" "storage_tag k2 \<noteq> TagNone"
    and kept: "kept xs1 out1 (bpool w1) (bpool w2)"
    using AllocateStorage_ok [OF assms(1) d(2,3) sbo a] by (elim exE conjE) (rule that)
  have load: "load_bytes (KernelBuf_Data k) c (k2, w2) = Inr (take c (kb_contents k w))"
  proof (cases "storage_tag k = TagPool")
    case True
    have i: "ClassForSize (kb_size k) < kBufferPoolNumClasses"
      using assms(3) True by (simp add: kb_ok_def ClassForSize_lt)
    note m = dp [THEN mp, OF True]
    have "bytes (buf_mem (bpool w2)) (pool_data k) = bytes (buf_mem (bpool w)) (pool_data k)"
      by (rule trans [OF keptD [OF kept i m [THEN conjunct1]] m [THEN conjunct2]])
    note rd = read_bytes_cong [OF this, of c]
    show ?thesis
      using True assms(3) rd c by (simp add: kb_defs min_absorb1)
  next
    case False
    then have "storage_tag k = TagSbo" "sbo_data k2 = sbo_data k"
      using assms(4) a d(4) by (auto simp: AllocateStorage_def storage_heap_def Let_def
          split: prod.splits if_splits)
    then show ?thesis using assms(3) c by (auto simp: kb_defs min_def)
  qed
  show thesis by (rule that [OF d(1) a k2 load])
qed

text \<open>
  C14: \<^verbatim>\<open>Resize\<close> keeps the common prefix of the data, and never faults, when the buffer was in the
  pool (whatever it moves to), or when it moves out of the object into larger storage. The
  old block is read after it was given back; it is safe because the block waits in the
  calling thread's own cache.
\<close>

theorem resize_keeps_prefix:
  assumes "allocator_ok alloc" and "buf_reach alloc out (bpool w)" and "kb_ok out k w"
    and "storage_tag k = TagPool \<or> storage_tag k = TagSbo \<and> kKernelBufSboSize < n"
  shows "\<exists>k' w'. KernelBuf_Resize alloc t n (k, w) = Inr (k', w') \<and> kb_size k' = n \<and>
    take (min n (kb_size k)) (kb_contents k' w') = take (min n (kb_size k)) (kb_contents k w)"
proof (cases "n = kb_size k")
  case True
  then show ?thesis using assms(4) by (auto simp: KernelBuf_Resize_def)
next
  case False
  obtain xs where inv: "buf_inv xs out (bpool w)" using buf_reach_inv assms(1,2) by blast
  define c where "c = min n (kb_size k)"
  have tag: "storage_tag k \<noteq> TagNone" using assms(4) by auto
  obtain k1 w1 k2 w2 out2 where d: "DestroyStorage t (k, w) = Inr (k1, w1)" and a: "AllocateStorage alloc t n (k1, w1) = (k2, w2)"
    and k2: "kb_ok out2 k2 w2" "kb_size k2 = n" "storage_tag k2 \<noteq> TagNone"
    and load: "load_bytes (KernelBuf_Data k) c (k2, w2) = Inr (take c (kb_contents k w))"
    by (rule resize_load [OF assms(1) inv assms(3,4), of c t]) (simp add: c_def)
  have "length (kb_contents k w) = kb_size k"
    using load_contents [OF assms(3) tag order_refl] assms(3,4)
    by (auto simp: kb_defs min_def)
  then have len: "length (take c (kb_contents k w)) = c" by (simp add: c_def)
  obtain k3 w3 where C: "and_then (store_bytes (KernelBuf_Data k2) (take c (kb_contents k w)) (k2, w2))
      (\<lambda>(k3, w3). Inr (k3\<lparr>kb_size := n\<rparr>, w3)) = Inr (k3, w3)"
    "kb_size k3 = n" "take c (kb_contents k3 w3) = take c (kb_contents k w)"
    using copy_into_new [OF k2(1,3) _ k2(2), of "take c (kb_contents k w)"] len k2(2)
    by (auto simp: c_def)
  have data: "KernelBuf_Data k \<noteq> DNull" using assms(3,4) by (auto simp: kb_defs)
  have cc: "(if n < kb_size k then n else kb_size k) = c" by (simp add: c_def)
  have R: "KernelBuf_Resize alloc t n (k, w) =
      and_then (if 0 < c then and_then (Inr (take c (kb_contents k w)))
          (\<lambda>xs. store_bytes (KernelBuf_Data k2) xs (k2, w2)) else Inr (k2, w2))
        (\<lambda>(k3, w3). Inr (k3\<lparr>kb_size := n\<rparr>, w3))"
    using False tag data unfolding KernelBuf_Resize_def Let_def prod.case cc d
    by (simp add: a load)
  show ?thesis
    unfolding R c_def [symmetric] using C by (cases "0 < c") auto
qed

text \<open>For the examples: an empty world, and a buffer of three bytes inside the object.\<close>

definition empty_world :: kb_world where
  "empty_world = \<lparr>bpool = empty_pool, vecs = Map.empty, vnext = 0\<rparr>"

definition abc_buf :: KernelBuf where
  "abc_buf = kb_fresh\<lparr>kb_size := 3, storage_tag := TagSbo, sbo_data := [97, 98, 99] @ replicate 253 0\<rparr>"

lemma abc_buf_ok: "kb_ok out abc_buf w" "kb_contents abc_buf w = [97, 98, 99]"
  by (simp_all add: abc_buf_def kb_defs kb_fresh_def size_consts)

lemma empty_world_reach: "buf_reach tight_alloc (\<lambda>_. {}) (bpool empty_world)"
  using empty_pool_reach by (simp add: empty_world_def)

theorem resize_keeps_prefix_witness:
  "\<exists>k' w'. KernelBuf_Resize tight_alloc 0 5000 (abc_buf, empty_world) = Inr (k', w') \<and>
     kb_size k' = 5000 \<and> take 3 (kb_contents k' w') = [97, 98, 99]"
  using resize_keeps_prefix [OF tight_alloc_ok empty_world_reach abc_buf_ok(1), of 5000 0]
  by (simp add: abc_buf_ok(2)) (simp add: abc_buf_def size_consts)

theorem construct_storage_witness:
  "let (k, w) = KernelBuf_construct tight_alloc 0 100000 empty_world
   in storage_tag k \<noteq> TagNone \<and> kb_size k = 100000"
proof -
  obtain k w where c: "KernelBuf_construct tight_alloc 0 100000 empty_world = (k, w)" by fastforce
  show ?thesis using construct_storage [OF tight_alloc_ok empty_world_reach c] c by simp
qed

text \<open>
  \<^verbatim>\<open>Resize\<close> between two sizes that both fit into the object loses the data: the storage is
  cleared before the old bytes, which are the same memory, are copied.
\<close>

theorem resize_sbo_clears:
  assumes "kb_ok out k w" and "storage_tag k = TagSbo" and "n \<le> kKernelBufSboSize" and "n \<noteq> kb_size k"
  shows "\<exists>k'. KernelBuf_Resize alloc t n (k, w) = Inr (k', w) \<and> kb_size k' = n \<and>
    kb_contents k' w = replicate n 0"
proof -
  let ?k = "k\<lparr>storage_tag := TagSbo, sbo_data := replicate kKernelBufSboSize 0, kb_size := n\<rparr>"
  have "KernelBuf_Resize alloc t n (k, w) = Inr (?k, w)"
    using assms by (auto simp: KernelBuf_Resize_def DestroyStorage_def AllocateStorage_def kb_defs
        min_def Let_def replicate_add [symmetric])
  moreover have "kb_contents ?k w = replicate n 0" using assms(3) by (simp add: kb_defs min_def)
  ultimately show ?thesis by auto
qed

theorem resize_sbo_clears_witness:
  "\<exists>k'. KernelBuf_Resize tight_alloc 0 10 (abc_buf, empty_world) = Inr (k', empty_world) \<and>
     kb_contents k' empty_world = replicate 10 0"
  using resize_sbo_clears [OF abc_buf_ok(1) [of "\<lambda>_. {}" empty_world], of 10 tight_alloc 0]
  by (auto simp: abc_buf_def size_consts)

text \<open>
  C36: \<^verbatim>\<open>Resize\<close> of a buffer in a vector reads freed memory, whatever the new size is: the vector
  is destroyed before its old bytes are copied.
\<close>

theorem resize_heap_use_after_free:
  assumes "kb_ok out k w" and "storage_tag k = TagHeap" and "0 < n" and "0 < kb_size k" and "n \<noteq> kb_size k"
  shows "KernelBuf_Resize alloc t n (k, w) = Inl HeapUseAfterFree"
proof -
  obtain b where b: "heap_vec k = Some b" "b < vnext w" using assms(1,2) by (auto simp: kb_ok_def split: option.splits)
  let ?w = "vec_destroy (heap_vec k) w"
  obtain k2 w2 where a: "AllocateStorage alloc t n (k\<lparr>heap_vec := None, storage_tag := TagNone\<rparr>, ?w) = (k2, w2)"
    by fastforce
  have "vecs w2 b = None"
    using a b by (auto simp: AllocateStorage_def storage_heap_def vec_new_def vec_destroy_def Let_def
        split: prod.splits if_splits)
  then show ?thesis
    using assms(2-5) a b(1)
    by (simp add: KernelBuf_Resize_def DestroyStorage_def KernelBuf_Data_def load_bytes_def Let_def)
qed

theorem resize_heap_use_after_free_witness:
  "let (k, w) = KernelBuf_construct tight_alloc 0 100000 empty_world
   in KernelBuf_Resize tight_alloc 0 200000 (k, w) = Inl HeapUseAfterFree"
proof -
  define k where "k = kb_fresh\<lparr>kb_size := 100000, storage_tag := TagHeap, heap_vec := Some 0\<rparr>"
  define w where "w = empty_world\<lparr>vecs := [0 \<mapsto> replicate 100000 0], vnext := 1\<rparr>"
  have c: "KernelBuf_construct tight_alloc 0 100000 empty_world = (k, w)"
    by (simp add: KernelBuf_construct_def AllocateStorage_def storage_heap_def vec_new_def vec_destroy_def
        empty_world_def kb_fresh_def size_consts k_def w_def)
  have "kb_ok (\<lambda>_. {}) k w" by (simp add: kb_ok_def k_def w_def kb_fresh_def)
  from resize_heap_use_after_free [OF this, of 200000 tight_alloc 0] show ?thesis
    by (simp add: c k_def)
qed

text \<open>
  Moving a buffer moves the ownership of its storage: the new object has the old contents
  and stays well formed, the moved-from object is empty and its destruction frees nothing.
\<close>

theorem move_construct_owner:
  assumes "kb_ok out k w" and "KernelBuf_move_construct k = (k', old)"
  shows "kb_ok out k' w \<and> kb_size k' = kb_size k \<and> kb_contents k' w = kb_contents k w \<and>
    kb_offset k' = kb_offset k \<and> storage_tag old = TagNone \<and> kb_size old = 0 \<and>
    KernelBuf_destroy t (old, w) = Inr w"
  using assms
proof (cases "storage_tag k")
  case TagHeap
  then obtain b bs where b: "heap_vec k = Some b" "b < vnext w" "vecs w b = Some bs" "length bs = kb_size k"
    using assms(1) by (auto simp: kb_ok_def split: option.splits)
  have kk: "k' = kb_fresh\<lparr>kb_size := kb_size k, kb_offset := kb_offset k, storage_tag := TagHeap,
      heap_vec := Some b, io_value := io_value k, io_fd := io_fd k\<rparr>"
    "old = k\<lparr>heap_vec := None, storage_tag := TagNone, kb_size := 0, kb_offset := 0\<rparr>"
    using assms(2) TagHeap b(1) by (auto simp: KernelBuf_move_construct_def MoveStorageFrom_def)
  show ?thesis
    using b TagHeap by (simp add: kk kb_defs kb_fresh_def KernelBuf_destroy_def DestroyStorage_def
        vec_destroy_def)
qed (use assms in \<open>auto simp: KernelBuf_move_construct_def MoveStorageFrom_def kb_fresh_def kb_defs
      KernelBuf_destroy_def DestroyStorage_def vec_destroy_def\<close>)

theorem move_construct_owner_witness:
  "kb_contents (fst (KernelBuf_move_construct abc_buf)) empty_world = [97, 98, 99]"
  using move_construct_owner [OF abc_buf_ok(1) [of "\<lambda>_. {}" empty_world], of _ "snd (KernelBuf_move_construct abc_buf)"]
    abc_buf_ok(2) by (metis prod.collapse)

text \<open>
  Destroying a buffer never faults and gives back exactly what the buffer owned: a pooled
  block leaves the set of blocks in use, a vector is freed, nothing else changes.
\<close>

theorem destroy_frees_once:
  assumes "allocator_ok alloc" and "buf_reach alloc out (bpool w)" and "kb_ok out k w"
  shows "\<exists>w'. KernelBuf_destroy t (k, w) = Inr w' \<and>
    (case storage_tag k of
       TagPool \<Rightarrow> vecs w' = vecs w \<and> buf_reach alloc
         (out(ClassForSize (kb_size k) := out (ClassForSize (kb_size k)) - {pool_data k})) (bpool w')
     | TagHeap \<Rightarrow> bpool w' = bpool w \<and> vecs w' = (vecs w)(the (heap_vec k) := None)
     | _ \<Rightarrow> w' = w)"
proof (cases "storage_tag k = TagPool")
  case True
  obtain xs where inv: "buf_inv xs out (bpool w)" using buf_reach_inv assms(1,2) by blast
  have kk: "kb_size k \<le> kBufferPoolMaxPooledSize" "pool_data k \<in> out (ClassForSize (kb_size k))"
    "heap_vec k = None" using assms(3) True by (simp_all add: kb_ok_def)
  show ?thesis
  proof (cases rule: DestroyStorage_pool [OF inv assms(3) True refl, of t])
    case (1 s' xs')
    have "KernelBuf_destroy t (k, w) = Inr (w\<lparr>bpool := s'\<rparr>)"
      using kk(3) by (simp add: KernelBuf_destroy_def 1(1) vec_destroy_def)
    moreover have "buf_reach alloc
        (out(ClassForSize (kb_size k) := out (ClassForSize (kb_size k)) - {pool_data k})) s'"
      by (rule buf_reach.deallocate [OF assms(2) kk(1,2) 1(2)])
    ultimately show ?thesis using True by simp
  qed
next
  case False
  then show ?thesis
    using assms(3) by (cases "storage_tag k") (auto simp: KernelBuf_destroy_def DestroyStorage_def
        vec_destroy_def kb_ok_def split: option.splits)
qed

theorem destroy_frees_once_witness:
  "KernelBuf_destroy 0 (abc_buf, empty_world) = Inr empty_world"
  using destroy_frees_once [OF tight_alloc_ok empty_world_reach abc_buf_ok(1), of 0]
  by (simp add: abc_buf_def)

section \<open>Many buffers\<close>

text \<open>Two buffers that own different storage, and the effect of one buffer's life on the others.\<close>

definition bufs_apart :: "KernelBuf \<Rightarrow> KernelBuf \<Rightarrow> bool" where
  "bufs_apart k l \<longleftrightarrow>
     \<not> (storage_tag k = TagPool \<and> storage_tag l = TagPool \<and> pool_data k = pool_data l) \<and>
     \<not> (heap_vec k \<noteq> None \<and> heap_vec k = heap_vec l)"

lemma bufs_apart_sym: "bufs_apart k l \<Longrightarrow> bufs_apart l k"
  unfolding bufs_apart_def by metis

lemma kb_ok_mono:
  assumes "kb_ok out k w" and "storage_tag k = TagPool \<Longrightarrow> pool_data k \<in> out' (ClassForSize (kb_size k))"
    and "\<And>b. heap_vec k = Some b \<Longrightarrow> b < vnext w \<Longrightarrow> vecs w' b = vecs w b" and "vnext w \<le> vnext w'"
  shows "kb_ok out' k w'"
  using assms unfolding kb_ok_def
  by (cases "storage_tag k"; cases "heap_vec k") (auto split: option.splits)

lemma AllocateStorage_vec:
  assumes "AllocateStorage alloc t n (k, w) = (k', w')" and "heap_vec k = None"
  shows "vnext w \<le> vnext w' \<and> (heap_vec k' = None \<or> heap_vec k' = Some (vnext w))"
  using assms by (auto simp: AllocateStorage_def storage_heap_def vec_new_def vec_destroy_def Let_def
      split: prod.splits if_splits)

lemma pool_data_class:
  assumes "buf_inv xs out s" and "p \<in> out i" and "p \<in> out j"
    and "i < kBufferPoolNumClasses" and "j < kBufferPoolNumClasses"
  shows "i = j"
  using classes_disjoint [OF assms(1,4,5)] all_nodesI(3) assms(2,3) by blast

lemma construct_world:
  assumes ok: "allocator_ok alloc" and inv: "buf_inv xs out (bpool w)"
    and c: "KernelBuf_construct alloc t n w = (k, w')"
  shows "\<exists>out' xs'. buf_inv xs' out' (bpool w') \<and> kb_ok out' k w' \<and> kb_size k = n \<and>
    (\<forall>l. kb_ok out l w \<longrightarrow> kb_ok out' l w' \<and> bufs_apart k l)"
proof -
  have al: "AllocateStorage alloc t n (kb_fresh\<lparr>kb_size := n\<rparr>, w) = (k, w')"
    and f: "heap_vec (kb_fresh\<lparr>kb_size := n\<rparr>) = None"
      "length (sbo_data (kb_fresh\<lparr>kb_size := n\<rparr>)) = kKernelBufSboSize"
    using c by (simp_all add: KernelBuf_construct_def kb_fresh_def)
  obtain out' xs' where o: "buf_inv xs' out' (bpool w')" "kb_ok out' k w'" "kb_size k = n"
    "storage_tag k \<noteq> TagPool \<longrightarrow> kb_contents k w' = replicate n 0 \<and> out' = out"
    "storage_tag k = TagPool \<longrightarrow> pool_data k \<notin> out (ClassForSize n) \<and>
       out' = out(ClassForSize n := insert (pool_data k) (out (ClassForSize n)))"
    "\<forall>b < vnext w. vecs w' b = vecs w b"
    using AllocateStorage_ok [OF ok inv f al] by (elim exE conjE) (rule that)
  note v = AllocateStorage_vec [OF al f(1)]
  have mono: "out i \<subseteq> out' i" for i using o(4,5) by (cases "storage_tag k = TagPool") auto
  have "kb_ok out' l w' \<and> bufs_apart k l" if l: "kb_ok out l w" for l
  proof
    show "kb_ok out' l w'"
      by (rule kb_ok_mono [OF l]) (use l mono o(6) v in \<open>auto simp: kb_ok_def\<close>)
    have "pool_data k \<noteq> pool_data l" if t: "storage_tag k = TagPool" "storage_tag l = TagPool"
    proof
      assume eq: "pool_data k = pool_data l"
      have pl: "pool_data l \<in> out (ClassForSize (kb_size l))" "ClassForSize (kb_size l) < kBufferPoolNumClasses"
        and pk: "pool_data k \<in> out' (ClassForSize n)" "ClassForSize n < kBufferPoolNumClasses"
        using l o(2,3) t by (auto simp: kb_ok_def ClassForSize_lt)
      have "ClassForSize (kb_size l) = ClassForSize n"
        using pool_data_class [OF o(1) _ pk(1) pl(2) pk(2)] pl(1) mono eq by auto
      then show False using o(5) t(1) pl(1) eq by simp
    qed
    moreover have "heap_vec k \<noteq> heap_vec l" if "heap_vec k \<noteq> None"
      using that v l by (auto simp: kb_ok_def split: StorageTag.splits option.splits)
    ultimately show "bufs_apart k l" unfolding bufs_apart_def by blast
  qed
  then show ?thesis using o(1-3) by blast
qed

lemma destroy_world:
  assumes inv: "buf_inv xs out (bpool w)" and k: "kb_ok out k w"
  shows "\<exists>w' out' xs'. KernelBuf_destroy t (k, w) = Inr w' \<and> buf_inv xs' out' (bpool w') \<and>
    (\<forall>l. kb_ok out l w \<longrightarrow> bufs_apart k l \<longrightarrow> kb_ok out' l w')"
proof (cases "storage_tag k = TagPool")
  case True
  let ?i = "ClassForSize (kb_size k)"
  have hv: "heap_vec k = None" using k True by (simp add: kb_ok_def)
  show ?thesis
  proof (cases rule: DestroyStorage_pool [OF inv k True refl, of t])
    case (1 s' xs')
    let ?out = "out(?i := out ?i - {pool_data k})"
    have "KernelBuf_destroy t (k, w) = Inr (w\<lparr>bpool := s'\<rparr>)"
      using hv by (simp add: KernelBuf_destroy_def 1(1) vec_destroy_def)
    moreover have "kb_ok ?out l (w\<lparr>bpool := s'\<rparr>)" if l: "kb_ok out l w" "bufs_apart k l" for l
      by (rule kb_ok_mono [OF l(1)]) (use l True in \<open>auto simp: kb_ok_def bufs_apart_def\<close>)
    ultimately show ?thesis using 1(3) by auto
  qed
next
  case False
  let ?w = "vec_destroy (heap_vec k) w"
  have "KernelBuf_destroy t (k, w) = Inr ?w"
    using False k by (cases "storage_tag k") (auto simp: KernelBuf_destroy_def DestroyStorage_def
        vec_destroy_def kb_ok_def)
  moreover have "kb_ok out l ?w" if l: "kb_ok out l w" "bufs_apart k l" for l
    by (rule kb_ok_mono [OF l(1)]) (use l in \<open>auto simp: kb_ok_def bufs_apart_def vec_destroy_def split: option.splits\<close>)
  ultimately show ?thesis using inv by auto
qed

end
