(* ===== verification/Uring.thy ===== *)
theory Uring
  imports Kernel_Buf
begin

text \<open>
  What the library uses of liburing: taking a submission entry, filling it, submitting. Which
  calls succeed and how many entries a submit consumes is the environment's choice, a
  parameter; the theory keeps the queue of entries and what the kernel took from it.
\<close>

section \<open>Entries\<close>

text \<open>
  The prepared operations. An entry that was taken and not prepared keeps what was in its slot
  before: \<^verbatim>\<open>OpUnprepared\<close>.
\<close>

datatype sqe_op =
    OpUnprepared
  | OpNop
  | OpRead int data_ptr nat u64
  | OpWrite int data_ptr nat u64
  | OpAccept int
  | OpConnect int data_ptr
  | OpTimeout
  | OpLinkTimeout int int
  | OpCancel u64

record sqe =
  sqe_op :: sqe_op
  sqe_user_data :: u64
  sqe_link :: bool

section \<open>The ring\<close>

text \<open>
  \<^verbatim>\<open>sq\<close> are the entries taken since the last submit, \<^verbatim>\<open>sent\<close> those the kernel has consumed, in
  order; \<^verbatim>\<open>calls\<close> counts the calls, so that the answers of the environment may differ from call
  to call. \<^verbatim>\<open>api_get\<close> and \<^verbatim>\<open>api_submit\<close> answer for the call number and the number of entries
  waiting, \<^verbatim>\<open>api_stale\<close> is the user data left in a slot.
\<close>

record ring =
  sq :: "sqe list"
  sent :: "sqe list"
  calls :: nat

record ring_api =
  api_get :: "nat \<Rightarrow> nat \<Rightarrow> bool"
  api_submit :: "nat \<Rightarrow> nat \<Rightarrow> int"
  api_stale :: "nat \<Rightarrow> u64"

text \<open>An entry is named by its number since the ring was made; \<^verbatim>\<open>None\<close> is the null pointer.\<close>

definition io_uring_get_sqe :: "ring_api \<Rightarrow> ring \<Rightarrow> nat option \<times> ring" where
  "io_uring_get_sqe api r =
     (let r1 = r\<lparr>calls := calls r + 1\<rparr>
      in if api_get api (calls r) (length (sq r))
         then (Some (length (sent r) + length (sq r)),
               r1\<lparr>sq := sq r @ [\<lparr>sqe_op = OpUnprepared, sqe_user_data = api_stale api (calls r),
                               sqe_link = False\<rparr>]\<rparr>)
         else (None, r1))"

text \<open>Writing to an entry has no effect once the kernel has consumed it.\<close>

definition set_sqe :: "nat \<Rightarrow> (sqe \<Rightarrow> sqe) \<Rightarrow> ring \<Rightarrow> ring" where
  "set_sqe n f r =
     (if n < length (sent r) \<or> length (sent r) + length (sq r) \<le> n then r
      else r\<lparr>sq := (sq r)[n - length (sent r) := f (sq r ! (n - length (sent r)))]\<rparr>)"

definition io_uring_submit :: "ring_api \<Rightarrow> ring \<Rightarrow> int \<times> ring" where
  "io_uring_submit api r =
     (let ret = api_submit api (calls r) (length (sq r)); r1 = r\<lparr>calls := calls r + 1\<rparr>
      in if ret < 0 then (ret, r1)
         else (ret, r1\<lparr>sent := sent r @ take (nat ret) (sq r), sq := drop (nat ret) (sq r)\<rparr>))"

definition prep_sqe :: "sqe_op \<Rightarrow> sqe \<Rightarrow> sqe" where
  "prep_sqe opc e = e\<lparr>sqe_op := opc, sqe_user_data := 0, sqe_link := False\<rparr>"

text \<open>
  An environment that works: there is a free entry while fewer than \<^verbatim>\<open>n\<close> wait, and a submit
  consumes all that wait.
\<close>

definition good_api :: "nat \<Rightarrow> ring_api" where
  "good_api n = \<lparr>api_get = \<lambda>_ k. k < n, api_submit = \<lambda>_ k. int k, api_stale = \<lambda>_. 0\<rparr>"

section \<open>Facts\<close>

text \<open>Entries are never lost or reordered: every operation only appends to what was handed out.\<close>

abbreviation entries :: "ring \<Rightarrow> sqe list" where
  "entries r \<equiv> sent r @ sq r"

lemma get_sqe_entries [io_simps]:
  "io_uring_get_sqe api r = (Some n, r') \<Longrightarrow>
     n = length (entries r) \<and> sent r' = sent r \<and> calls r' = calls r + 1 \<and>
     sq r' = sq r @ [\<lparr>sqe_op = OpUnprepared, sqe_user_data = api_stale api (calls r), sqe_link = False\<rparr>]"
  by (auto simp: io_uring_get_sqe_def Let_def split: if_splits)

lemma get_sqe_null [io_simps]:
  "io_uring_get_sqe api r = (None, r') \<Longrightarrow> r' = r\<lparr>calls := calls r + 1\<rparr>"
  by (auto simp: io_uring_get_sqe_def Let_def split: if_splits)

lemma submit_entries: "io_uring_submit api r = (ret, r') \<Longrightarrow> entries r' = entries r"
  by (auto simp: io_uring_submit_def Let_def split: if_splits)

lemma set_sqe_last:
  "n = length (sent r) + length xs \<Longrightarrow> sq r = xs @ [e] \<Longrightarrow> set_sqe n f r = r\<lparr>sq := xs @ [f e]\<rparr>"
  by (simp add: set_sqe_def)

end
