(* ===== verification/Async_Task.thy ===== *)
theory Async_Task
  imports Done_State Inline_Function Object_Pool Uring
begin

text \<open>
  \<^verbatim>\<open>async_io_task.hpp\<close>, \<^verbatim>\<open>AsyncTask\<close>: the task record, its setters, waiting and cancelling, and the
  life of a task from \<^verbatim>\<open>CreateTaskWithHandler\<close> (which takes memory from the task pool and a
  buffer from the buffer pool) to \<^verbatim>\<open>delete\<close> (which gives both back, down the chain of tasks).
\<close>

section \<open>State\<close>

text \<open>
  The members of \<^verbatim>\<open>AsyncTask\<close>. The handler and the buffer check are named by the code of their
  callable (\<^verbatim>\<open>c_fun\<close> in \<^verbatim>\<open>Inline_Function\<close>); \<^verbatim>\<open>next_task\<close> is the pointer in \<^verbatim>\<open>next_\<close>.
\<close>

record AsyncTask =
  task_state :: TaskState
  detach :: bool
  done_state :: int
  buffer :: "KernelBuf option"
  user_data :: u64
  fd :: int
  task_type :: TaskType
  handler :: nat
  next_task :: ptr
  is_cancel :: bool
  try_count :: int
  timeout_ms :: int
  max_retry_count :: int
  repeat_forever :: bool
  repeat_when_failed :: bool
  check_buffer :: nat
  debug_str :: string

text \<open>The tasks by address, the memory of their buffers and the task pool.\<close>

record task_store =
  tasks :: "ptr \<rightharpoonup> AsyncTask"
  kbw :: kb_world
  tpool :: ObjectPool

datatype io_fault =
    UseAfterFree ptr | NullBuffer | BufFault kb_fault | PoolFault | OutOfFuel

section \<open>Accessors and setters\<close>

definition RepeatWhenFailed :: "AsyncTask \<Rightarrow> bool" where
  "RepeatWhenFailed t \<longleftrightarrow> 0 < max_retry_count t"

definition SetTaskType :: "TaskType \<Rightarrow> AsyncTask \<Rightarrow> AsyncTask" where
  "SetTaskType ty t = t\<lparr>task_type := ty\<rparr>"

definition SetTimeout :: "int \<Rightarrow> AsyncTask \<Rightarrow> AsyncTask" where
  "SetTimeout ms t = t\<lparr>timeout_ms := ms\<rparr>"

definition SetMaxRetryCount :: "int \<Rightarrow> AsyncTask \<Rightarrow> AsyncTask" where
  "SetMaxRetryCount n t = t\<lparr>max_retry_count := n\<rparr>"

definition SetDebugStr :: "string \<Rightarrow> AsyncTask \<Rightarrow> AsyncTask" where
  "SetDebugStr s t = t\<lparr>debug_str := s\<rparr>"

definition SetRepeatForever :: "bool \<Rightarrow> AsyncTask \<Rightarrow> AsyncTask" where
  "SetRepeatForever v t =
     (let t1 = (if v then t\<lparr>detach := False, timeout_ms := 0\<rparr> else t) in t1\<lparr>repeat_forever := v\<rparr>)"

definition SetRepeatWhenFailed :: "bool \<Rightarrow> AsyncTask \<Rightarrow> AsyncTask" where
  "SetRepeatWhenFailed v t = t\<lparr>repeat_when_failed := v\<rparr>"

definition SetCheckBuffer :: "nat \<Rightarrow> AsyncTask \<Rightarrow> AsyncTask" where
  "SetCheckBuffer f t = t\<lparr>check_buffer := f\<rparr>"

definition SetTaskState :: "TaskState \<Rightarrow> AsyncTask \<Rightarrow> AsyncTask" where
  "SetTaskState s t = t\<lparr>task_state := s\<rparr>"

definition ReleaseNextTask :: "AsyncTask \<Rightarrow> ptr \<times> AsyncTask" where
  "ReleaseNextTask t = (next_task t, t\<lparr>next_task := nullptr\<rparr>)"

definition MarkDetachedAndComplete :: "bool \<Rightarrow> AsyncTask \<Rightarrow> AsyncTask" where
  "MarkDetachedAndComplete d t =
     (let t1 = (if d then t\<lparr>done_state := fst (DoneState_Signal (done_state t))\<rparr> else t)
      in t1\<lparr>detach := d\<rparr>)"

lemmas task_setters = SetTaskType_def SetTimeout_def SetMaxRetryCount_def SetDebugStr_def
  SetRepeatForever_def SetRepeatWhenFailed_def SetCheckBuffer_def SetTaskState_def ReleaseNextTask_def
  MarkDetachedAndComplete_def DoneState_Signal_def

section \<open>Buffers of a task\<close>

text \<open>
  Assigning a \<^verbatim>\<open>unique_ptr\<close> destroys the old buffer after the new one is in place.
\<close>

definition reset_buffer ::
    "tid \<Rightarrow> KernelBuf option \<Rightarrow> AsyncTask \<times> kb_world \<Rightarrow> kb_fault + AsyncTask \<times> kb_world" where
  "reset_buffer t b tw =
     (let (tk, w) = tw
      in case buffer tk of
           None \<Rightarrow> Inr (tk\<lparr>buffer := b\<rparr>, w)
         | Some k \<Rightarrow> and_then (KernelBuf_destroy t (k, w)) (\<lambda>w1. Inr (tk\<lparr>buffer := b\<rparr>, w1)))"

definition SetBuffer ::
    "tid \<Rightarrow> KernelBuf option \<Rightarrow> AsyncTask \<times> kb_world \<Rightarrow> kb_fault + AsyncTask \<times> kb_world" where
  "SetBuffer t b tw = reset_buffer t b tw"

definition ResetBuffer ::
    "allocator \<Rightarrow> tid \<Rightarrow> AsyncTask \<times> kb_world \<Rightarrow> kb_fault + AsyncTask \<times> kb_world" where
  "ResetBuffer alloc t tw =
     (let (tk, w) = tw
      in case buffer tk of
           None \<Rightarrow> Inr (tk, w)
         | Some k \<Rightarrow> and_then (KernelBuf_Resize alloc t 0 (k, w)) (\<lambda>(k1, w1). Inr (tk\<lparr>buffer := Some k1\<rparr>, w1)))"

text \<open>\<^verbatim>\<open>DeepCopyBufferFrom\<close> of a buffer that belongs to another object.\<close>

definition DeepCopyBufferFrom ::
    "allocator \<Rightarrow> tid \<Rightarrow> KernelBuf \<Rightarrow> AsyncTask \<times> kb_world \<Rightarrow> kb_fault + AsyncTask \<times> kb_world" where
  "DeepCopyBufferFrom alloc t src tw =
     (let (tk, w) = tw; (k, w1) = KernelBuf_construct alloc t (kb_size src) w
      in and_then (reset_buffer t (Some k) (tk, w1)) (\<lambda>(tk2, w2).
           if 0 < kb_size src
           then and_then (load_bytes (KernelBuf_Data src) (kb_size src) (src, w2)) (\<lambda>xs.
                and_then (store_bytes (KernelBuf_Data k) xs (k, w2)) (\<lambda>(k3, w3).
                Inr (tk2\<lparr>buffer := Some k3\<rparr>, w3)))
           else Inr (tk2, w2)))"

section \<open>Waiting and cancelling\<close>

fun show_nat :: "nat \<Rightarrow> string" where
  "show_nat n = (if n < 10 then [char_of (48 + n)] else show_nat (n div 10) @ [char_of (48 + n mod 10)])"

declare show_nat.simps [simp del]

definition to_string :: "int \<Rightarrow> string" where
  "to_string i = (if i < 0 then ''-'' @ show_nat (nat (- i)) else show_nat (nat i))"

text \<open>
  \<^verbatim>\<open>WaitForCompletion\<close>; \<^verbatim>\<open>arrives\<close> says whether the completion comes while the caller is blocked.
  \<^verbatim>\<open>None\<close> when it blocks for ever.
\<close>

definition WaitForCompletion :: "int \<Rightarrow> bool \<Rightarrow> AsyncTask \<Rightarrow> (IOResult \<times> AsyncTask) option" where
  "WaitForCompletion ms arrives t =
     (let is_detached = detach t;
          ret = \<lparr>io_ret = -1, event_fd = (case buffer t of None \<Rightarrow> -1 | Some k \<Rightarrow> io_fd k),
                 iodone = is_detached, err_msg = ''io done''\<rparr>
      in if \<not> is_detached
         then Some (ret\<lparr>err_msg := ''task not detached from execute queue yet''\<rparr>, t)
         else case DoneState_Wait ms arrives (done_state t) of
                None \<Rightarrow> None
              | Some (ready, st) \<Rightarrow>
                  (let t1 = t\<lparr>done_state := st\<rparr>
                   in if \<not> ready
                      then Some (if 0 < ms
                             then ret\<lparr>err_msg := ''WaitForCompletion: timeout after '' @ to_string ms @ ''ms''\<rparr>
                             else if ms = 0
                             then ret\<lparr>err_msg := ''WaitForCompletion: not yet ready (timeout=0)''\<rparr>
                             else ret, t1)
                      else Some (ret\<lparr>io_ret := (case buffer t of None \<Rightarrow> -1 | Some k \<Rightarrow> io_value k),
                                     err_msg := ''IO result consumed''\<rparr>, t1)))"

text \<open>\<^verbatim>\<open>Cancel\<close>; \<^verbatim>\<open>None\<close> for the ring is the null pointer.\<close>

definition Cancel :: "ring_api \<Rightarrow> ring option \<Rightarrow> u64 \<Rightarrow> AsyncTask \<Rightarrow> u64 \<times> ring option" where
  "Cancel api uring special t =
     (case uring of
        None \<Rightarrow> (0, None)
      | Some r \<Rightarrow>
          (let userdata = (if special = 0 then user_data t else special);
               (e, r1) = io_uring_get_sqe api r
           in case e of
                None \<Rightarrow> (0, Some r1)
              | Some n \<Rightarrow>
                  (let r2 = set_sqe n (prep_sqe (OpCancel userdata)) r1;
                       r3 = set_sqe n (\<lambda>q. q\<lparr>sqe_user_data := userdata OR kCancelFlag\<rparr>) r2;
                       (ret, r4) = io_uring_submit api r3
                   in if ret < 0 then (0, Some r4) else (userdata OR kCancelFlag, Some r4))))"

section \<open>Creation and deletion\<close>

text \<open>
  \<^verbatim>\<open>operator new\<close>: a slot of the task pool; when the pool has none, \<^verbatim>\<open>::operator new\<close>, whose result
  is the argument \<^verbatim>\<open>sysnew\<close>.
\<close>

definition AsyncTask_operator_new ::
    "allocator \<Rightarrow> tid \<Rightarrow> ptr \<Rightarrow> task_store \<Rightarrow> ptr \<times> task_store" where
  "AsyncTask_operator_new alloc t sysnew s =
     (let (p, tp) = Acquire alloc t (tpool s); s1 = s\<lparr>tpool := tp\<rparr>
      in if p \<noteq> nullptr then (p, s1) else (sysnew, s1))"

definition AsyncTask_operator_delete :: "tid \<Rightarrow> ptr \<Rightarrow> task_store \<Rightarrow> io_fault + task_store" where
  "AsyncTask_operator_delete t p s =
     (if p \<noteq> nullptr
      then (case ReleaseMemory t p (tpool s) of
              None \<Rightarrow> Inl PoolFault
            | Some tp \<Rightarrow> Inr (s\<lparr>tpool := tp\<rparr>))
      else Inr s)"

definition AsyncTask_construct :: "int \<Rightarrow> nat \<Rightarrow> KernelBuf \<Rightarrow> AsyncTask" where
  "AsyncTask_construct fdn h k =
     \<lparr>task_state = StateReady, detach = False, done_state = kIdle, buffer = Some k, user_data = 0,
      fd = fdn, task_type = TypeNone, handler = h, next_task = nullptr, is_cancel = False,
      try_count = 0, timeout_ms = 0, max_retry_count = -1, repeat_forever = False,
      repeat_when_failed = False, check_buffer = 0, debug_str = ''''\<rparr>"

definition CreateTaskWithHandler ::
    "allocator \<Rightarrow> tid \<Rightarrow> ptr \<Rightarrow> int \<Rightarrow> nat \<Rightarrow> task_store \<Rightarrow> ptr \<times> task_store" where
  "CreateTaskWithHandler alloc t sysnew fdn h s =
     (let (p, s1) = AsyncTask_operator_new alloc t sysnew s;
          (k, w) = MakeKernelBuffer alloc t kDefaultBufferSize (kbw s1)
      in (p, s1\<lparr>kbw := w, tasks := (tasks s1)(p \<mapsto> AsyncTask_construct fdn h k)\<rparr>))"

definition destroy_buffer :: "tid \<Rightarrow> AsyncTask \<Rightarrow> task_store \<Rightarrow> io_fault + task_store" where
  "destroy_buffer t tk s =
     (case buffer tk of
        None \<Rightarrow> Inr s
      | Some k \<Rightarrow> (case KernelBuf_destroy t (k, kbw s) of
                    Inl e \<Rightarrow> Inl (BufFault e)
                  | Inr w \<Rightarrow> Inr (s\<lparr>kbw := w\<rparr>)))"

text \<open>
  \<^verbatim>\<open>delete task\<close>: the destructor destroys the members in reverse order, so the next task first and
  then the buffer; then \<^verbatim>\<open>operator delete\<close>. The first argument bounds the length of the chain.
\<close>

fun DeleteTask :: "nat \<Rightarrow> tid \<Rightarrow> ptr \<Rightarrow> task_store \<Rightarrow> io_fault + task_store" where
  "DeleteTask 0 t p s = Inl OutOfFuel"
| "DeleteTask (Suc n) t p s =
     (case tasks s p of
        None \<Rightarrow> Inl (UseAfterFree p)
      | Some tk \<Rightarrow>
          and_then (if next_task tk = nullptr then Inr s else DeleteTask n t (next_task tk) s) (\<lambda>s1.
          and_then (destroy_buffer t tk s1) (\<lambda>s2.
          and_then (AsyncTask_operator_delete t p s2) (\<lambda>s3.
          Inr (s3\<lparr>tasks := (tasks s3)(p := None)\<rparr>)))))"

text \<open>\<^verbatim>\<open>SetNextTask\<close> replaces the owned task, so the old one is deleted.\<close>

definition SetNextTask :: "nat \<Rightarrow> tid \<Rightarrow> ptr \<Rightarrow> ptr \<Rightarrow> task_store \<Rightarrow> io_fault + task_store" where
  "SetNextTask n t p nxt s =
     (case tasks s p of
        None \<Rightarrow> Inl (UseAfterFree p)
      | Some tk \<Rightarrow>
          (let s1 = s\<lparr>tasks := (tasks s)(p \<mapsto> tk\<lparr>next_task := nxt\<rparr>)\<rparr>
           in if next_task tk = nullptr then Inr s1 else DeleteTask n t (next_task tk) s1))"

section \<open>Ownership of task memory and buffers\<close>

text \<open>
  Every task lies in a slot that the task pool has handed out, every buffer of a task is well
  formed, and the buffers of two tasks own different storage.
\<close>

definition task_ok :: "(nat \<Rightarrow> ptr set) \<Rightarrow> ptr set \<Rightarrow> kb_world \<Rightarrow> ptr \<Rightarrow> AsyncTask \<Rightarrow> bool" where
  "task_ok out used w p tk \<longleftrightarrow> p \<in> used \<and> (\<forall>k. buffer tk = Some k \<longrightarrow> kb_ok out k w)"

definition tasks_apart :: "(ptr \<rightharpoonup> AsyncTask) \<Rightarrow> bool" where
  "tasks_apart T \<longleftrightarrow> (\<forall>p q tk uk k l. T p = Some tk \<longrightarrow> T q = Some uk \<longrightarrow> p \<noteq> q \<longrightarrow>
     buffer tk = Some k \<longrightarrow> buffer uk = Some l \<longrightarrow> bufs_apart k l)"

definition store_inv :: "(nat \<Rightarrow> ptr set) \<Rightarrow> ptr set \<Rightarrow> task_store \<Rightarrow> bool" where
  "store_inv out used s \<longleftrightarrow> (\<exists>xs. pool_inv xs used (tpool s)) \<and> (\<exists>xs. buf_inv xs out (bpool (kbw s))) \<and>
     (\<forall>p tk. tasks s p = Some tk \<longrightarrow> task_ok out used (kbw s) p tk) \<and> tasks_apart (tasks s)"

lemma tasks_apart_upd:
  assumes "tasks_apart T"
    and "\<And>k q uk l. buffer tk = Some k \<Longrightarrow> q \<noteq> p \<Longrightarrow> T q = Some uk \<Longrightarrow> buffer uk = Some l \<Longrightarrow> bufs_apart k l"
  shows "tasks_apart (T(p \<mapsto> tk))"
  using assms bufs_apart_sym unfolding tasks_apart_def
  by (auto simp: fun_upd_def split: if_splits)

lemma tasks_apart_drop: "tasks_apart T \<Longrightarrow> tasks_apart (T(p := None))"
  unfolding tasks_apart_def by (auto simp: fun_upd_def split: if_splits)

text \<open>An update of a task that leaves its buffer alone, as all the setters are.\<close>

lemma store_inv_upd:
  assumes "store_inv out used s" and "tasks s p = Some tk" and "buffer tk' = buffer tk"
  shows "store_inv out used (s\<lparr>tasks := (tasks s)(p \<mapsto> tk')\<rparr>)"
proof -
  have "tasks_apart ((tasks s)(p \<mapsto> tk'))"
    by (rule tasks_apart_upd) (use assms in \<open>auto simp: store_inv_def tasks_apart_def\<close>)
  then show ?thesis using assms by (auto simp: store_inv_def task_ok_def)
qed

lemma create_inv:
  assumes ok: "allocator_ok alloc" and inv: "store_inv out used s"
    and c: "CreateTaskWithHandler alloc t sysnew fdn h s = (p, s')"
    and mem: "fst (Acquire alloc t (tpool s)) \<noteq> nullptr"
  shows "p \<notin> used \<and> tasks s p = None \<and> (\<exists>out'. store_inv out' (insert p used) s') \<and>
    (\<exists>k. kb_size k = kDefaultBufferSize \<and> tasks s' = (tasks s)(p \<mapsto> AsyncTask_construct fdn h k))"
proof -
  obtain q tp where a: "Acquire alloc t (tpool s) = (q, tp)" by fastforce
  obtain k w where kb: "KernelBuf_construct alloc t kDefaultBufferSize (kbw s) = (k, w)" by fastforce
  have e: "p = q" "s' = s\<lparr>tpool := tp, kbw := w, tasks := (tasks s)(q \<mapsto> AsyncTask_construct fdn h k)\<rparr>"
    using c a kb mem by (auto simp: CreateTaskWithHandler_def AsyncTask_operator_new_def MakeKernelBuffer_def)
  obtain xs ys where I: "pool_inv xs used (tpool s)" "buf_inv ys out (bpool (kbw s))"
    using inv by (auto simp: store_inv_def)
  obtain xs' where q: "q \<notin> used" "pool_inv xs' (insert q used) tp"
    using Acquire_inv [OF ok I(1) a] mem a by auto
  obtain out' ys' where b: "buf_inv ys' out' (bpool w)" "kb_ok out' k w" "kb_size k = kDefaultBufferSize"
    "\<forall>l. kb_ok out l (kbw s) \<longrightarrow> kb_ok out' l w \<and> bufs_apart k l"
    using construct_world [OF ok I(2) kb] by blast
  have T: "task_ok out used (kbw s) r tk" if "tasks s r = Some tk" for r tk
    using inv that by (simp add: store_inv_def)
  have fresh: "tasks s q = None" using T q(1) by (cases "tasks s q") (auto simp: task_ok_def)
  have "tasks_apart ((tasks s)(q \<mapsto> AsyncTask_construct fdn h k))"
    by (rule tasks_apart_upd) (use inv b(4) T in \<open>auto simp: store_inv_def AsyncTask_construct_def task_ok_def\<close>)
  moreover have "task_ok out' (insert q used) w r tk"
    if "((tasks s)(q \<mapsto> AsyncTask_construct fdn h k)) r = Some tk" for r tk
    using that T b(2,4) by (auto simp: task_ok_def AsyncTask_construct_def split: if_splits)
  ultimately have "store_inv out' (insert q used) s'"
    using q(2) b(1) e by (auto simp: store_inv_def)
  then show ?thesis using e q(1) fresh b(3) by auto
qed

text \<open>One task, without its chain: the buffer and the memory go back to their pools.\<close>

lemma delete_one:
  assumes inv: "store_inv out used s" and tk: "tasks s p = Some tk"
  shows "\<exists>s2 s3 out'. destroy_buffer t tk s = Inr s2 \<and>
      AsyncTask_operator_delete t p s2 = Inr s3 \<and> tasks s3 = tasks s \<and>
      store_inv out' (used - {p}) (s3\<lparr>tasks := (tasks s)(p := None)\<rparr>)"
proof -
  obtain xs ys where I: "pool_inv xs used (tpool s)" "buf_inv ys out (bpool (kbw s))"
    using inv by (auto simp: store_inv_def)
  have T: "task_ok out used (kbw s) r uk" if "tasks s r = Some uk" for r uk
    using inv that by (simp add: store_inv_def)
  have p: "p \<in> used" using T [OF tk] by (simp add: task_ok_def)
  obtain tp xs' where rel: "ReleaseMemory t p (tpool s) = Some tp" "pool_inv xs' (used - {p}) tp"
    using ReleaseMemory_inv [OF I(1) p, of t] by blast
  have p0: "p \<noteq> nullptr" by (rule bucket_out_nonnull [OF pool_invD(1) [OF I(1)] p])
  obtain w out' ys' where w: "destroy_buffer t tk s = Inr (s\<lparr>kbw := w\<rparr>)"
    "buf_inv ys' out' (bpool w)"
    "\<forall>r uk l. tasks s r = Some uk \<longrightarrow> r \<noteq> p \<longrightarrow> buffer uk = Some l \<longrightarrow> kb_ok out' l w"
  proof (cases "buffer tk")
    case None
    have "s = s\<lparr>kbw := kbw s\<rparr>" by simp
    then show ?thesis
      using that [of "kbw s" ys out] None I(2) T by (auto simp: task_ok_def destroy_buffer_def)
  next
    case (Some k)
    then obtain w out' ys' where "KernelBuf_destroy t (k, kbw s) = Inr w" "buf_inv ys' out' (bpool w)"
        "\<forall>l. kb_ok out l (kbw s) \<longrightarrow> bufs_apart k l \<longrightarrow> kb_ok out' l w"
      using destroy_world [OF I(2), of k t] T [OF tk] by (auto simp: task_ok_def)
    then show ?thesis
      using that [of w ys' out'] Some T inv tk
      unfolding store_inv_def tasks_apart_def task_ok_def destroy_buffer_def by simp
  qed
  let ?s3 = "s\<lparr>kbw := w, tpool := tp\<rparr>"
  have "AsyncTask_operator_delete t p (s\<lparr>kbw := w\<rparr>) = Inr ?s3"
    using rel(1) p0 by (simp add: AsyncTask_operator_delete_def)
  moreover have "store_inv out' (used - {p}) (?s3\<lparr>tasks := (tasks s)(p := None)\<rparr>)"
    using rel(2) w(2,3) inv tasks_apart_drop T unfolding store_inv_def
    by (auto simp: task_ok_def split: if_splits)
  ultimately show ?thesis using w(1) by (intro exI [of _ "s\<lparr>kbw := w\<rparr>"] exI [of _ ?s3]) auto
qed

definition next_of :: "(ptr \<rightharpoonup> AsyncTask) \<Rightarrow> ptr \<Rightarrow> ptr" where
  "next_of T p = (case T p of None \<Rightarrow> nullptr | Some tk \<Rightarrow> next_task tk)"

lemma chain_head_task:
  assumes "chain (next_of T) p (x # xs)" and "x \<in> dom T"
  obtains tk where "T p = Some tk" "x = p" "chain (next_of T) (next_task tk) xs" "p \<noteq> nullptr"
proof -
  obtain tk where tk: "T x = Some tk" using assms(2) by blast
  have "p = x" "p \<noteq> nullptr" "chain (next_of T) (next_of T x) xs" using assms(1) by simp_all
  moreover have "next_of T x = next_task tk" using tk by (simp add: next_of_def)
  ultimately show ?thesis using that tk by metis
qed

lemma delete_chain:
  assumes "store_inv out used s" and "chain (next_of (tasks s)) p (x # xs)" and "distinct (x # xs)"
    and "set (x # xs) \<subseteq> dom (tasks s)" and "length xs < n"
  shows "\<exists>s' out'. DeleteTask n t p s = Inr s' \<and> tasks s' = tasks s |` (- set (x # xs)) \<and>
           store_inv out' (used - set (x # xs)) s'"
  using assms
proof (induction xs arbitrary: n p x)
  case Nil
  obtain m where n: "n = Suc m" using Nil.prems(5) by (cases n) auto
  obtain tk where tk: "tasks s p = Some tk" "x = p" and ch: "chain (next_of (tasks s)) (next_task tk) []"
    by (rule chain_head_task [OF Nil.prems(2)]) (use Nil.prems(4) in auto)
  have y: "next_task tk = nullptr" using ch by simp
  from delete_one [OF Nil.prems(1) tk(1), of t] obtain s2 s3 out' where d: "destroy_buffer t tk s = Inr s2"
      "AsyncTask_operator_delete t p s2 = Inr s3" "tasks s3 = tasks s"
      "store_inv out' (used - {p}) (s3\<lparr>tasks := (tasks s)(p := None)\<rparr>)" by (elim exE conjE)
  have "(tasks s)(p := None) = tasks s |` (- {p})" by (auto simp: restrict_map_def)
  then show ?case
    using n tk y d by (intro exI [of _ "s3\<lparr>tasks := (tasks s)(p := None)\<rparr>"] exI [of _ out']) simp
next
  case (Cons y ys)
  obtain m where n: "n = Suc m" using Cons.prems(5) by (cases n) auto
  obtain tk where tk: "tasks s p = Some tk" "x = p" and ch: "chain (next_of (tasks s)) (next_task tk) (y # ys)"
    by (rule chain_head_task [OF Cons.prems(2)]) (use Cons.prems(4) in auto)
  have y: "next_task tk = y" "y \<noteq> nullptr" using ch by simp_all
  have "\<exists>s' out'. DeleteTask m t y s = Inr s' \<and> tasks s' = tasks s |` (- set (y # ys)) \<and>
      store_inv out' (used - set (y # ys)) s'"
    by (rule Cons.IH [OF Cons.prems(1)]) (use Cons.prems(3-5) n ch y in simp_all)
  then obtain s1 out1 where s1: "DeleteTask m t y s = Inr s1" "tasks s1 = tasks s |` (- set (y # ys))"
      "store_inv out1 (used - set (y # ys)) s1" by blast
  have tk1: "tasks s1 p = Some tk" using s1(2) tk Cons.prems(3) by auto
  from delete_one [OF s1(3) tk1, of t] obtain s2 s3 out' where d: "destroy_buffer t tk s1 = Inr s2"
      "AsyncTask_operator_delete t p s2 = Inr s3" "tasks s3 = tasks s1"
      "store_inv out' (used - set (y # ys) - {p}) (s3\<lparr>tasks := (tasks s1)(p := None)\<rparr>)" by (elim exE conjE)
  have T: "(tasks s1)(p := None) = tasks s |` (- set (x # y # ys))"
    using s1(2) tk by (auto simp: restrict_map_def fun_eq_iff)
  have "used - set (y # ys) - {p} = used - set (x # y # ys)" using tk by auto
  then have "store_inv out' (used - set (x # y # ys)) (s3\<lparr>tasks := (tasks s1)(p := None)\<rparr>)"
    using d(4) by simp
  moreover have "DeleteTask n t p s = Inr (s3\<lparr>tasks := (tasks s1)(p := None)\<rparr>)"
    using n tk y s1(1) d(1-3) by simp
  ultimately show ?case using T by auto
qed

section \<open>Reachable stores\<close>

text \<open>
  Task stores as a program brings them about: tasks are created, their fields are set, chains
  are built (a chained task is one that nothing else refers to) and tasks are deleted.
\<close>

definition empty_store :: "ObjectPool \<Rightarrow> BufferPool \<Rightarrow> task_store" where
  "empty_store tp bp = \<lparr>tasks = Map.empty, kbw = \<lparr>bpool = bp, vecs = Map.empty, vnext = 0\<rparr>, tpool = tp\<rparr>"

inductive store_reach :: "allocator \<Rightarrow> task_store \<Rightarrow> bool" for alloc :: allocator where
  init: "pool_reach alloc {} tp \<Longrightarrow> buf_reach alloc (\<lambda>_. {}) bp \<Longrightarrow> store_reach alloc (empty_store tp bp)"
| create: "store_reach alloc s \<Longrightarrow> fst (Acquire alloc t (tpool s)) \<noteq> nullptr \<Longrightarrow>
    CreateTaskWithHandler alloc t sysnew fdn h s = (p, s') \<Longrightarrow> store_reach alloc s'"
| set_fields: "store_reach alloc s \<Longrightarrow> tasks s p = Some tk \<Longrightarrow> buffer (f tk) = buffer tk \<Longrightarrow>
    store_reach alloc (s\<lparr>tasks := (tasks s)(p \<mapsto> f tk)\<rparr>)"
| delete: "store_reach alloc s \<Longrightarrow> chain (next_of (tasks s)) p (x # xs) \<Longrightarrow> distinct (x # xs) \<Longrightarrow>
    set (x # xs) \<subseteq> dom (tasks s) \<Longrightarrow> length xs < n \<Longrightarrow> DeleteTask n t p s = Inr s' \<Longrightarrow>
    store_reach alloc s'"

lemma store_reach_inv:
  assumes ok: "allocator_ok alloc" and "store_reach alloc s"
  shows "\<exists>out used. store_inv out used s"
  using assms(2)
proof (induction rule: store_reach.induct)
  case (init tp bp)
  then show ?case
    using pool_reach_inv [OF ok init(1)] buf_reach_inv [OF ok init(2)]
    by (simp add: store_inv_def empty_store_def tasks_apart_def) blast
next
  case (create s t sysnew fdn h p s')
  then show ?case using create_inv [OF ok] by blast
next
  case (set_fields s p tk f)
  then show ?case using store_inv_upd by blast
next
  case (delete s p x xs n t s')
  then show ?case using delete_chain [of _ _ s p x xs n t] by (metis Inr_inject)
qed

text \<open>For the examples: a store with one free task slot, and a task created in it.\<close>

definition demo_store :: task_store where
  "demo_store = empty_store
     (ObjectPool_construct tight_alloc 0 True 96 1 1 no_cached \<lparr>nx = \<lambda>_. 0, bytes = \<lambda>_ _. 0\<rparr> []) empty_pool"

lemma demo_store_reach: "store_reach tight_alloc demo_store"
proof -
  have "pool_reach tight_alloc {}
      (ObjectPool_construct tight_alloc 0 True 96 1 1 no_cached \<lparr>nx = \<lambda>_. 0, bytes = \<lambda>_ _. 0\<rparr> [])"
    by (rule pool_reach.construct) (simp_all add: slot_size_eq)
  then show ?thesis unfolding demo_store_def using empty_pool_reach by (rule store_reach.init)
qed

lemma demo_store_memory: "fst (Acquire tight_alloc 0 (tpool demo_store)) \<noteq> nullptr"
proof -
  have "slot_size 96 = 128" by (simp add: slot_size_eq)
  then show ?thesis by (simp add: demo_store_def empty_store_def pool_eval tight_alloc_def del: slot_size_eq)
qed

lemma demo_store_tasks: "tasks demo_store = Map.empty"
  by (simp add: demo_store_def empty_store_def)

text \<open>
  C15: Deleting a task ends without fault for every chain of tasks it owns: exactly the tasks
  of the chain disappear, each with its buffer, and all other tasks stay well formed.
\<close>

theorem delete_task_chain:
  assumes "allocator_ok alloc" and "store_reach alloc s" and "chain (next_of (tasks s)) p (x # xs)"
    and "distinct (x # xs)" and "set (x # xs) \<subseteq> dom (tasks s)" and "length xs < n"
  shows "\<exists>s'. DeleteTask n t p s = Inr s' \<and> tasks s' = tasks s |` (- set (x # xs)) \<and> store_reach alloc s'"
proof -
  obtain out used where "store_inv out used s" using store_reach_inv assms(1,2) by blast
  from delete_chain [OF this assms(3-6), of t] show ?thesis
    using store_reach.delete [OF assms(2-6)] by blast
qed

text \<open>
  A created task is new: its address was used by no task, its fields have their initial
  values with a buffer of 2048 bytes, and the other tasks are untouched.
\<close>

theorem create_task_fresh:
  assumes "allocator_ok alloc" and "store_reach alloc s" and "fst (Acquire alloc t (tpool s)) \<noteq> nullptr"
    and "CreateTaskWithHandler alloc t sysnew fdn h s = (p, s')"
  shows "tasks s p = None \<and>
    (\<exists>k. kb_size k = kDefaultBufferSize \<and> tasks s' = (tasks s)(p \<mapsto> AsyncTask_construct fdn h k)) \<and>
    store_reach alloc s'"
proof -
  obtain out used where "store_inv out used s" using store_reach_inv assms(1,2) by blast
  from create_inv [OF assms(1) this assms(4,3)] show ?thesis
    using store_reach.create [OF assms(2-4)] by blast
qed

theorem create_task_fresh_witness:
  "let (p, s) = CreateTaskWithHandler tight_alloc 0 0 5 7 demo_store
   in \<exists>k. kb_size k = 2048 \<and> tasks s = [p \<mapsto> AsyncTask_construct 5 7 k]"
proof -
  obtain p s where c: "CreateTaskWithHandler tight_alloc 0 0 5 7 demo_store = (p, s)" by fastforce
  from create_task_fresh [OF tight_alloc_ok demo_store_reach demo_store_memory c] show ?thesis
    by (simp add: c size_consts demo_store_tasks)
qed

theorem delete_task_chain_witness:
  "let (p, s) = CreateTaskWithHandler tight_alloc 0 0 5 7 demo_store
   in \<exists>s'. DeleteTask 1 0 p s = Inr s' \<and> tasks s' = Map.empty"
proof -
  obtain p s where c: "CreateTaskWithHandler tight_alloc 0 0 5 7 demo_store = (p, s)" by fastforce
  obtain out used where inv: "store_inv out used demo_store"
    using store_reach_inv [OF tight_alloc_ok demo_store_reach] by blast
  obtain k out' where k: "tasks s = [p \<mapsto> AsyncTask_construct 5 7 k]" and i: "store_inv out' (insert p used) s"
    using create_inv [OF tight_alloc_ok inv c demo_store_memory] by (auto simp: demo_store_tasks)
  obtain xs where "pool_inv xs (insert p used) (tpool s)" using i by (auto simp: store_inv_def)
  then have "p \<noteq> nullptr" using bucket_out_nonnull [OF pool_invD(1)] by blast
  then have ch: "chain (next_of (tasks s)) p [p]" by (simp add: k next_of_def AsyncTask_construct_def)
  have "store_reach tight_alloc s" by (rule store_reach.create [OF demo_store_reach demo_store_memory c])
  from delete_task_chain [OF tight_alloc_ok this ch, of 1 0] k obtain s' where
    "DeleteTask 1 0 p s = Inr s'" "tasks s' = tasks s |` (- set [p])" by auto
  moreover have "tasks s |` (- set [p]) = Map.empty" using k by (simp add: restrict_map_def fun_eq_iff)
  ultimately show ?thesis by (simp add: c del: DeleteTask.simps)
qed

end
