(* ===== verification/Io_Handler.thy ===== *)
theory Io_Handler
  imports Async_Task
begin

text \<open>
  \<^verbatim>\<open>async_io_handler.hpp\<close>: the submission of tasks (the gate that admits a task once, the limit on
  operations in flight, the preparation of submission entries), the event loop that decodes
  completions, and the handlers of completions with their retries, repetitions and chains.
\<close>

section \<open>State\<close>

text \<open>
  The members of \<^verbatim>\<open>IOHandler\<close> that the event loop and the submitters share, with the tasks, the
  file descriptors that were closed, the calls of user handlers (the handler's code, the task,
  and the result in the buffer it was given), the files that were removed, and the global
  counters of the application.
\<close>

record io_world =
  store :: task_store
  config :: AsyncIoConfig
  uring :: ring
  inflight :: int
  shutdown_requested :: bool
  closed_fds :: "int list"
  invoked :: "(nat \<times> ptr \<times> int option) list"
  removed :: "string list"
  counters :: "nat \<Rightarrow> nat"

text \<open>
  User handlers are programs that call the library: they edit the buffer they get, create tasks,
  configure, chain and fill them, submit them, cancel, flush, request the shutdown, close
  descriptors, remove files, and count in the application's global counters.
  A call gives a number (a task's address, a truth value as 0 or 1) that the rest of the program
  may depend on. \<^verbatim>\<open>FaultCall\<close> is an access outside the buffer.
\<close>

datatype task_setting =
    TaskTypeIs TaskType | TimeoutIs int | MaxRetryCountIs int | RepeatForeverIs bool | DebugStrIs string
  | FdOffsetIs int

datatype cb_call =
    EditBuffer "KernelBuf \<times> kb_world \<Rightarrow> KernelBuf \<times> kb_world"
  | CreateCall int nat | CreateFilledCall int nat "byte list"
  | SetCall ptr task_setting | ResizeCall ptr nat | StoreCall ptr "byte list"
  | NextCall ptr ptr | AddCall ptr | CancelCall ptr | FlushCall | ShutdownCall | CloseCall int
  | UnlinkCall string | CountCall nat
  | FaultCall kb_fault

datatype cb_prog = Return | Call cb_call "nat \<Rightarrow> cb_prog"

text \<open>
  The environment: liburing, the program that a user handler runs for the buffer it gets, memory
  for new tasks, the thread of the event loop, and a bound on the length of task chains.
\<close>

record io_env =
  env_api :: ring_api
  env_cb :: "nat \<Rightarrow> KernelBuf option \<times> kb_world \<Rightarrow> cb_prog"
  env_alloc :: allocator
  env_sysnew :: ptr
  env_tid :: tid
  env_chain :: nat

type_synonym add_fun = "ptr \<Rightarrow> io_world \<Rightarrow> io_fault + bool \<times> io_world"

definition EAGAIN :: int where "EAGAIN = 11"
definition EWOULDBLOCK :: int where "EWOULDBLOCK = 11"
definition EINTR :: int where "EINTR = 4"
definition EINVAL :: int where "EINVAL = 22"
definition ECANCELED :: int where "ECANCELED = 125"

lemmas errno_defs = EAGAIN_def EWOULDBLOCK_def EINTR_def EINVAL_def ECANCELED_def

section \<open>Access to tasks\<close>

text \<open>A pointer to a task that was deleted is a fault, a null buffer too.\<close>

definition deref :: "ptr \<Rightarrow> io_world \<Rightarrow> io_fault + AsyncTask" where
  "deref p w = (case tasks (store w) p of None \<Rightarrow> Inl (UseAfterFree p) | Some tk \<Rightarrow> Inr tk)"

definition set_task :: "ptr \<Rightarrow> AsyncTask \<Rightarrow> io_world \<Rightarrow> io_world" where
  "set_task p tk w = w\<lparr>store := (store w)\<lparr>tasks := (tasks (store w))(p \<mapsto> tk)\<rparr>\<rparr>"

definition modify_task :: "ptr \<Rightarrow> (AsyncTask \<Rightarrow> AsyncTask) \<Rightarrow> io_world \<Rightarrow> io_fault + io_world" where
  "modify_task p f w = and_then (deref p w) (\<lambda>tk. Inr (set_task p (f tk) w))"

definition modify_buffer :: "ptr \<Rightarrow> (KernelBuf \<Rightarrow> KernelBuf) \<Rightarrow> io_world \<Rightarrow> io_fault + io_world" where
  "modify_buffer p f w =
     and_then (deref p w) (\<lambda>tk.
       case buffer tk of
         None \<Rightarrow> Inl NullBuffer
       | Some k \<Rightarrow> Inr (set_task p (tk\<lparr>buffer := Some (f k)\<rparr>) w))"

definition delete_task :: "io_env \<Rightarrow> ptr \<Rightarrow> io_world \<Rightarrow> io_fault + io_world" where
  "delete_task E p w =
     and_then (DeleteTask (env_chain E) (env_tid E) p (store w)) (\<lambda>s. Inr (w\<lparr>store := s\<rparr>))"

definition close_fd :: "int \<Rightarrow> io_world \<Rightarrow> io_world" where
  "close_fd n w = w\<lparr>closed_fds := closed_fds w @ [n]\<rparr>"

text \<open>The calls of liburing on the handler's ring.\<close>

definition take_sqe :: "io_env \<Rightarrow> io_world \<Rightarrow> nat option \<times> io_world" where
  "take_sqe E w = (let (e, r) = io_uring_get_sqe (env_api E) (uring w) in (e, w\<lparr>uring := r\<rparr>))"

definition put_sqe :: "nat \<Rightarrow> (sqe \<Rightarrow> sqe) \<Rightarrow> io_world \<Rightarrow> io_world" where
  "put_sqe n f w = w\<lparr>uring := set_sqe n f (uring w)\<rparr>"

definition submit :: "io_env \<Rightarrow> io_world \<Rightarrow> io_world" where
  "submit E w = w\<lparr>uring := snd (io_uring_submit (env_api E) (uring w))\<rparr>"

definition Flush :: "io_env \<Rightarrow> io_world \<Rightarrow> io_world" where "Flush E w = submit E w"
definition AutoFlush :: "io_env \<Rightarrow> io_world \<Rightarrow> io_world" where "AutoFlush E w = submit E w"

text \<open>The value of a task pointer in \<^verbatim>\<open>user_data\<close>.\<close>

definition task_word :: "ptr \<Rightarrow> u64" where "task_word p = word_of_nat p"

definition RequestShutdown :: "io_env \<Rightarrow> io_world \<Rightarrow> io_world" where
  "RequestShutdown E w =
     (let (e, w1) = take_sqe E (w\<lparr>shutdown_requested := True\<rparr>)
      in case e of
           None \<Rightarrow> w1
         | Some n \<Rightarrow> submit E (put_sqe n (\<lambda>q. q\<lparr>sqe_user_data := 0\<rparr>) (put_sqe n (prep_sqe OpNop) w1)))"

section \<open>User handlers\<close>

definition apply_setting :: "task_setting \<Rightarrow> AsyncTask \<Rightarrow> AsyncTask" where
  "apply_setting c tk =
     (case c of
        TaskTypeIs ty \<Rightarrow> SetTaskType ty tk
      | TimeoutIs ms \<Rightarrow> SetTimeout ms tk
      | MaxRetryCountIs n \<Rightarrow> SetMaxRetryCount n tk
      | RepeatForeverIs b \<Rightarrow> SetRepeatForever b tk
      | DebugStrIs s \<Rightarrow> SetDebugStr s tk
      | FdOffsetIs n \<Rightarrow> tk\<lparr>buffer := map_option (SetFdOffset n) (buffer tk)\<rparr>)"

definition put_buffer :: "ptr \<Rightarrow> AsyncTask \<Rightarrow> KernelBuf \<times> kb_world \<Rightarrow> io_world \<Rightarrow> io_world" where
  "put_buffer p tk kv w = set_task p (tk\<lparr>buffer := Some (fst kv)\<rparr>) (w\<lparr>store := (store w)\<lparr>kbw := snd kv\<rparr>\<rparr>)"

text \<open>An operation on \<^verbatim>\<open>task->Buffer()\<close>.\<close>

definition with_buffer ::
    "ptr \<Rightarrow> (KernelBuf \<times> kb_world \<Rightarrow> kb_fault + KernelBuf \<times> kb_world) \<Rightarrow> io_world \<Rightarrow> io_fault + io_world" where
  "with_buffer p f w =
     and_then (deref p w) (\<lambda>tk.
       case buffer tk of
         None \<Rightarrow> Inl NullBuffer
       | Some k \<Rightarrow> and_then (raise_as BufFault (f (k, kbw (store w)))) (\<lambda>kv. Inr (put_buffer p tk kv w)))"

definition resize_buffer :: "allocator \<Rightarrow> tid \<Rightarrow> ptr \<Rightarrow> nat \<Rightarrow> io_world \<Rightarrow> io_fault + io_world" where
  "resize_buffer alloc t p n w = with_buffer p (KernelBuf_Resize alloc t n) w"

definition store_buffer :: "ptr \<Rightarrow> byte list \<Rightarrow> io_world \<Rightarrow> io_fault + io_world" where
  "store_buffer p bs w = with_buffer p (\<lambda>kv. store_bytes (KernelBuf_Data (fst kv)) bs kv) w"

definition edit_buffer ::
    "ptr \<Rightarrow> (KernelBuf \<times> kb_world \<Rightarrow> KernelBuf \<times> kb_world) \<Rightarrow> io_world \<Rightarrow> io_fault + io_world" where
  "edit_buffer p f w = with_buffer p (\<lambda>kv. Inr (f kv)) w"

definition create_task :: "io_env \<Rightarrow> int \<Rightarrow> nat \<Rightarrow> io_world \<Rightarrow> ptr \<times> io_world" where
  "create_task E c h w =
     (let (q, s) = CreateTaskWithHandler (env_alloc E) (env_tid E) (env_sysnew E) c h (store w)
      in (q, w\<lparr>store := s\<rparr>))"

text \<open>
  A task for a message: \<^verbatim>\<open>MakeKernelBuffer\<close> and \<^verbatim>\<open>memcpy\<close>, then \<^verbatim>\<open>CreateTaskWithHandler\<close>, then
  \<^verbatim>\<open>SetBuffer\<close>, which destroys the buffer the task was created with.
\<close>

definition create_filled :: "io_env \<Rightarrow> int \<Rightarrow> nat \<Rightarrow> byte list \<Rightarrow> io_world \<Rightarrow> io_fault + ptr \<times> io_world" where
  "create_filled E c h bs w =
     (let (k, v) = MakeKernelBuffer (env_alloc E) (env_tid E) (length bs) (kbw (store w))
      in and_then (raise_as BufFault (store_bytes (KernelBuf_Data k) bs (k, v))) (\<lambda>(k1, v1).
           let (q, w1) = create_task E c h (w\<lparr>store := (store w)\<lparr>kbw := v1\<rparr>\<rparr>)
           in and_then (deref q w1) (\<lambda>tk.
              and_then (raise_as BufFault (SetBuffer (env_tid E) (Some k1) (tk, kbw (store w1)))) (\<lambda>(tk1, v2).
              Inr (q, set_task q tk1 (w1\<lparr>store := (store w1)\<lparr>kbw := v2\<rparr>\<rparr>))))))"

text \<open>One call of the handler of the task at \<^verbatim>\<open>p\<close>.\<close>

fun run_call :: "io_env \<Rightarrow> add_fun \<Rightarrow> ptr \<Rightarrow> cb_call \<Rightarrow> io_world \<Rightarrow> io_fault + nat \<times> io_world" where
  "run_call E add p (EditBuffer f) w = and_then (edit_buffer p f w) (\<lambda>w1. Inr (0, w1))"
| "run_call E add p (CreateCall c h) w = Inr (create_task E c h w)"
| "run_call E add p (CreateFilledCall c h bs) w = create_filled E c h bs w"
| "run_call E add p (SetCall q c) w = and_then (modify_task q (apply_setting c) w) (\<lambda>w1. Inr (0, w1))"
| "run_call E add p (ResizeCall q n) w =
     and_then (resize_buffer (env_alloc E) (env_tid E) q n w) (\<lambda>w1. Inr (0, w1))"
| "run_call E add p (StoreCall q bs) w = and_then (store_buffer q bs w) (\<lambda>w1. Inr (0, w1))"
| "run_call E add p (NextCall q r) w =
     and_then (SetNextTask (env_chain E) (env_tid E) q r (store w)) (\<lambda>s. Inr (0, w\<lparr>store := s\<rparr>))"
| "run_call E add p (AddCall q) w = and_then (add q w) (\<lambda>(ok, w1). Inr (if ok then 1 else 0, w1))"
| "run_call E add p (CancelCall q) w =
     and_then (deref q w) (\<lambda>tk.
       let (u, r) = Cancel (env_api E) (Some (uring w)) 0 tk
       in Inr (unat u, case r of None \<Rightarrow> w | Some r1 \<Rightarrow> w\<lparr>uring := r1\<rparr>))"
| "run_call E add p FlushCall w = Inr (0, Flush E w)"
| "run_call E add p ShutdownCall w = Inr (0, RequestShutdown E w)"
| "run_call E add p (CloseCall c) w = Inr (0, close_fd c w)"
| "run_call E add p (UnlinkCall name) w = Inr (0, w\<lparr>removed := removed w @ [name]\<rparr>)"
| "run_call E add p (CountCall i) w =
     (let n = counters w i + 1 in Inr (n, w\<lparr>counters := (counters w)(i := n)\<rparr>))"
| "run_call E add p (FaultCall e) w = Inl (BufFault e)"

primrec run_cb :: "io_env \<Rightarrow> add_fun \<Rightarrow> ptr \<Rightarrow> cb_prog \<Rightarrow> io_world \<Rightarrow> io_fault + io_world" where
  "run_cb E add p Return w = Inr w"
| "run_cb E add p (Call c f) w = and_then (run_call E add p c w) (\<lambda>(n, w1). run_cb E add p (f n) w1)"

definition ExecuteCompletionHandler :: "io_env \<Rightarrow> add_fun \<Rightarrow> ptr \<Rightarrow> io_world \<Rightarrow> io_fault + io_world" where
  "ExecuteCompletionHandler E add p w =
     and_then (deref p w) (\<lambda>tk.
       run_cb E add p (env_cb E (handler tk) (buffer tk, kbw (store w)))
         (w\<lparr>invoked := invoked w @ [(handler tk, p, map_option io_value (buffer tk))]\<rparr>))"

section \<open>Failure and submission\<close>

text \<open>
  \<^verbatim>\<open>HandleFailedTask\<close> calls \<^verbatim>\<open>AddTask\<close>, which submits and so may call it again; the functions of
  this cycle take \<^verbatim>\<open>AddTask\<close> as an argument.
\<close>

definition HandleFailedTask :: "io_env \<Rightarrow> add_fun \<Rightarrow> ptr \<Rightarrow> io_world \<Rightarrow> io_fault + bool \<times> io_world" where
  "HandleFailedTask E add p w =
     and_then (deref p w) (\<lambda>tk.
       let cur = try_count tk + 1; w1 = set_task p (tk\<lparr>try_count := cur\<rparr>) w
       in if cur < max_retry_count tk
          then and_then (modify_task p (SetTaskState StateReady) w1) (\<lambda>w2.
               and_then (add p w2) (\<lambda>(_, w3). Inr (True, w3)))
          else and_then (ExecuteCompletionHandler E add p w1) (\<lambda>w2.
               and_then (modify_task p (\<lambda>t. SetTaskState StateFailed (MarkDetachedAndComplete True
                   ((SetDebugStr (''failed after '' @ to_string cur @ '' retries'') t)\<lparr>try_count := 0\<rparr>))) w2) (\<lambda>w3.
               and_then (delete_task E p w3) (\<lambda>w4. Inr (False, w4)))))"

definition QueueFailedTask :: "io_env \<Rightarrow> add_fun \<Rightarrow> ptr \<Rightarrow> io_world \<Rightarrow> io_fault + io_world" where
  "QueueFailedTask E add p w =
     (let (e, w1) = take_sqe E w
      in case e of
           None \<Rightarrow> and_then (HandleFailedTask E add p w1) (\<lambda>(_, w2). Inr w2)
         | Some n \<Rightarrow>
             Inr (submit E (put_sqe n (\<lambda>q. q\<lparr>sqe_user_data := task_word p OR kErrorFlag\<rparr>)
                             (put_sqe n (prep_sqe OpTimeout) w1))))"

definition HandleIoFailure :: "io_env \<Rightarrow> add_fun \<Rightarrow> ptr \<Rightarrow> io_world \<Rightarrow> io_fault + io_world" where
  "HandleIoFailure E add p w = and_then (HandleFailedTask E add p w) (\<lambda>(_, w1). Inr w1)"

text \<open>
  \<^verbatim>\<open>struct sockaddr_in\<close>: 16 bytes, the family in host order (little endian), port and address
  in network order.
\<close>

definition sizeof_sockaddr_in :: nat where "sizeof_sockaddr_in = 16"
definition AF_INET :: nat where "AF_INET = 2"

definition sin_family :: "byte list \<Rightarrow> nat" where "sin_family bs = unat (bs ! 0) + 256 * unat (bs ! 1)"
definition sin_port_host :: "byte list \<Rightarrow> nat" where "sin_port_host bs = 256 * unat (bs ! 2) + unat (bs ! 3)"

definition inet_ntop :: "byte list \<Rightarrow> string" where
  "inet_ntop a = show_nat (unat (a ! 0)) @ ''.'' @ show_nat (unat (a ! 1)) @ ''.'' @
     show_nat (unat (a ! 2)) @ ''.'' @ show_nat (unat (a ! 3))"

definition ValidateConnectTask :: "ptr \<Rightarrow> io_world \<Rightarrow> io_fault + bool" where
  "ValidateConnectTask p w =
     and_then (deref p w) (\<lambda>tk.
       if fd tk \<le> 0 then Inr False
       else case buffer tk of
              None \<Rightarrow> Inr False
            | Some k \<Rightarrow>
                if kb_size k < sizeof_sockaddr_in then Inr False
                else case load_bytes (KernelBuf_Data k) sizeof_sockaddr_in (k, kbw (store w)) of
                       Inl e \<Rightarrow> Inl (BufFault e)
                     | Inr bs \<Rightarrow>
                         Inr (sin_family bs = AF_INET \<and> sin_port_host bs \<noteq> 0 \<and>
                              inet_ntop (drop 4 bs) \<noteq> ''0.0.0.0''))"

definition HandleConnect :: "io_env \<Rightarrow> add_fun \<Rightarrow> ptr \<Rightarrow> nat \<Rightarrow> io_world \<Rightarrow> io_fault + io_world" where
  "HandleConnect E add p n w =
     and_then (ValidateConnectTask p w) (\<lambda>valid.
     and_then (deref p w) (\<lambda>tk.
       if \<not> valid
       then and_then (modify_buffer p (\<lambda>k. SetActiveFileDescriptor (fd tk) (SetBytesTransferred (- EINVAL) k)) w)
              (\<lambda>w1. QueueFailedTask E add p w1)
       else case buffer tk of
              None \<Rightarrow> Inl NullBuffer
            | Some k \<Rightarrow> Inr (put_sqe n (prep_sqe (OpConnect (fd tk) (KernelBuf_Data k))) w)))"

text \<open>The end of \<^verbatim>\<open>SubmitTask\<close>: the user data, and the linked timeout.\<close>

definition finish_submit :: "io_env \<Rightarrow> ptr \<Rightarrow> nat \<Rightarrow> io_world \<Rightarrow> io_fault + io_world" where
  "finish_submit E p n w =
     (let w1 = put_sqe n (\<lambda>q. q\<lparr>sqe_user_data := task_word p\<rparr>) w
      in and_then (modify_task p (\<lambda>t. t\<lparr>user_data := task_word p\<rparr>) w1) (\<lambda>w2.
         and_then (deref p w2) (\<lambda>tk.
           if 0 < timeout_ms tk
           then let w3 = put_sqe n (\<lambda>q. q\<lparr>sqe_link := True\<rparr>) w2; (e, w4) = take_sqe E w3
                in case e of
                     Some m \<Rightarrow>
                       Inr (put_sqe m (\<lambda>q. q\<lparr>sqe_user_data := task_word p OR kTimeoutFlag\<rparr>)
                             (put_sqe m (prep_sqe (OpLinkTimeout (timeout_ms tk div 1000)
                                                     ((timeout_ms tk mod 1000) * 1000000))) w4))
                   | None \<Rightarrow> Inr (put_sqe n (\<lambda>q. q\<lparr>sqe_link := False\<rparr>) w4)
           else Inr w2)))"

definition SubmitTask :: "io_env \<Rightarrow> add_fun \<Rightarrow> ptr \<Rightarrow> io_world \<Rightarrow> io_fault + io_world" where
  "SubmitTask E add p w =
     (let (e, w1) = take_sqe E w
      in case e of
           None \<Rightarrow> QueueFailedTask E add p w1
         | Some n \<Rightarrow>
             and_then (deref p w1) (\<lambda>tk.
               let rw = (\<lambda>opc. case buffer tk of
                           None \<Rightarrow> Inl NullBuffer
                         | Some k \<Rightarrow>
                             finish_submit E p n (put_sqe n (prep_sqe (opc (fd tk) (KernelBuf_Data k)
                               (kb_size k mod 2 ^ 32) (word_of_int (kb_offset k)))) w1))
               in case task_type tk of
                    TypeRead \<Rightarrow> rw OpRead
                  | TypeWrite \<Rightarrow> rw OpWrite
                  | TypeAccept \<Rightarrow> finish_submit E p n (put_sqe n (prep_sqe (OpAccept (fd tk))) w1)
                  | TypeConnect \<Rightarrow> and_then (HandleConnect E add p n w1) (\<lambda>w2. finish_submit E p n w2)
                  | _ \<Rightarrow>
                      and_then (modify_buffer p
                          (\<lambda>k. SetActiveFileDescriptor (fd tk) (SetBytesTransferred (- EINVAL) k)) w1)
                        (\<lambda>w2. QueueFailedTask E add p w2)))"

section \<open>AddTask\<close>

text \<open>The compare-and-swap of the state; the code retries nothing, so a lost race is a refusal.\<close>

definition TryTransitionToSubmitted :: "ptr \<Rightarrow> io_world \<Rightarrow> io_fault + bool \<times> io_world" where
  "TryTransitionToSubmitted p w =
     and_then (deref p w) (\<lambda>tk.
       if task_state tk = StateSubmitted then Inr (False, w)
       else Inr (True, set_task p (tk\<lparr>task_state := StateSubmitted\<rparr>) w))"

definition BackpressureActive :: "io_world \<Rightarrow> bool" where
  "BackpressureActive w \<longleftrightarrow>
     0 < max_inflight_ops (config w) \<and> max_inflight_ops (config w) \<le> inflight w"

text \<open>The fields of a task that \<^verbatim>\<open>AddTask\<close> resets before the submission.\<close>

definition admitted :: "AsyncTask \<Rightarrow> AsyncTask" where
  "admitted t =
     (let t1 = (MarkDetachedAndComplete False t)\<lparr>is_cancel := False\<rparr>;
          t2 = (if RepeatWhenFailed t1 then t1\<lparr>try_count := 0\<rparr> else t1)
      in t2\<lparr>done_state := DoneState_Reset (done_state t2)\<rparr>)"

definition add_body :: "io_env \<Rightarrow> add_fun \<Rightarrow> add_fun" where
  "add_body E add p w =
     (if p = nullptr then Inr (False, w)
      else and_then (TryTransitionToSubmitted p w) (\<lambda>(ok, w1).
        if \<not> ok
        then and_then (modify_task p (\<lambda>t. (SetDebugStr ''failed: already executing'' t)\<lparr>detach := False\<rparr>) w1)
               (\<lambda>w2. Inr (False, w2))
        else if 0 < max_inflight_ops (config w1) \<and> \<not> inflight w1 < max_inflight_ops (config w1)
        then and_then (modify_task p (\<lambda>t. t\<lparr>task_state := StateReady\<rparr>) w1) (\<lambda>w2. Inr (False, w2))
        else and_then (modify_task p admitted (w1\<lparr>inflight := inflight w1 + 1\<rparr>)) (\<lambda>w2.
             and_then (SubmitTask E add p w2) (\<lambda>w3. Inr (True, AutoFlush E w3)))))"

text \<open>The recursion through \<^verbatim>\<open>HandleFailedTask\<close> is bounded by the first argument.\<close>

fun AddTask :: "nat \<Rightarrow> io_env \<Rightarrow> add_fun" where
  "AddTask 0 E p w = Inl OutOfFuel"
| "AddTask (Suc n) E p w = add_body E (AddTask n E) p w"

section \<open>Completions\<close>

text \<open>\<^verbatim>\<open>while (!AddTask(tp)) yield()\<close>, for at most as many rounds as the first argument says.\<close>

fun spin_add :: "nat \<Rightarrow> add_fun \<Rightarrow> ptr \<Rightarrow> io_world \<Rightarrow> io_fault + io_world" where
  "spin_add 0 add p w = Inl OutOfFuel"
| "spin_add (Suc n) add p w = and_then (add p w) (\<lambda>(ok, w1). if ok then Inr w1 else spin_add n add p w1)"

definition HandleTimeoutTask :: "io_env \<Rightarrow> ptr \<Rightarrow> io_world \<Rightarrow> io_fault + bool \<times> io_world" where
  "HandleTimeoutTask E p w =
     and_then (deref p w) (\<lambda>tk.
       if task_state tk \<noteq> StateSubmitted \<and> task_state tk \<noteq> StateReady then Inr (False, w)
       else and_then (modify_task p (\<lambda>t. SetTaskState StateTimeout (MarkDetachedAndComplete True
                (SetDebugStr ''timed out'' t))) w) (\<lambda>w1.
            and_then (delete_task E p w1) (\<lambda>w2. Inr (False, w2))))"

definition HandleTimeoutEvent :: "io_env \<Rightarrow> ptr \<Rightarrow> io_world \<Rightarrow> io_fault + io_world" where
  "HandleTimeoutEvent E p w = and_then (HandleTimeoutTask E p w) (\<lambda>(_, w1). Inr w1)"

text \<open>Handing the chained task to \<^verbatim>\<open>AddTask\<close>, whose answer is ignored.\<close>

definition add_next :: "add_fun \<Rightarrow> ptr \<Rightarrow> io_world \<Rightarrow> io_fault + io_world" where
  "add_next add p w =
     and_then (deref p w) (\<lambda>tk.
       if next_task tk = nullptr then Inr w
       else let (n, tk1) = ReleaseNextTask tk
            in and_then (add n (set_task p tk1 w)) (\<lambda>(_, w1). Inr w1))"

definition HandleNormalEvent :: "nat \<Rightarrow> io_env \<Rightarrow> add_fun \<Rightarrow> ptr \<Rightarrow> int \<Rightarrow> io_world \<Rightarrow> io_fault + io_world" where
  "HandleNormalEvent spins E add p res w =
     and_then (deref p w) (\<lambda>tk0.
     and_then (modify_buffer p (\<lambda>k. SetActiveFileDescriptor (fd tk0) (SetBytesTransferred res k)) w) (\<lambda>w1.
       if res < 0
       then if res = - EAGAIN \<or> res = - EWOULDBLOCK then spin_add spins add p w1
            else if res = - ECANCELED
            then if 0 < timeout_ms tk0 then HandleTimeoutEvent E p w1
                 else and_then (modify_task p (\<lambda>t. SetTaskState StateCanceled (MarkDetachedAndComplete True
                          (SetDebugStr ''cancelled by kernel'' t))) w1) (delete_task E p)
            else HandleIoFailure E add p w1
       else if res = 0
       then and_then (ExecuteCompletionHandler E add p w1) (\<lambda>w2.
            and_then (deref p w2) (\<lambda>tk.
              if \<not> repeat_forever tk \<and> next_task tk = nullptr
              then let (w3, tk3) = (if 0 < fd tk then (close_fd (fd tk) w2, tk\<lparr>fd := -1\<rparr>) else (w2, tk))
                   in delete_task E p
                        (set_task p (SetTaskState StateSuccess (MarkDetachedAndComplete True tk3)) w3)
              else let w3 = set_task p (SetTaskState StateSuccess tk) w2
                   in and_then (if repeat_forever tk
                                then and_then (add p w3) (\<lambda>(_, w4). Inr w4)
                                else modify_task p (\<lambda>t. t\<lparr>detach := True\<rparr>) w3)
                        (\<lambda>w4. add_next add p w4)))
       else and_then (ExecuteCompletionHandler E add p w1) (\<lambda>w2.
            and_then (deref p w2) (\<lambda>tk.
            let w3 = set_task p (SetTaskState StateSuccess tk) w2
            in and_then (if repeat_forever tk
                         then and_then (add p w3) (\<lambda>(_, w4). Inr w4)
                         else modify_task p (\<lambda>t. t\<lparr>detach := True\<rparr>) w3) (\<lambda>w4.
               and_then (add_next add p w4) (\<lambda>w5.
               and_then (deref p w5) (\<lambda>tk5.
                 if \<not> repeat_forever tk5 \<and> next_task tk5 = nullptr
                 then Inr (set_task p (MarkDetachedAndComplete True tk5) w5) else Inr w5)))))))"

definition HandleErrorEvent :: "io_env \<Rightarrow> add_fun \<Rightarrow> ptr \<Rightarrow> int \<Rightarrow> io_world \<Rightarrow> io_fault + io_world" where
  "HandleErrorEvent E add p res w =
     and_then (deref p w) (\<lambda>tk.
     and_then (modify_buffer p (\<lambda>k. SetActiveFileDescriptor (fd tk) (SetBytesTransferred res k)) w) (\<lambda>w1.
     and_then (HandleFailedTask E add p w1) (\<lambda>(_, w2). Inr w2)))"

definition HandleCancelEvent :: "ptr \<Rightarrow> io_world \<Rightarrow> io_fault + io_world" where
  "HandleCancelEvent p w = modify_task p (\<lambda>t. SetDebugStr ''cancelled'' (t\<lparr>is_cancel := True\<rparr>)) w"

definition HandleConnectionClose :: "io_env \<Rightarrow> add_fun \<Rightarrow> ptr \<Rightarrow> io_world \<Rightarrow> io_fault + io_world" where
  "HandleConnectionClose E add p w =
     and_then (deref p w) (\<lambda>tk.
       let (w1, tk1) = (if 0 < fd tk then (close_fd (fd tk) w, tk\<lparr>fd := -1\<rparr>) else (w, tk));
           w2 = set_task p (SetTaskState StateSuccess (MarkDetachedAndComplete True tk1)) w1
       in and_then (add_next add p w2) (\<lambda>w3. delete_task E p w3))"

definition DispatchCqe ::
    "nat \<Rightarrow> io_env \<Rightarrow> add_fun \<Rightarrow> ptr \<Rightarrow> EventFlag \<Rightarrow> int \<Rightarrow> io_world \<Rightarrow> io_fault + io_world" where
  "DispatchCqe spins E add p et res w =
     and_then (deref p w) (\<lambda>tk.
       if task_state tk \<noteq> StateSubmitted \<and> task_state tk \<noteq> StateReady then Inr w
       else if is_cancel tk
       then and_then (modify_task p (\<lambda>t. SetTaskState StateCanceled (MarkDetachedAndComplete True t)) w) (\<lambda>w1.
            and_then (delete_task E p w1) (\<lambda>w2. Inr (w2\<lparr>inflight := inflight w2 - 1\<rparr>)))
       else and_then
              (if et = EventNone then HandleNormalEvent spins E add p res w
               else if et = EventTimeout then HandleTimeoutEvent E p w
               else if et = EventError then HandleErrorEvent E add p res w
               else if et = EventCancel then (if 0 \<le> res then HandleCancelEvent p w else Inr w)
               else HandleErrorEvent E add p res w)
              (\<lambda>w1. Inr (w1\<lparr>inflight := inflight w1 - 1\<rparr>)))"

section \<open>The event loop and shutdown\<close>

text \<open>
  What one round of the loop gets from liburing: the answer of \<^verbatim>\<open>io_uring_peek_cqe\<close>, the answer of
  \<^verbatim>\<open>io_uring_wait_cqe\<close> if it is called, each with the completion (user data and result) it points
  to, and whether another thread requests the shutdown during the round.
\<close>

record poll =
  peek_ret :: int
  peek_cqe :: "(u64 \<times> int) option"
  wait_ret :: int
  wait_cqe :: "(u64 \<times> int) option"
  shut :: bool

definition loop_round :: "nat \<Rightarrow> io_env \<Rightarrow> add_fun \<Rightarrow> poll \<Rightarrow> io_world \<Rightarrow> io_fault + io_world" where
  "loop_round spins E add q w0 =
     (let (ret, cqe) = (if peek_ret q = - EAGAIN then (wait_ret q, wait_cqe q) else (peek_ret q, peek_cqe q));
          w = (if shut q then w0\<lparr>shutdown_requested := True\<rparr> else w0)
      in if ret < 0 then Inr w
         else case cqe of
                None \<Rightarrow> Inr w
              | Some (ud, res) \<Rightarrow>
                  if ud = 0 then Inr w
                  else let et = event_of_user_data ud; tp = unat (task_of_user_data ud)
                       in if tp = nullptr then Inr w else DispatchCqe spins E add tp et res w)"

text \<open>
  The loop over the rounds; the result says whether the loop has ended or waits for the next
  completion.
\<close>

fun RunEventLoop :: "nat \<Rightarrow> io_env \<Rightarrow> add_fun \<Rightarrow> poll list \<Rightarrow> io_world \<Rightarrow> io_fault + bool \<times> io_world" where
  "RunEventLoop spins E add qs w =
     (if shutdown_requested w then Inr (True, w)
      else case qs of
             [] \<Rightarrow> Inr (False, w)
           | q # qs1 \<Rightarrow> and_then (loop_round spins E add q w) (\<lambda>w1. RunEventLoop spins E add qs1 w1))"

declare RunEventLoop.simps [simp del]

end
