(* ===== verification/Admission.thy ===== *)
theory Admission
  imports Io_Handler
begin

text \<open>
  The two gates of \<^verbatim>\<open>IOHandler::AddTask\<close> under concurrency: any number of threads submit the same
  or different tasks, one atomic access to the task's state or to the count of operations in
  flight at a time. Everything else that touches these two atomics (the event loop that handles
  completions, failed submissions, user code that creates, resets or deletes tasks) is the
  environment, and nothing is assumed of it: it may store any state but \<^verbatim>\<open>kSubmitted\<close> in any task
  and lower the count at any moment, as often as it likes.
\<close>

section \<open>Threads\<close>

text \<open>
  Program points of \<^verbatim>\<open>AddTask\<close> on a task \<^verbatim>\<open>p\<close>: outside; before the load of the state; before the
  compare-and-swap of the state that was loaded; before the load of the count; before the test of
  the value in \<^verbatim>\<open>cur\<close>; before the compare-and-swap of the count; before the store that makes the
  task ready again; before the unconditional increment (no limit); past the gates, where
  \<^verbatim>\<open>SubmitTask\<close> begins.
\<close>

datatype gate_pc =
    Outside
  | LoadState ptr
  | CasState ptr TaskState
  | LoadCount ptr
  | TestCount ptr int
  | CasCount ptr int
  | GiveUp ptr
  | FetchAdd ptr
  | Admitted ptr

text \<open>
  The shared state: the states of the tasks and the count; and, as a record of what happened, how
  many times a task was won since a state other than \<^verbatim>\<open>kSubmitted\<close> was last stored in it, how many
  calls were admitted, and how many times the count was lowered.
\<close>

record gate_sys =
  pcs :: "tid \<Rightarrow> gate_pc"
  states :: "ptr \<Rightarrow> TaskState"
  ops_count :: int
  wins :: "ptr \<Rightarrow> nat"
  admissions :: nat
  lowered :: nat

abbreviation at :: "tid \<Rightarrow> gate_pc \<Rightarrow> gate_sys \<Rightarrow> gate_sys" where
  "at t c s \<equiv> s\<lparr>pcs := (pcs s)(t := c)\<rparr>"

definition won :: "ptr \<Rightarrow> gate_sys \<Rightarrow> gate_sys" where
  "won p s = s\<lparr>states := (states s)(p := StateSubmitted), wins := (wins s)(p := wins s p + 1)\<rparr>"

definition put_state :: "ptr \<Rightarrow> TaskState \<Rightarrow> gate_sys \<Rightarrow> gate_sys" where
  "put_state p e s = s\<lparr>states := (states s)(p := e), wins := (wins s)(p := 0)\<rparr>"

definition raised :: "int \<Rightarrow> gate_sys \<Rightarrow> gate_sys" where
  "raised n s = s\<lparr>ops_count := n, admissions := admissions s + 1\<rparr>"

lemma store_fields [simp]:
  "pcs (won p s) = pcs s" "ops_count (won p s) = ops_count s" "states (won p s) = (states s)(p := StateSubmitted)"
  "pcs (raised n s) = pcs s"
  "won p (s\<lparr>pcs := f\<rparr>) = (won p s)\<lparr>pcs := f\<rparr>" "raised n (s\<lparr>pcs := f\<rparr>) = (raised n s)\<lparr>pcs := f\<rparr>"
  by (simp_all add: won_def raised_def)

text \<open>
  One step: of a thread in \<^verbatim>\<open>AddTask\<close>, or of the environment. \<^verbatim>\<open>compare_exchange_weak\<close> may fail
  without reason; on failure \<^verbatim>\<open>cur\<close> is the value found.
\<close>

inductive gate_step :: "int \<Rightarrow> gate_sys \<Rightarrow> gate_sys \<Rightarrow> bool" for limit where
  call: "pcs s t = Outside \<Longrightarrow> gate_step limit s (at t (LoadState p) s)"
| refuse: "pcs s t = LoadState p \<Longrightarrow> states s p = StateSubmitted \<Longrightarrow> gate_step limit s (at t Outside s)"
| load: "pcs s t = LoadState p \<Longrightarrow> states s p \<noteq> StateSubmitted \<Longrightarrow> gate_step limit s (at t (CasState p (states s p)) s)"
| lose: "pcs s t = CasState p e \<Longrightarrow> states s p \<noteq> e \<Longrightarrow> gate_step limit s (at t Outside s)"
| win: "pcs s t = CasState p e \<Longrightarrow> states s p = e \<Longrightarrow>
    gate_step limit s (at t (if 0 < limit then LoadCount p else FetchAdd p) (won p s))"
| count: "pcs s t = LoadCount p \<Longrightarrow> gate_step limit s (at t (TestCount p (ops_count s)) s)"
| room: "pcs s t = TestCount p cur \<Longrightarrow> cur < limit \<Longrightarrow> gate_step limit s (at t (CasCount p cur) s)"
| full: "pcs s t = TestCount p cur \<Longrightarrow> \<not> cur < limit \<Longrightarrow> gate_step limit s (at t (GiveUp p) s)"
| reserve: "pcs s t = CasCount p cur \<Longrightarrow> ops_count s = cur \<Longrightarrow> gate_step limit s (at t (Admitted p) (raised (cur + 1) s))"
| again: "pcs s t = CasCount p cur \<Longrightarrow> gate_step limit s (at t (TestCount p (ops_count s)) s)"
| release: "pcs s t = GiveUp p \<Longrightarrow> gate_step limit s (at t Outside (put_state p StateReady s))"
| unlimited: "pcs s t = FetchAdd p \<Longrightarrow> gate_step limit s (at t (Admitted p) (raised (ops_count s + 1) s))"
| leave: "pcs s t = Admitted p \<Longrightarrow> gate_step limit s (at t Outside s)"
| other_store: "e \<noteq> StateSubmitted \<Longrightarrow> gate_step limit s (put_state p e s)"
| count_down: "gate_step limit s (s\<lparr>ops_count := ops_count s - 1, lowered := lowered s + 1\<rparr>)"

inductive gate_reach :: "int \<Rightarrow> gate_sys \<Rightarrow> bool" for limit where
  start: "(\<And>t. pcs s t = Outside) \<Longrightarrow> (\<And>p. states s p \<noteq> StateSubmitted) \<Longrightarrow> ops_count s = 0 \<Longrightarrow> (\<And>p. wins s p = 0) \<Longrightarrow>
    admissions s = 0 \<Longrightarrow> lowered s = 0 \<Longrightarrow> gate_reach limit s"
| step: "gate_reach limit s \<Longrightarrow> gate_step limit s s' \<Longrightarrow> gate_reach limit s'"

inductive_cases gate_stepE: "gate_step limit s s'"

section \<open>Exclusive admission\<close>

text \<open>
  A task counts one win exactly while its state is \<^verbatim>\<open>kSubmitted\<close>, and no thread is about to swap a
  state it loaded as \<^verbatim>\<open>kSubmitted\<close>.
\<close>

definition exclusive :: "gate_sys \<Rightarrow> bool" where
  "exclusive s \<longleftrightarrow> (\<forall>p. wins s p = (if states s p = StateSubmitted then 1 else 0)) \<and>
     (\<forall>t p. pcs s t \<noteq> CasState p StateSubmitted)"

lemma exclusive_step: "gate_step limit s s' \<Longrightarrow> exclusive s \<Longrightarrow> exclusive s'"
  by (erule gate_stepE) (auto simp: exclusive_def won_def put_state_def raised_def)

section \<open>Counting\<close>

text \<open>
  No increment and no decrement of the count is lost, and a thread about to reserve a place has
  seen room below the limit.
\<close>

definition counted :: "int \<Rightarrow> gate_sys \<Rightarrow> bool" where
  "counted limit s \<longleftrightarrow> ops_count s = int (admissions s) - int (lowered s) \<and>
     (0 < limit \<longrightarrow> ops_count s \<le> limit) \<and>
     (\<forall>t p cur. pcs s t = CasCount p cur \<longrightarrow> cur < limit) \<and> (\<forall>t p. pcs s t = FetchAdd p \<longrightarrow> limit \<le> 0)"

lemma counted_step: "gate_step limit s s' \<Longrightarrow> counted limit s \<Longrightarrow> counted limit s'"
proof (induction rule: gate_step.induct)
  case (reserve s t p cur)
  then have "cur < limit" unfolding counted_def by blast
  then have "cur + 1 \<le> limit" by simp
  then show ?case using reserve by (auto simp: counted_def raised_def)
qed (auto simp: counted_def won_def put_state_def raised_def)

lemma gate_reach_inv: "gate_reach limit s \<Longrightarrow> exclusive s \<and> counted limit s"
proof (induction rule: gate_reach.induct)
  case (start s)
  then show ?case by (simp add: exclusive_def counted_def)
next
  case (step s s')
  then show ?case using exclusive_step counted_step by blast
qed

section \<open>Properties\<close>

text \<open>
  C2: However many threads call \<^verbatim>\<open>AddTask\<close> at the same time, and whatever states the rest of the
  program stores in the tasks and however often it lowers the count meanwhile, a task is won by
  at most one call between two stores of another state in it; the count is the number of admitted
  calls less the number of times it was lowered, so no update of it is lost; and if there is a
  limit the count never passes it. This is a statement about the two atomic variables: whether an
  admitted call leads to an operation in the kernel is decided by \<^verbatim>\<open>SubmitTask\<close>, and how often a
  completion lowers the count by \<^verbatim>\<open>DispatchCqe\<close>.
\<close>

theorem concurrent_admission:
  assumes "gate_reach limit s"
  shows "(\<forall>p. wins s p \<le> 1 \<and> (wins s p = 1 \<longleftrightarrow> states s p = StateSubmitted)) \<and>
    ops_count s = int (admissions s) - int (lowered s) \<and>
    (0 < limit \<longrightarrow> ops_count s \<le> limit)"
  using gate_reach_inv [OF assms] by (auto simp: exclusive_def counted_def)

text \<open>
  A thread that nobody interferes with decides as the sequential \<^verbatim>\<open>AddTask\<close> does: it refuses a task
  that is submitted, makes the task ready again at the limit, and otherwise admits it and raises
  the count.
\<close>

lemma gate_alone:
  assumes "pcs s t = Outside"
  shows "(gate_step limit)\<^sup>*\<^sup>* s
    (if states s p = StateSubmitted then s
     else if 0 < limit \<and> \<not> ops_count s < limit then put_state p StateReady s
     else at t (Admitted p) (raised (ops_count s + 1) (won p s)))"
    (is "(gate_step limit)\<^sup>*\<^sup>* s ?s'")
proof -
  let ?c = "LoadState p" and ?e = "states s p" and ?n = "ops_count s"
  let ?won = "won p s"
  have same: "s\<lparr>pcs := (pcs s)(t := Outside)\<rparr> = s" using assms by (simp add: fun_upd_idem)
  have out: "(gate_step limit)\<^sup>*\<^sup>* s (at t ?c s)" using gate_step.call [of s t] assms by blast
  note go = rtranclp.rtrancl_into_rtrancl
  show ?thesis
  proof (cases "?e = StateSubmitted")
    case True
    then show ?thesis using go [OF out gate_step.refuse [of _ t p]] same by simp
  next
    case False
    have cas: "(gate_step limit)\<^sup>*\<^sup>* s (at t (if 0 < limit then LoadCount p else FetchAdd p) ?won)"
      using go [OF go [OF out gate_step.load [of _ t p]] gate_step.win [of _ t p ?e]] False by simp
    consider "\<not> 0 < limit" | "0 < limit" "?n < limit" | "0 < limit" "\<not> ?n < limit" by blast
    then show ?thesis
    proof cases
      case 1
      then show ?thesis using go [OF cas gate_step.unlimited [of _ t p]] False by simp
    next
      case 2
      have "(gate_step limit)\<^sup>*\<^sup>* s (at t (CasCount p ?n) ?won)"
        using go [OF go [OF cas gate_step.count [of _ t p]] gate_step.room [of _ t p ?n]] 2 by simp
      from go [OF this gate_step.reserve [of _ t p ?n]] show ?thesis using 2 False by simp
    next
      case 3
      have give: "(gate_step limit)\<^sup>*\<^sup>* s (at t (GiveUp p) ?won)"
        using go [OF go [OF cas gate_step.count [of _ t p]] gate_step.full [of _ t p ?n]] 3 by simp
      moreover have "at t Outside (put_state p StateReady (at t (GiveUp p) ?won)) = put_state p StateReady s"
        using assms by (cases s) (simp add: fun_upd_idem won_def put_state_def)
      ultimately show ?thesis using go [OF give gate_step.release [of _ t p]] 3 False by simp
    qed
  qed
qed

text \<open>Two threads race for the last place with different tasks; one of them gets it.\<close>

definition race :: "gate_pc \<Rightarrow> gate_pc \<Rightarrow> ptr set \<Rightarrow> nat \<Rightarrow> gate_sys" where
  "race c d S n = \<lparr>pcs = (\<lambda>_. Outside)(0 := c, 2 := d),
     states = \<lambda>p. if p \<in> S then StateSubmitted else StateReady, ops_count = int n,
     wins = \<lambda>p. if p \<in> S then 1 else 0, admissions = n, lowered = 0\<rparr>"

lemma race_run: "gate_reach 1 (race (Admitted 64) (TestCount 128 1) {64, 128} 1)"
proof -
  have eqs: "at 0 e (race c d S n) = race e d S n" "at 2 e (race c d S n) = race c e S n"
    "raised (int n + 1) (race c d S n) = race c d S (Suc n)" "pcs (race c d S n) 0 = c" "pcs (race c d S n) 2 = d"
    "ops_count (race c d S n) = int n" "states (race c d S n) p = (if p \<in> S then StateSubmitted else StateReady)"
    "p \<notin> S \<Longrightarrow> won p (race c d S n) = race c d (insert p S) n" for c d e S n p
    by (auto simp: race_def fun_eq_iff won_def raised_def)
  have win: "gate_reach 1 (at t (LoadCount p) (won p s))"
    if "gate_reach 1 s" "pcs s t = CasState p StateReady" "states s p = StateReady" for s t p
    using gate_reach.step [OF that(1) gate_step.win [OF that(2,3)]] by simp
  note step = gate_reach.step
  have 0: "gate_reach 1 (race Outside Outside {} 0)" by (rule gate_reach.start) (simp_all add: race_def)
  have 1: "gate_reach 1 (race (CasState 64 StateReady) Outside {} 0)"
    using step [OF step [OF 0 gate_step.call [of _ 0 1 64]] gate_step.load [of _ 0 64]] by (simp add: eqs)
  have 2: "gate_reach 1 (race (LoadCount 64) Outside {64} 0)"
    using win [OF 1, of 0 64] by (simp add: eqs)
  have 3: "gate_reach 1 (race (CasCount 64 0) Outside {64} 0)"
    using step [OF step [OF 2 gate_step.count [of _ 0 64]] gate_step.room [of _ 0 64 0]] by (simp add: eqs)
  have 4: "gate_reach 1 (race (CasCount 64 0) (CasState 128 StateReady) {64} 0)"
    using step [OF step [OF 3 gate_step.call [of _ 2 1 128]] gate_step.load [of _ 2 128]] by (simp add: eqs)
  have 5: "gate_reach 1 (race (CasCount 64 0) (LoadCount 128) {128, 64} 0)"
    using win [OF 4, of 2 128] by (simp add: eqs)
  have 6: "gate_reach 1 (race (CasCount 64 0) (CasCount 128 0) {128, 64} 0)"
    using step [OF step [OF 5 gate_step.count [of _ 2 128]] gate_step.room [of _ 2 128 0]] by (simp add: eqs)
  have "gate_reach 1 (race (Admitted 64) (CasCount 128 0) {128, 64} 1)"
    using step [OF 6 gate_step.reserve [of _ 0 64 0]] eqs(3) [of 0] by (simp add: eqs del: store_fields)
  from step [OF this gate_step.again [of _ 2 128 0]] show ?thesis by (simp add: eqs insert_commute)
qed

theorem concurrent_admission_witness:
  "\<exists>s. gate_reach 1 s \<and> pcs s 0 = Admitted 64 \<and> pcs s 2 = TestCount 128 1 \<and> wins s 64 = 1 \<and>
     ops_count s = int (admissions s) - int (lowered s) \<and> ops_count s \<le> 1"
proof -
  let ?s = "race (Admitted 64) (TestCount 128 1) {64, 128} 1"
  have "pcs ?s 0 = Admitted 64" "pcs ?s 2 = TestCount 128 1" "states ?s 64 = StateSubmitted" by (simp_all add: race_def)
  moreover have "(0 :: int) < 1" by simp
  ultimately show ?thesis using race_run concurrent_admission [OF race_run] by (intro exI [of _ ?s]) blast
qed

end
