(* ===== verification/Io_Submit.thy ===== *)
theory Io_Submit
  imports Io_Handler
begin

text \<open>
  Properties of \<^verbatim>\<open>IOHandler::AddTask\<close>: what the event handlers may rely on as a locale, the two
  gates (a task is admitted once, the limit on operations in flight), and the entry that an
  admitted task leaves in the ring.
\<close>

section \<open>Symbolic execution\<close>

text \<open>Reading a task after the updates that the handlers make.\<close>

lemma deref_set_task [simp]: "deref p (set_task p tk w) = Inr tk"
  by (simp add: deref_def set_task_def)

lemma deref_other [simp]:
  "deref p (w\<lparr>inflight := i\<rparr>) = deref p w" "deref p (w\<lparr>uring := r\<rparr>) = deref p w"
  "deref p (w\<lparr>invoked := l\<rparr>) = deref p w" "deref p (w\<lparr>shutdown_requested := b\<rparr>) = deref p w"
  "deref p (w\<lparr>closed_fds := c\<rparr>) = deref p w"
  by (simp_all add: deref_def)

lemma deref_ring [simp]:
  "deref p (put_sqe n f w) = deref p w" "deref p (submit E w) = deref p w"
  "deref p (close_fd c w) = deref p w" "deref p (AutoFlush E w) = deref p w"
  by (simp_all add: put_sqe_def submit_def close_fd_def AutoFlush_def)

lemma deref_Inr [simp]: "deref p w = Inr tk \<longleftrightarrow> tasks (store w) p = Some tk"
  by (auto simp: deref_def split: option.splits)

lemma deref_Some [simp]: "tasks (store w) p = Some tk \<Longrightarrow> deref p w = Inr tk"
  by simp

declare AddTask.simps(2) [simp del]

lemma set_task_fields [simp]:
  "inflight (set_task p tk w) = inflight w" "config (set_task p tk w) = config w"
  "uring (set_task p tk w) = uring w" "invoked (set_task p tk w) = invoked w"
  "closed_fds (set_task p tk w) = closed_fds w" "shutdown_requested (set_task p tk w) = shutdown_requested w"
  "tasks (store (set_task p tk w)) = (tasks (store w))(p \<mapsto> tk)" "kbw (store (set_task p tk w)) = kbw (store w)"
  "tpool (store (set_task p tk w)) = tpool (store w)"
  by (simp_all add: set_task_def)

lemma set_task_twice [simp]: "set_task p a (set_task p b w) = set_task p a w"
  by (simp add: set_task_def)

lemma set_task_inflight: "(set_task p a w)\<lparr>inflight := i\<rparr> = set_task p a (w\<lparr>inflight := i\<rparr>)"
  by (simp add: set_task_def)

lemma ring_op_fields [simp]:
  "inflight (put_sqe n f w) = inflight w" "config (put_sqe n f w) = config w" "store (put_sqe n f w) = store w"
  "invoked (put_sqe n f w) = invoked w" "closed_fds (put_sqe n f w) = closed_fds w"
  "shutdown_requested (put_sqe n f w) = shutdown_requested w"
  "inflight (submit E w) = inflight w" "config (submit E w) = config w" "store (submit E w) = store w"
  "invoked (submit E w) = invoked w" "closed_fds (submit E w) = closed_fds w"
  "shutdown_requested (submit E w) = shutdown_requested w"
  "inflight (AutoFlush E w) = inflight w" "config (AutoFlush E w) = config w" "store (AutoFlush E w) = store w"
  "invoked (AutoFlush E w) = invoked w" "closed_fds (AutoFlush E w) = closed_fds w"
  "shutdown_requested (AutoFlush E w) = shutdown_requested w"
  by (simp_all add: put_sqe_def submit_def AutoFlush_def)

lemma take_sqe_fields:
  "take_sqe E w = (e, w1) \<Longrightarrow> inflight w1 = inflight w \<and> config w1 = config w \<and> store w1 = store w \<and>
     invoked w1 = invoked w \<and> closed_fds w1 = closed_fds w \<and> shutdown_requested w1 = shutdown_requested w"
  by (auto simp: take_sqe_def split: prod.splits)

section \<open>What a submitter promises\<close>

text \<open>
  No operation changes the configuration or takes back a shutdown request, and none of them
  raises the number of operations in flight above the limit.
\<close>

definition within_limit :: "io_world \<Rightarrow> bool" where
  "within_limit w \<longleftrightarrow> 0 < max_inflight_ops (config w) \<longrightarrow> inflight w \<le> max_inflight_ops (config w)"

definition keeps :: "io_world \<Rightarrow> io_world \<Rightarrow> bool" where
  "keeps w w' \<longleftrightarrow> config w' = config w \<and> (shutdown_requested w \<longrightarrow> shutdown_requested w') \<and>
     (within_limit w \<longrightarrow> within_limit w')"

lemma keeps_refl [intro, simp]: "keeps w w"
  by (simp add: keeps_def)

lemma keeps_trans [trans]: "keeps w w1 \<Longrightarrow> keeps w1 w2 \<Longrightarrow> keeps w w2"
  by (simp add: keeps_def)

lemma keeps_same:
  "config w' = config w \<Longrightarrow> inflight w' = inflight w \<Longrightarrow> shutdown_requested w' = shutdown_requested w \<Longrightarrow>
     keeps w w'"
  by (simp add: keeps_def within_limit_def)

lemma keeps_simple [intro, simp]:
  "keeps w (set_task p tk w)" "keeps w (put_sqe n f w)" "keeps w (submit E w)" "keeps w (AutoFlush E w)"
  "keeps w (close_fd c w)" "keeps w (w\<lparr>store := s\<rparr>)" "keeps w (w\<lparr>invoked := l\<rparr>)"
  "keeps w (w\<lparr>inflight := inflight w - 1\<rparr>)"
  by (auto simp: keeps_def within_limit_def close_fd_def)

lemma keeps_take_sqe: "take_sqe E w = (e, w1) \<Longrightarrow> keeps w w1"
  using take_sqe_fields by (intro keeps_same) blast+

lemma keeps_modify: "modify_task p f w = Inr w' \<Longrightarrow> keeps w w'" "modify_buffer p g w = Inr w' \<Longrightarrow> keeps w w'"
  by (auto simp: modify_task_def modify_buffer_def split: option.splits)

lemma keeps_delete: "delete_task E p w = Inr w' \<Longrightarrow> keeps w w'"
  by (auto simp: delete_task_def)

lemma keeps_buffer: "with_buffer p f w = Inr w' \<Longrightarrow> keeps w w'"
  by (auto simp: with_buffer_def put_buffer_def intro!: keeps_same split: option.splits)

lemma keeps_create: "create_task E c h w = (q, w') \<Longrightarrow> keeps w w'"
  by (auto simp: create_task_def split: prod.splits)

lemma keeps_create_filled:
  assumes "create_filled E c h bs w = Inr (q, w')"
  shows "keeps w w'"
proof -
  obtain k1 v1 where k: "raise_as BufFault (store_bytes (KernelBuf_Data (fst (MakeKernelBuffer (env_alloc E) (env_tid E)
      (length bs) (kbw (store w))))) bs (MakeKernelBuffer (env_alloc E) (env_tid E) (length bs) (kbw (store w)))) = Inr (k1, v1)"
    using assms by (auto simp: create_filled_def split_beta)
  obtain r w1 where c: "create_task E c h (w\<lparr>store := (store w)\<lparr>kbw := v1\<rparr>\<rparr>) = (r, w1)" by fastforce
  obtain tk v where "w' = set_task q tk (w1\<lparr>store := v\<rparr>)"
    using assms k c by (auto simp: create_filled_def split_beta)
  then have "keeps w1 w'" by (auto intro: keeps_same)
  moreover have "keeps w w1" using keeps_trans [OF keeps_simple(6) keeps_create [OF c]] .
  ultimately show ?thesis by (meson keeps_trans)
qed

lemma shutdown_keeps: "keeps w (RequestShutdown E w)"
proof -
  obtain e w1 where t: "take_sqe E (w\<lparr>shutdown_requested := True\<rparr>) = (e, w1)" by fastforce
  then show ?thesis
    using take_sqe_fields [OF t] by (auto simp: RequestShutdown_def keeps_def within_limit_def split: option.splits)
qed

lemma keeps_finish: "finish_submit E p n w = Inr w' \<Longrightarrow> keeps w w'"
  by (auto simp: finish_submit_def modify_task_def Let_def intro!: keeps_same dest: take_sqe_fields
      split: option.splits prod.splits if_splits)

text \<open>
  The functions that take \<^verbatim>\<open>AddTask\<close> as an argument rely on this promise of it and give it
  themselves.
\<close>

locale submitter =
  fixes add :: add_fun
  assumes add_keeps: "add p w = Inr (ok, w') \<Longrightarrow> keeps w w'"
begin

text \<open>Whatever a user handler calls.\<close>

lemma call_keeps:
  assumes "run_call E add p c w = Inr (n, w')"
  shows "keeps w w'"
proof (cases c)
  case (EditBuffer f)
  then have "with_buffer p (\<lambda>kv. Inr (f kv)) w = Inr w'" using assms by (auto simp: edit_buffer_def)
  then show ?thesis by (rule keeps_buffer)
next
  case (CreateCall c h)
  then show ?thesis using assms keeps_create [of E c h w n w'] by simp
next
  case (CreateFilledCall c h bs)
  then show ?thesis using assms keeps_create_filled [of E c h bs w n w'] by simp
next
  case (SetCall q d)
  then have "modify_task q (apply_setting d) w = Inr w'" using assms by auto
  then show ?thesis by (rule keeps_modify(1))
next
  case (ResizeCall q m)
  then have "with_buffer q (KernelBuf_Resize (env_alloc E) (env_tid E) m) w = Inr w'"
    using assms by (auto simp: resize_buffer_def)
  then show ?thesis by (rule keeps_buffer)
next
  case (StoreCall q bs)
  then have "with_buffer q (\<lambda>kv. store_bytes (KernelBuf_Data (fst kv)) bs kv) w = Inr w'"
    using assms by (auto simp: store_buffer_def)
  then show ?thesis by (rule keeps_buffer)
next
  case (NextCall q r)
  then show ?thesis using assms by auto
next
  case (UnlinkCall name)
  then show ?thesis using assms by (auto intro: keeps_same)
next
  case (CountCall i)
  then show ?thesis using assms by (auto simp: Let_def intro: keeps_same)
next
  case (AddCall q)
  then obtain ok where "add q w = Inr (ok, w')" using assms by auto
  then show ?thesis by (rule add_keeps)
next
  case (CancelCall q)
  then have "w' = w \<or> (\<exists>r. w' = w\<lparr>uring := r\<rparr>)" using assms by (auto simp: split_beta Let_def split: option.splits)
  then show ?thesis by (auto intro: keeps_same)
next
  case FlushCall
  then show ?thesis using assms by (simp add: Flush_def) blast
next
  case ShutdownCall
  then show ?thesis using assms shutdown_keeps by auto
next
  case (CloseCall m)
  then show ?thesis using assms by auto
next
  case (FaultCall e)
  then show ?thesis using assms by simp
qed

lemma cb_keeps: "run_cb E add p prog w = Inr w' \<Longrightarrow> keeps w w'"
proof (induction prog arbitrary: w)
  case (Call c f)
  from Call.prems obtain n w1 where r: "run_call E add p c w = Inr (n, w1)" "run_cb E add p (f n) w1 = Inr w'"
    by auto
  from call_keeps [OF r(1)] Call.IH [OF rangeI r(2)] show ?case by (rule keeps_trans)
qed simp

lemma keeps_execute:
  assumes "ExecuteCompletionHandler E add p w = Inr w'"
  shows "keeps w w'"
proof -
  obtain prog l where "run_cb E add p prog (w\<lparr>invoked := l\<rparr>) = Inr w'"
    using assms by (auto simp: ExecuteCompletionHandler_def)
  from keeps_trans [OF keeps_simple(7) cb_keeps [OF this]] show ?thesis .
qed

lemma failed_keeps:
  assumes "HandleFailedTask E add p w = Inr (b, w')"
  shows "keeps w w'"
proof -
  obtain tk where tk: "deref p w = Inr tk" using assms by (auto simp: HandleFailedTask_def)
  define w1 where "w1 = set_task p (tk\<lparr>try_count := try_count tk + 1\<rparr>) w"
  have k1: "keeps w w1" by (simp add: w1_def)
  have "keeps w1 w'"
  proof (cases "try_count tk + 1 < max_retry_count tk")
    case True
    then obtain w2 ok where "modify_task p (SetTaskState StateReady) w1 = Inr w2" "add p w2 = Inr (ok, w')"
      using assms tk by (auto simp: HandleFailedTask_def Let_def w1_def)
    then show ?thesis using keeps_modify(1) add_keeps keeps_trans by blast
  next
    case False
    then obtain w2 w3 f where "ExecuteCompletionHandler E add p w1 = Inr w2" "modify_task p f w2 = Inr w3"
        "delete_task E p w3 = Inr w'"
      using assms tk by (auto simp: HandleFailedTask_def Let_def w1_def)
    then show ?thesis by (meson keeps_execute keeps_modify(1) keeps_delete keeps_trans)
  qed
  with k1 show ?thesis by (rule keeps_trans)
qed

lemma queue_failed_keeps:
  assumes "QueueFailedTask E add p w = Inr w'"
  shows "keeps w w'"
proof -
  obtain e w1 where t: "take_sqe E w = (e, w1)" by fastforce
  have "keeps w1 w'"
  proof (cases e)
    case None
    then show ?thesis using assms t failed_keeps by (auto simp: QueueFailedTask_def)
  next
    case (Some n)
    then show ?thesis using assms t by (auto simp: QueueFailedTask_def intro!: keeps_same)
  qed
  with keeps_take_sqe [OF t] show ?thesis by (rule keeps_trans)
qed

lemma connect_keeps:
  assumes "HandleConnect E add p n w = Inr w'"
  shows "keeps w w'"
proof -
  obtain v tk where v: "ValidateConnectTask p w = Inr v" and tk: "deref p w = Inr tk"
    using assms by (auto simp: HandleConnect_def)
  show ?thesis
  proof (cases v)
    case True
    then show ?thesis using assms v tk by (auto simp: HandleConnect_def split: option.splits)
  next
    case False
    then obtain w1 f where "modify_buffer p f w = Inr w1" "QueueFailedTask E add p w1 = Inr w'"
      using assms v tk by (auto simp: HandleConnect_def)
    then show ?thesis using queue_failed_keeps keeps_modify(2) keeps_trans by blast
  qed
qed

lemma submit_keeps:
  assumes "SubmitTask E add p w = Inr w'"
  shows "keeps w w'"
proof -
  obtain e w1 where t: "take_sqe E w = (e, w1)" by fastforce
  have "keeps w1 w'"
  proof (cases e)
    case None
    then show ?thesis using assms t queue_failed_keeps by (simp add: SubmitTask_def)
  next
    case (Some n)
    have fin: "keeps w1 v" if "finish_submit E p n (put_sqe n f w1) = Inr v" for f v
      using keeps_finish [OF that] keeps_simple(2) keeps_trans by blast
    have con: "keeps w1 v" if "HandleConnect E add p n w1 = Inr w2" "finish_submit E p n w2 = Inr v" for w2 v
      using connect_keeps [OF that(1)] keeps_finish [OF that(2)] keeps_trans by blast
    have que: "keeps w1 v" if "modify_buffer p f w1 = Inr w2" "QueueFailedTask E add p w2 = Inr v" for f w2 v
      using keeps_modify(2) [OF that(1)] queue_failed_keeps [OF that(2)] keeps_trans by blast
    obtain tk where "tasks (store w1) p = Some tk"
      using assms t Some by (auto simp: SubmitTask_def)
    then show ?thesis
      using assms t Some
      by (cases "task_type tk"; cases "buffer tk") (auto simp: SubmitTask_def intro: fin con que)
  qed
  with keeps_take_sqe [OF t] show ?thesis by (rule keeps_trans)
qed

lemma body_keeps:
  assumes "add_body E add p w = Inr (ok, w')"
  shows "keeps w w'"
proof (cases "p = nullptr")
  case False
  obtain tk where tk: "tasks (store w) p = Some tk"
    using assms False by (auto simp: add_body_def TryTransitionToSubmitted_def)
  define w1 where "w1 = set_task p (tk\<lparr>task_state := StateSubmitted\<rparr>) w"
  consider "keeps w w'"
    | w2 w3 where "inflight w < max_inflight_ops (config w) \<or> \<not> 0 < max_inflight_ops (config w)"
      "modify_task p admitted (w1\<lparr>inflight := inflight w1 + 1\<rparr>) = Inr w2"
      "SubmitTask E add p w2 = Inr w3" "w' = AutoFlush E w3"
    using assms False tk
    by (auto simp: add_body_def TryTransitionToSubmitted_def w1_def modify_task_def Let_def split: if_splits
        intro!: keeps_same)
  then show ?thesis
  proof cases
    case 2
    have "keeps w (w1\<lparr>inflight := inflight w1 + 1\<rparr>)"
      using 2(1) by (auto simp: keeps_def within_limit_def w1_def)
    also have "keeps \<dots> w2" by (rule keeps_modify(1) [OF 2(2)])
    also have "keeps w2 w3" by (rule submit_keeps [OF 2(3)])
    also have "keeps w3 w'" by (simp add: 2(4))
    finally show ?thesis .
  qed
qed (use assms in \<open>simp add: add_body_def\<close>)

end

lemma AddTask_keeps: "AddTask n E p w = Inr (ok, w') \<Longrightarrow> keeps w w'"
proof (induction n arbitrary: p w ok w')
  case (Suc n)
  have "submitter (AddTask n E)" by unfold_locales (rule Suc.IH)
  from submitter.body_keeps [OF this] Suc.prems show ?case by (simp add: AddTask.simps(2))
qed simp

interpretation add: submitter "AddTask n E" for n E
  by unfold_locales (rule AddTask_keeps)

section \<open>The gates\<close>

text \<open>
  C7: A task that is in flight is not submitted again. \<^verbatim>\<open>AddTask\<close> refuses it; the ring, the count
  of operations in flight and all other tasks are unchanged, and of the task itself only the
  debug string and the detach flag.
\<close>

theorem add_task_once:
  assumes "tasks (store w) p = Some tk" and "p \<noteq> nullptr" and "task_state tk = StateSubmitted"
  shows "AddTask (Suc n) E p w =
    Inr (False, set_task p (tk\<lparr>debug_str := ''failed: already executing'', detach := False\<rparr>) w)"
  using assms by (simp add: AddTask.simps(2) add_body_def TryTransitionToSubmitted_def modify_task_def SetDebugStr_def)

lemma AddTask_refused:
  assumes "tasks (store w) p = Some tk" and "p \<noteq> nullptr" and "task_state tk \<noteq> StateSubmitted"
    and "BackpressureActive w"
  shows "AddTask (Suc n) E p w = Inr (False, set_task p (tk\<lparr>task_state := StateReady\<rparr>) w)"
  using assms by (simp add: AddTask.simps(2) add_body_def TryTransitionToSubmitted_def modify_task_def
      BackpressureActive_def)

text \<open>
  Backpressure. At the limit \<^verbatim>\<open>AddTask\<close> refuses a task that is not in flight and leaves it
  ready, so that it can be submitted later; nothing reaches the ring and the count does not
  change.
\<close>

theorem add_task_backpressure:
  assumes "tasks (store w) p = Some tk" and "p \<noteq> nullptr" and "task_state tk \<noteq> StateSubmitted"
    and "BackpressureActive w"
  shows "AddTask (Suc n) E p w = Inr (False, set_task p (tk\<lparr>task_state := StateReady\<rparr>) w)"
  using assms by (rule AddTask_refused)

section \<open>The entry of an admitted task\<close>

text \<open>What the entry of a task asks the kernel to do.\<close>

fun task_op :: "AsyncTask \<Rightarrow> KernelBuf \<Rightarrow> sqe_op" where
  "task_op tk k =
     (case task_type tk of
        TypeRead \<Rightarrow> OpRead (fd tk) (KernelBuf_Data k) (kb_size k mod 2 ^ 32) (word_of_int (kb_offset k))
      | TypeWrite \<Rightarrow> OpWrite (fd tk) (KernelBuf_Data k) (kb_size k mod 2 ^ 32) (word_of_int (kb_offset k))
      | TypeAccept \<Rightarrow> OpAccept (fd tk)
      | TypeConnect \<Rightarrow> OpConnect (fd tk) (KernelBuf_Data k)
      | _ \<Rightarrow> OpUnprepared)"

declare task_op.simps [simp del]

abbreviation has_entry :: "io_env \<Rightarrow> ring \<Rightarrow> bool" where
  "has_entry E r \<equiv> api_get (env_api E) (calls r) (length (sq r))"

text \<open>Taking an entry and filling it, seen on the list of entries.\<close>

lemma take_sqe_some:
  assumes "has_entry E (uring w)"
  shows "take_sqe E w = (Some (length (entries (uring w))),
    w\<lparr>uring := (uring w)\<lparr>calls := calls (uring w) + 1, sq := sq (uring w) @
      [\<lparr>sqe_op = OpUnprepared, sqe_user_data = api_stale (env_api E) (calls (uring w)), sqe_link = False\<rparr>]\<rparr>\<rparr>)"
  using assms by (simp add: take_sqe_def io_uring_get_sqe_def)

lemma put_sqe_at:
  assumes "sq (uring w) = xs @ e # ys" and "n = length (sent (uring w)) + length xs"
  shows "put_sqe n f w = w\<lparr>uring := (uring w)\<lparr>sq := xs @ f e # ys\<rparr>\<rparr>"
  using assms by (simp add: put_sqe_def set_sqe_def)

lemma entries_submit [simp]: "entries (uring (submit E w)) = entries (uring w)"
  using submit_entries by (metis io_world.select_convs(3) io_world.surjective io_world.update_convs(3) prod.collapse submit_def)

definition with_entries :: "sqe list \<Rightarrow> io_world \<Rightarrow> io_world" where
  "with_entries es w = w\<lparr>uring := (uring w)\<lparr>calls := calls (uring w) + length es, sq := sq (uring w) @ es\<rparr>\<rparr>"

lemma with_entries_fields [simp]:
  "store (with_entries es w) = store w" "inflight (with_entries es w) = inflight w"
  "config (with_entries es w) = config w" "invoked (with_entries es w) = invoked w"
  "closed_fds (with_entries es w) = closed_fds w" "shutdown_requested (with_entries es w) = shutdown_requested w"
  "deref p (with_entries es w) = deref p w" "entries (uring (with_entries es w)) = entries (uring w) @ es"
  by (simp_all add: with_entries_def)

lemma set_task_with_entries: "set_task p tk (with_entries es w) = with_entries es (set_task p tk w)"
  by (simp add: set_task_def with_entries_def)

lemma take_sqe_entry:
  "has_entry E (uring w) \<Longrightarrow> \<exists>e. take_sqe E w = (Some (length (entries (uring w))), with_entries [e] w)"
  by (auto simp: take_sqe_some with_entries_def)

lemma put_sqe_entry: "n = length (entries (uring w)) \<Longrightarrow> put_sqe n f (with_entries [e] w) = with_entries [f e] w"
  by (simp add: with_entries_def put_sqe_def set_sqe_def)

lemma finish_submit_plain:
  assumes "tasks (store w) p = Some tk" and "timeout_ms tk \<le> 0" and "n = length (entries (uring w))"
  shows "finish_submit E p n (with_entries [e] w) =
    Inr (with_entries [e\<lparr>sqe_user_data := task_word p\<rparr>] (set_task p (tk\<lparr>user_data := task_word p\<rparr>) w))"
  using assms by (simp add: finish_submit_def modify_task_def put_sqe_entry set_task_with_entries [symmetric])

lemma prep_sqe_ud: "(prep_sqe opc e)\<lparr>sqe_user_data := u\<rparr> = \<lparr>sqe_op = opc, sqe_user_data = u, sqe_link = False\<rparr>"
  by (cases e) (simp add: prep_sqe_def)

lemma SubmitTask_entry:
  assumes tk: "tasks (store w) p = Some tk" and "buffer tk = Some k" and "has_entry E (uring w)"
    and "task_type tk \<in> {TypeRead, TypeWrite, TypeAccept}" and "timeout_ms tk \<le> 0"
  shows "SubmitTask E add p w =
    Inr (with_entries [\<lparr>sqe_op = task_op tk k, sqe_user_data = task_word p, sqe_link = False\<rparr>]
      (set_task p (tk\<lparr>user_data := task_word p\<rparr>) w))"
proof -
  obtain e where t: "take_sqe E w = (Some (length (entries (uring w))), with_entries [e] w)"
    using take_sqe_entry [OF assms(3)] by blast
  show ?thesis
    using assms by (auto simp: SubmitTask_def t put_sqe_entry finish_submit_plain prep_sqe_ud task_op.simps)
qed

lemma put_sqe_second:
  "n = Suc (length (entries (uring w))) \<Longrightarrow> put_sqe n f (with_entries [a, b] w) = with_entries [a, f b] w"
  by (simp add: with_entries_def put_sqe_def set_sqe_def list_update_append nth_append)

lemma finish_submit_timeout:
  assumes "tasks (store w) p = Some tk" and "0 < timeout_ms tk" and "n = length (entries (uring w))"
    and "has_entry E (uring (with_entries [e] w))"
  shows "finish_submit E p n (with_entries [e] w) =
    Inr (with_entries [e\<lparr>sqe_user_data := task_word p, sqe_link := True\<rparr>,
        \<lparr>sqe_op = OpLinkTimeout (timeout_ms tk div 1000) ((timeout_ms tk mod 1000) * 1000000),
         sqe_user_data = task_word p OR kTimeoutFlag, sqe_link = False\<rparr>]
      (set_task p (tk\<lparr>user_data := task_word p\<rparr>) w))"
proof -
  let ?e = "e\<lparr>sqe_user_data := task_word p, sqe_link := True\<rparr>"
  let ?w = "with_entries [?e] (set_task p (tk\<lparr>user_data := task_word p\<rparr>) w)"
  have "has_entry E (uring ?w)" using assms(4) by (simp add: with_entries_def)
  then obtain e2 where t: "take_sqe E ?w = (Some (length (entries (uring ?w))), with_entries [e2] ?w)"
    using take_sqe_entry by blast
  have twice: "with_entries [b] (with_entries [a] v) = with_entries [a, b] v" for a b v
    by (simp add: with_entries_def)
  show ?thesis
    using assms(1-3) t
    by (simp add: finish_submit_def modify_task_def put_sqe_entry set_task_with_entries [symmetric]
        del: append_assoc) (simp add: set_task_with_entries put_sqe_entry put_sqe_second twice prep_sqe_ud)
qed

lemma admitted_fields [simp]:
  "task_state (admitted t) = task_state t" "detach (admitted t) = False" "is_cancel (admitted t) = False"
  "done_state (admitted t) = kIdle" "buffer (admitted t) = buffer t" "fd (admitted t) = fd t"
  "task_type (admitted t) = task_type t" "timeout_ms (admitted t) = timeout_ms t"
  "handler (admitted t) = handler t" "next_task (admitted t) = next_task t"
  "repeat_forever (admitted t) = repeat_forever t" "max_retry_count (admitted t) = max_retry_count t"
  "try_count (admitted t) = (if 0 < max_retry_count t then 0 else try_count t)"
  by (simp_all add: admitted_def MarkDetachedAndComplete_def RepeatWhenFailed_def DoneState_Reset_def Let_def)

lemma task_op_admitted [simp]: "task_op ((admitted t)\<lparr>user_data := u\<rparr>) k = task_op t k"
  "task_op (admitted t) k = task_op t k" "task_op (t\<lparr>task_state := s\<rparr>) k = task_op t k"
  by (simp_all add: task_op.simps split: TaskType.split)

text \<open>\<^verbatim>\<open>AddTask\<close> past both gates is the submission and the flush.\<close>

abbreviation in_flight :: "AsyncTask \<Rightarrow> AsyncTask" where
  "in_flight tk \<equiv> admitted (tk\<lparr>task_state := StateSubmitted\<rparr>)"

lemma AddTask_admit:
  assumes "tasks (store w) p = Some tk" and "p \<noteq> nullptr" and "task_state tk \<noteq> StateSubmitted"
    and "\<not> BackpressureActive w"
  shows "AddTask (Suc n) E p w =
    and_then (SubmitTask E (AddTask n E) p (set_task p (in_flight tk) (w\<lparr>inflight := inflight w + 1\<rparr>)))
      (\<lambda>w1. Inr (True, AutoFlush E w1))"
  using assms
  by (auto simp: AddTask.simps(2) add_body_def TryTransitionToSubmitted_def modify_task_def
      BackpressureActive_def set_task_inflight)

lemma AddTask_entry:
  assumes "tasks (store w) p = Some tk" and "p \<noteq> nullptr" and "task_state tk \<noteq> StateSubmitted"
    and "\<not> BackpressureActive w" and "buffer tk = Some k" and "has_entry E (uring w)"
    and "task_type tk \<in> {TypeRead, TypeWrite, TypeAccept}" and "timeout_ms tk \<le> 0"
  shows "AddTask (Suc n) E p w = Inr (True, AutoFlush E (with_entries
      [\<lparr>sqe_op = task_op tk k, sqe_user_data = task_word p, sqe_link = False\<rparr>]
      (set_task p ((in_flight tk)\<lparr>user_data := task_word p\<rparr>) (w\<lparr>inflight := inflight w + 1\<rparr>))))"
proof -
  let ?w = "set_task p (in_flight tk) (w\<lparr>inflight := inflight w + 1\<rparr>)"
  have "SubmitTask E (AddTask n E) p ?w =
      Inr (with_entries [\<lparr>sqe_op = task_op tk k, sqe_user_data = task_word p, sqe_link = False\<rparr>]
        (set_task p ((in_flight tk)\<lparr>user_data := task_word p\<rparr>) ?w))"
    using SubmitTask_entry [of ?w p "in_flight tk" k E "AddTask n E"] assms(5-8) by simp
  then show ?thesis using AddTask_admit [OF assms(1-4), of n E] by simp
qed

text \<open>The entries of a task with a timeout: the operation, linked to the timeout.\<close>

definition timed_entries :: "ptr \<Rightarrow> AsyncTask \<Rightarrow> KernelBuf \<Rightarrow> sqe list" where
  "timed_entries p tk k =
     [\<lparr>sqe_op = task_op tk k, sqe_user_data = task_word p, sqe_link = True\<rparr>,
      \<lparr>sqe_op = OpLinkTimeout (timeout_ms tk div 1000) ((timeout_ms tk mod 1000) * 1000000),
       sqe_user_data = task_word p OR kTimeoutFlag, sqe_link = False\<rparr>]"

lemma SubmitTask_timed:
  assumes tk: "tasks (store w) p = Some tk" and "buffer tk = Some k" and "has_entry E (uring w)"
    and "\<forall>e. has_entry E (uring (with_entries [e] w))"
    and "task_type tk \<in> {TypeRead, TypeWrite, TypeAccept}" and "0 < timeout_ms tk"
  shows "SubmitTask E add p w = Inr (with_entries (timed_entries p tk k) (set_task p (tk\<lparr>user_data := task_word p\<rparr>) w))"
proof -
  obtain e where t: "take_sqe E w = (Some (length (entries (uring w))), with_entries [e] w)"
    using take_sqe_entry [OF assms(3)] by blast
  have p: "(prep_sqe opc e)\<lparr>sqe_user_data := u, sqe_link := True\<rparr> = \<lparr>sqe_op = opc, sqe_user_data = u, sqe_link = True\<rparr>" for opc u
    by (cases e) (simp add: prep_sqe_def)
  have "finish_submit E p (length (entries (uring w))) (with_entries [prep_sqe (task_op tk k) e] w) =
      Inr (with_entries (timed_entries p tk k) (set_task p (tk\<lparr>user_data := task_word p\<rparr>) w))"
    using finish_submit_timeout [OF tk assms(6) refl] assms(4) by (simp add: p timed_entries_def)
  then show ?thesis using assms(1,2,5) by (auto simp: SubmitTask_def t put_sqe_entry task_op.simps)
qed

lemma AddTask_timed:
  assumes "tasks (store w) p = Some tk" and "p \<noteq> nullptr" and "task_state tk \<noteq> StateSubmitted"
    and "\<not> BackpressureActive w" and "buffer tk = Some k" and "has_entry E (uring w)"
    and "\<forall>e. has_entry E (uring (with_entries [e] w))"
    and "task_type tk \<in> {TypeRead, TypeWrite, TypeAccept}" and "0 < timeout_ms tk"
  shows "AddTask (Suc n) E p w = Inr (True, AutoFlush E (with_entries (timed_entries p tk k)
      (set_task p ((in_flight tk)\<lparr>user_data := task_word p\<rparr>) (w\<lparr>inflight := inflight w + 1\<rparr>))))"
proof -
  let ?w = "set_task p (in_flight tk) (w\<lparr>inflight := inflight w + 1\<rparr>)"
  have "has_entry E (uring (with_entries [e] ?w))" for e using assms(7) by (simp add: with_entries_def)
  then have "SubmitTask E (AddTask n E) p ?w = Inr (with_entries (timed_entries p (in_flight tk) k)
        (set_task p ((in_flight tk)\<lparr>user_data := task_word p\<rparr>) ?w))"
    using SubmitTask_timed [of ?w p "in_flight tk" k E "AddTask n E"] assms(5,6,8,9) by simp
  moreover have "timed_entries p (in_flight tk) k = timed_entries p tk k" by (simp add: timed_entries_def)
  ultimately show ?thesis using AddTask_admit [OF assms(1-4), of n E] by simp
qed

lemma entries_flush [simp]: "entries (uring (AutoFlush E w)) = entries (uring w)"
  unfolding AutoFlush_def by (rule entries_submit)

text \<open>
  Every supported task: reads, writes, accepts, and connects whose address passes the validation.
  The entries are one for the operation or, if the task has a timeout and a second entry is free,
  the operation linked to its timeout; with a timeout and no second entry the link is taken back.
\<close>

definition submittable :: "ptr \<Rightarrow> AsyncTask \<Rightarrow> io_world \<Rightarrow> bool" where
  "submittable p tk w \<longleftrightarrow> task_type tk \<in> {TypeRead, TypeWrite, TypeAccept} \<or>
     task_type tk = TypeConnect \<and> ValidateConnectTask p w = Inr True"

definition second_entry :: "io_env \<Rightarrow> ring \<Rightarrow> bool" where
  "second_entry E r \<longleftrightarrow> api_get (env_api E) (calls r + 1) (length (sq r) + 1)"

definition task_entries :: "io_env \<Rightarrow> ring \<Rightarrow> ptr \<Rightarrow> AsyncTask \<Rightarrow> KernelBuf \<Rightarrow> sqe list" where
  "task_entries E r p tk k =
     (if 0 < timeout_ms tk \<and> second_entry E r then timed_entries p tk k
      else [\<lparr>sqe_op = task_op tk k, sqe_user_data = task_word p, sqe_link = False\<rparr>])"

text \<open>The world after the entries are made; a second entry that was asked for in vain is a call too.\<close>

definition with_task_entries :: "io_env \<Rightarrow> ptr \<Rightarrow> AsyncTask \<Rightarrow> KernelBuf \<Rightarrow> io_world \<Rightarrow> io_world" where
  "with_task_entries E p tk k w =
     (let w1 = with_entries (task_entries E (uring w) p tk k) w
      in if 0 < timeout_ms tk \<and> \<not> second_entry E (uring w)
         then w1\<lparr>uring := (uring w1)\<lparr>calls := calls (uring w1) + 1\<rparr>\<rparr> else w1)"

lemma with_task_entries_fields [simp]:
  "store (with_task_entries E p tk k w) = store w" "inflight (with_task_entries E p tk k w) = inflight w"
  "invoked (with_task_entries E p tk k w) = invoked w" "config (with_task_entries E p tk k w) = config w"
  "closed_fds (with_task_entries E p tk k w) = closed_fds w"
  "shutdown_requested (with_task_entries E p tk k w) = shutdown_requested w"
  "entries (uring (with_task_entries E p tk k w)) = entries (uring w) @ task_entries E (uring w) p tk k"
  by (simp_all add: with_task_entries_def Let_def with_entries_def)

lemma finish_submit_untimed:
  assumes "tasks (store w) p = Some tk" and "0 < timeout_ms tk" and "n = length (entries (uring w))"
    and "\<not> has_entry E (uring (with_entries [e] w))"
  shows "finish_submit E p n (with_entries [e] w) =
    (let w1 = with_entries [e\<lparr>sqe_user_data := task_word p, sqe_link := False\<rparr>] (set_task p (tk\<lparr>user_data := task_word p\<rparr>) w)
     in Inr (w1\<lparr>uring := (uring w1)\<lparr>calls := calls (uring w1) + 1\<rparr>\<rparr>))"
proof -
  have nth: "(xs @ [a]) ! length xs = a" "(xs @ [a])[length xs := b] = xs @ [b]" for xs :: "sqe list" and a b by simp_all
  show ?thesis
    using assms by (simp add: finish_submit_def modify_task_def take_sqe_def io_uring_get_sqe_def put_sqe_def set_sqe_def
        with_entries_def set_task_def nth Let_def)
qed

lemma finish_submit_entries:
  assumes tk: "tasks (store w) p = Some tk" and n: "n = length (entries (uring w))"
  shows "finish_submit E p n (with_entries [prep_sqe (task_op tk k) e] w) =
    Inr (with_task_entries E p tk k (set_task p (tk\<lparr>user_data := task_word p\<rparr>) w))"
proof -
  have he: "has_entry E (uring (with_entries [d] w)) = second_entry E (uring w)" for d
    by (simp add: second_entry_def with_entries_def)
  have l: "(prep_sqe opc e)\<lparr>sqe_user_data := u, sqe_link := b\<rparr> = \<lparr>sqe_op = opc, sqe_user_data = u, sqe_link = b\<rparr>" for opc u b
    by (cases e) (simp add: prep_sqe_def)
  consider "timeout_ms tk \<le> 0" | "0 < timeout_ms tk" "second_entry E (uring w)" | "0 < timeout_ms tk" "\<not> second_entry E (uring w)"
    by linarith
  then show ?thesis
  proof cases
    case 1
    then show ?thesis using finish_submit_plain [OF tk 1 n]
      by (simp add: with_task_entries_def task_entries_def prep_sqe_ud)
  next
    case 2
    then show ?thesis using finish_submit_timeout [OF tk 2(1) n] he
      by (simp add: with_task_entries_def task_entries_def timed_entries_def l)
  next
    case 3
    then show ?thesis using finish_submit_untimed [OF tk 3(1) n] he
      by (simp add: with_task_entries_def task_entries_def l Let_def)
  qed
qed

lemma ValidateConnectTask_same:
  assumes "tasks (store w) p = Some tk" and "tasks (store w') p = Some tk'" and "fd tk' = fd tk"
    and "buffer tk' = buffer tk" and "kbw (store w') = kbw (store w)"
  shows "ValidateConnectTask p w' = ValidateConnectTask p w"
  using assms by (cases "buffer tk") (simp_all add: ValidateConnectTask_def deref_def)

lemma SubmitTask_full:
  assumes tk: "tasks (store w) p = Some tk" and "buffer tk = Some k" and "has_entry E (uring w)"
    and "submittable p tk w"
  shows "SubmitTask E add p w = Inr (with_task_entries E p tk k (set_task p (tk\<lparr>user_data := task_word p\<rparr>) w))"
proof -
  obtain e where t: "take_sqe E w = (Some (length (entries (uring w))), with_entries [e] w)"
    using take_sqe_entry [OF assms(3)] by blast
  note fin = finish_submit_entries [OF tk refl, of E k e]
  show ?thesis
  proof (cases "task_type tk = TypeConnect")
    case True
    then have "ValidateConnectTask p (with_entries [e] w) = Inr True"
      using assms(4) ValidateConnectTask_same [OF tk, of "with_entries [e] w" tk] tk by (simp add: submittable_def)
    then show ?thesis
      using True fin assms(1,2) t by (simp add: SubmitTask_def HandleConnect_def put_sqe_entry task_op.simps)
  next
    case False
    then have "task_type tk \<in> {TypeRead, TypeWrite, TypeAccept}" using assms(4) by (simp add: submittable_def)
    then show ?thesis using fin assms(1,2) t by (auto simp: SubmitTask_def put_sqe_entry task_op.simps)
  qed
qed

lemma AddTask_full:
  assumes tk: "tasks (store w) p = Some tk" and "p \<noteq> nullptr" and "task_state tk \<noteq> StateSubmitted"
    and "\<not> BackpressureActive w" and "buffer tk = Some k" and "has_entry E (uring w)" and "submittable p tk w"
  shows "AddTask (Suc n) E p w = Inr (True, AutoFlush E (with_task_entries E p tk k
      (set_task p ((in_flight tk)\<lparr>user_data := task_word p\<rparr>) (w\<lparr>inflight := inflight w + 1\<rparr>))))"
proof -
  let ?w = "set_task p (in_flight tk) (w\<lparr>inflight := inflight w + 1\<rparr>)"
  have "ValidateConnectTask p ?w = ValidateConnectTask p w"
    by (rule ValidateConnectTask_same [OF tk, where tk' = "in_flight tk"]) simp_all
  then have "submittable p (in_flight tk) ?w" using assms(7) by (simp add: submittable_def)
  moreover have "with_task_entries E p (in_flight tk) k v = with_task_entries E p tk k v" for v
    by (simp add: with_task_entries_def task_entries_def timed_entries_def)
  ultimately show ?thesis
    using AddTask_admit [OF assms(1-4), of n E] SubmitTask_full [of ?w p "in_flight tk" k E "AddTask n E"] assms(5,6) by simp
qed

text \<open>
  C3: A supported task that passes both gates while the ring has a free entry is submitted. The
  task is a read, a write, an accept or a connect whose address passes the validation. Its
  entries follow the earlier ones: one entry for the operation on the task's descriptor and
  buffer, with the task's address as user data; or, if the task has a timeout and a second entry
  is free, this entry linked to the timeout. One more operation is counted; the task is in
  flight, not detached, not signalled and not cancelled. A ring without a free entry and a task of
  another type are outside this statement: they take the path of a failed submission.
\<close>

theorem add_task_submits:
  assumes "tasks (store w) p = Some tk" and "p \<noteq> nullptr" and "task_state tk \<noteq> StateSubmitted"
    and "\<not> BackpressureActive w" and "buffer tk = Some k" and "has_entry E (uring w)"
    and "task_type tk \<in> {TypeRead, TypeWrite, TypeAccept} \<or>
      task_type tk = TypeConnect \<and> ValidateConnectTask p w = Inr True"
  shows "\<exists>w' tk'. AddTask (Suc n) E p w = Inr (True, w') \<and> inflight w' = inflight w + 1 \<and>
    entries (uring w') = entries (uring w) @
      (if 0 < timeout_ms tk \<and> second_entry E (uring w)
       then [\<lparr>sqe_op = task_op tk k, sqe_user_data = task_word p, sqe_link = True\<rparr>,
             \<lparr>sqe_op = OpLinkTimeout (timeout_ms tk div 1000) ((timeout_ms tk mod 1000) * 1000000),
              sqe_user_data = task_word p OR kTimeoutFlag, sqe_link = False\<rparr>]
       else [\<lparr>sqe_op = task_op tk k, sqe_user_data = task_word p, sqe_link = False\<rparr>]) \<and>
    tasks (store w') = (tasks (store w))(p \<mapsto> tk') \<and> task_state tk' = StateSubmitted \<and>
    \<not> detach tk' \<and> done_state tk' = kIdle \<and> \<not> is_cancel tk' \<and> buffer tk' = Some k"
proof -
  have "submittable p tk w" using assms(7) by (simp add: submittable_def)
  from AddTask_full [OF assms(1-6) this, of n] assms(5) show ?thesis
    by (intro exI [of _ "AutoFlush E _"] exI [of _ "(in_flight tk)\<lparr>user_data := task_word p\<rparr>"])
      (auto simp: task_entries_def timed_entries_def simp del: append_assoc)
qed

text \<open>
  \<^verbatim>\<open>WaitForCompletion\<close> does not wait for an operation in flight. Right after \<^verbatim>\<open>AddTask\<close> has
  submitted a task, and until its completion is handled, a call with any timeout returns at once
  with the result -1 and \<^verbatim>\<open>iodone\<close> false, because the task is not detached yet.
\<close>

theorem wait_returns_early:
  assumes "tasks (store w) p = Some tk" and "p \<noteq> nullptr" and "task_state tk \<noteq> StateSubmitted"
    and "\<not> BackpressureActive w" and "buffer tk = Some k" and "has_entry E (uring w)"
    and "task_type tk \<in> {TypeRead, TypeWrite, TypeAccept}" and "timeout_ms tk \<le> 0"
  shows "\<exists>w' tk'. AddTask (Suc n) E p w = Inr (True, w') \<and> tasks (store w') p = Some tk' \<and> task_state tk' = StateSubmitted \<and>
    (\<forall>ms arrives. \<exists>r. WaitForCompletion ms arrives tk' = Some (r, tk') \<and> io_ret r = -1 \<and> \<not> iodone r)"
  using AddTask_entry [OF assms] by (auto simp: WaitForCompletion_def Let_def)

section \<open>Examples\<close>

text \<open>
  A world with one task, created with descriptor 5 and handler 7 and then changed by \<^verbatim>\<open>f\<close>, with a
  limit and a count of operations in flight; an environment whose ring has eight entries and
  whose handlers do nothing.
\<close>

definition demo_env :: io_env where
  "demo_env = \<lparr>env_api = good_api 8, env_cb = \<lambda>_ _. Return, env_alloc = tight_alloc, env_sysnew = 0, env_tid = 0,
     env_chain = 4\<rparr>"

definition demo_buf :: KernelBuf where
  "demo_buf = fst (MakeKernelBuffer tight_alloc 0 kDefaultBufferSize (kbw demo_store))"

abbreviation demo_task :: AsyncTask where
  "demo_task \<equiv> AsyncTask_construct 5 7 demo_buf"

definition demo_world :: "(AsyncTask \<Rightarrow> AsyncTask) \<Rightarrow> int \<Rightarrow> int \<Rightarrow> io_world" where
  "demo_world f lim n =
     \<lparr>store = (snd (CreateTaskWithHandler tight_alloc 0 0 5 7 demo_store))\<lparr>tasks := [64 \<mapsto> f demo_task]\<rparr>,
      config = (default_config 4096)\<lparr>max_inflight_ops := lim\<rparr>, uring = \<lparr>sq = [], sent = [], calls = 0\<rparr>,
      inflight = n, shutdown_requested = False, closed_fds = [], invoked = [],
      removed = [], counters = \<lambda>_. 0\<rparr>"

lemma demo_address: "fst (Acquire tight_alloc 0 (tpool demo_store)) = 64"
proof -
  have "slot_size 96 = 128" by (simp add: slot_size_eq)
  then show ?thesis by (simp add: demo_store_def empty_store_def pool_eval tight_alloc_def del: slot_size_eq)
qed

lemma demo_create:
  "fst (CreateTaskWithHandler tight_alloc 0 0 5 7 demo_store) = 64"
  "tasks (snd (CreateTaskWithHandler tight_alloc 0 0 5 7 demo_store)) = [64 \<mapsto> demo_task]"
  using demo_address by (simp_all add: CreateTaskWithHandler_def AsyncTask_operator_new_def demo_buf_def
      demo_store_tasks split_beta Let_def)

lemma demo_world_fields [simp]:
  "tasks (store (demo_world f lim n)) = [64 \<mapsto> f demo_task]" "inflight (demo_world f lim n) = n"
  "max_inflight_ops (config (demo_world f lim n)) = lim" "uring (demo_world f lim n) = \<lparr>sq = [], sent = [], calls = 0\<rparr>"
  "invoked (demo_world f lim n) = []" "shutdown_requested (demo_world f lim n) = False"
  "closed_fds (demo_world f lim n) = []"
  by (simp_all add: demo_world_def)

lemma demo_env_fields [simp]:
  "env_api demo_env = good_api 8" "env_cb demo_env h x = Return" "env_tid demo_env = 0" "env_chain demo_env = 4"
  by (simp_all add: demo_env_def)

lemma good_api_fields [simp]:
  "api_get (good_api n) c k \<longleftrightarrow> k < n" "api_submit (good_api n) c k = int k" "api_stale (good_api n) c = 0"
  by (simp_all add: good_api_def)

lemma demo_inv:
  assumes "buffer (f demo_task) = Some demo_buf"
  shows "\<exists>out used. store_inv out used (store (demo_world f lim n))"
proof -
  let ?s = "snd (CreateTaskWithHandler tight_alloc 0 0 5 7 demo_store)"
  obtain out used where "store_inv out used demo_store"
    using store_reach_inv [OF tight_alloc_ok demo_store_reach] by blast
  from create_inv [OF tight_alloc_ok this prod.collapse [symmetric] demo_store_memory, of 0 5 7]
  obtain out' where "store_inv out' (insert 64 used) ?s" using demo_create by auto
  from store_inv_upd [OF this, of 64 demo_task "f demo_task"] assms show ?thesis
    by (auto simp: demo_create demo_world_def AsyncTask_construct_def)
qed

lemma demo_task_fields [simp]:
  "task_state demo_task = StateReady" "buffer demo_task = Some demo_buf" "timeout_ms demo_task = 0"
  "repeat_forever demo_task = False" "next_task demo_task = nullptr" "max_retry_count demo_task = -1"
  "is_cancel demo_task = False" "try_count demo_task = 0" "handler demo_task = 7" "fd demo_task = 5"
  by (simp_all add: AsyncTask_construct_def)

theorem wait_returns_early_witness:
  "\<exists>w' tk' r. AddTask 1 demo_env 64 (demo_world (\<lambda>t. t\<lparr>task_type := TypeRead\<rparr>) 0 0) = Inr (True, w') \<and>
     tasks (store w') 64 = Some tk' \<and> WaitForCompletion (-1) True tk' = Some (r, tk') \<and> io_ret r = -1"
proof -
  let ?w = "demo_world (\<lambda>t. t\<lparr>task_type := TypeRead\<rparr>) 0 0"
  obtain w' tk' where w: "AddTask (Suc 0) demo_env 64 ?w = Inr (True, w')" "tasks (store w') 64 = Some tk'"
      "\<forall>ms arrives. \<exists>r. WaitForCompletion ms arrives tk' = Some (r, tk') \<and> io_ret r = -1 \<and> \<not> iodone r"
    using wait_returns_early [of ?w 64 "demo_task\<lparr>task_type := TypeRead\<rparr>" demo_buf demo_env 0] by (auto simp: BackpressureActive_def)
  from w(3) obtain r where "WaitForCompletion (-1) True tk' = Some (r, tk')" "io_ret r = -1" by blast
  then show ?thesis using w(1,2) by auto
qed

theorem add_task_once_witness:
  "\<exists>w'. AddTask 1 demo_env 64 (demo_world (\<lambda>t. t\<lparr>task_state := StateSubmitted\<rparr>) 0 1) = Inr (False, w') \<and>
     inflight w' = 1 \<and> entries (uring w') = []"
  using add_task_once [of "demo_world (\<lambda>t. t\<lparr>task_state := StateSubmitted\<rparr>) 0 1" 64 _ 0 demo_env]
  by simp

theorem add_task_backpressure_witness:
  "\<exists>w'. AddTask 1 demo_env 64 (demo_world id 3 3) = Inr (False, w') \<and> inflight w' = 3"
  using add_task_backpressure [of "demo_world id 3 3" 64 _ 0 demo_env]
  by (simp add: BackpressureActive_def)

theorem add_task_submits_witness:
  "\<exists>w'. AddTask 1 demo_env 64 (demo_world (\<lambda>t. SetTimeout 1500 (SetTaskType TypeAccept t)) 3 2) = Inr (True, w') \<and>
     inflight w' = 3 \<and>
     entries (uring w') = [\<lparr>sqe_op = OpAccept 5, sqe_user_data = 64, sqe_link = True\<rparr>,
       \<lparr>sqe_op = OpLinkTimeout 1 500000000, sqe_user_data = 64 OR kTimeoutFlag, sqe_link = False\<rparr>]"
  using add_task_submits [of "demo_world (\<lambda>t. SetTimeout 1500 (SetTaskType TypeAccept t)) 3 2" 64 _ demo_buf demo_env 0]
  by (auto simp: BackpressureActive_def SetTaskType_def SetTimeout_def task_op.simps task_word_def second_entry_def)

end
