(* ===== verification/Io_Events.thy ===== *)
theory Io_Events
  imports Io_Submit
begin

text \<open>
  Properties of the event loop of \<^verbatim>\<open>IOHandler\<close>: the limit on operations in flight under any
  sequence of calls and completions, decoding of completions, what each kind of completion
  does to its task, shutdown, and the sequences of completions on which the code goes wrong.
\<close>

section \<open>Event handlers keep the promise\<close>

lemma timeout_keeps:
  assumes "HandleTimeoutTask E p w = Inr (b, w')"
  shows "keeps w w'"
proof -
  obtain tk where tk: "tasks (store w) p = Some tk" using assms by (auto simp: HandleTimeoutTask_def)
  show ?thesis
  proof (cases "task_state tk \<noteq> StateSubmitted \<and> task_state tk \<noteq> StateReady")
    case True
    then show ?thesis using assms tk by (simp add: HandleTimeoutTask_def)
  next
    case False
    then obtain f w1 where "modify_task p f w = Inr w1" "delete_task E p w1 = Inr w'"
      using assms tk by (auto simp: HandleTimeoutTask_def split: if_splits)
    then show ?thesis by (meson keeps_modify(1) keeps_delete keeps_trans)
  qed
qed

lemma timeout_event_keeps: "HandleTimeoutEvent E p w = Inr w' \<Longrightarrow> keeps w w'"
  using timeout_keeps by (auto simp: HandleTimeoutEvent_def)

text \<open>
  The branches of \<^verbatim>\<open>HandleNormalEvent\<close>: what it records in the buffer before anything else, the
  step after a successful completion (repeat the task or detach it), and the end of a task
  with neither repetition nor successor.
\<close>

definition record_result :: "int \<Rightarrow> int \<Rightarrow> KernelBuf \<Rightarrow> KernelBuf" where
  "record_result c res k = SetActiveFileDescriptor c (SetBytesTransferred res k)"

definition repeat_or_detach :: "add_fun \<Rightarrow> ptr \<Rightarrow> AsyncTask \<Rightarrow> io_world \<Rightarrow> io_fault + io_world" where
  "repeat_or_detach add p tk w =
     (if repeat_forever tk then and_then (add p w) (\<lambda>(_, w1). Inr w1)
      else modify_task p (\<lambda>t. t\<lparr>detach := True\<rparr>) w)"

definition complete_last :: "ptr \<Rightarrow> io_world \<Rightarrow> io_fault + io_world" where
  "complete_last p w =
     and_then (deref p w) (\<lambda>tk.
       if \<not> repeat_forever tk \<and> next_task tk = nullptr
       then Inr (set_task p (MarkDetachedAndComplete True tk) w) else Inr w)"

lemma normal_faults:
  assumes "HandleNormalEvent spins E add p res w = Inr w'"
  obtains tk0 w1 where "tasks (store w) p = Some tk0" "modify_buffer p (record_result (fd tk0) res) w = Inr w1"
  using assms by (auto simp: HandleNormalEvent_def record_result_def [abs_def])

lemma normal_callback:
  assumes "HandleNormalEvent spins E add p res w = Inr w'" and "0 \<le> res"
    and "tasks (store w) p = Some tk0" and "modify_buffer p (record_result (fd tk0) res) w = Inr w1"
  obtains w2 tk where "ExecuteCompletionHandler E add p w1 = Inr w2" "tasks (store w2) p = Some tk"
  using assms by (cases "res = 0") (auto simp: HandleNormalEvent_def record_result_def [abs_def])

lemma HandleNormalEvent_failed:
  assumes "tasks (store w) p = Some tk0" and "modify_buffer p (record_result (fd tk0) res) w = Inr w1" and "res < 0"
  shows "HandleNormalEvent spins E add p res w =
    (if res = - EAGAIN \<or> res = - EWOULDBLOCK then spin_add spins add p w1
     else if res = - ECANCELED
     then if 0 < timeout_ms tk0 then HandleTimeoutEvent E p w1
          else and_then (modify_task p (\<lambda>t. SetTaskState StateCanceled (MarkDetachedAndComplete True
                   (SetDebugStr ''cancelled by kernel'' t))) w1) (delete_task E p)
     else HandleIoFailure E add p w1)"
  using assms by (simp add: HandleNormalEvent_def record_result_def [abs_def])

lemma HandleNormalEvent_succeeded:
  assumes "tasks (store w) p = Some tk0" and "modify_buffer p (record_result (fd tk0) res) w = Inr w1" and "0 \<le> res"
    and "ExecuteCompletionHandler E add p w1 = Inr w2" and "tasks (store w2) p = Some tk"
  shows "HandleNormalEvent spins E add p res w =
    (if res = 0 \<and> \<not> repeat_forever tk \<and> next_task tk = nullptr
     then let (w3, tk3) = (if 0 < fd tk then (close_fd (fd tk) w2, tk\<lparr>fd := -1\<rparr>) else (w2, tk))
          in delete_task E p (set_task p (SetTaskState StateSuccess (MarkDetachedAndComplete True tk3)) w3)
     else and_then (repeat_or_detach add p tk (set_task p (SetTaskState StateSuccess tk) w2))
        (\<lambda>w4. and_then (add_next add p w4) (\<lambda>w5. if res = 0 then Inr w5 else complete_last p w5)))"
  using assms
  by (cases "res = 0")
    (simp_all add: HandleNormalEvent_def record_result_def [abs_def] repeat_or_detach_def complete_last_def Let_def)

lemma complete_last_keeps: "complete_last p w = Inr w' \<Longrightarrow> keeps w w'"
  by (auto simp: complete_last_def split: if_splits)

context submitter
begin

lemma spin_keeps: "spin_add n add p w = Inr w' \<Longrightarrow> keeps w w'"
proof (induction n arbitrary: w)
  case (Suc n)
  then obtain ok w1 where a: "add p w = Inr (ok, w1)" and r: "(if ok then Inr w1 else spin_add n add p w1) = Inr w'"
    by auto
  have "keeps w1 w'" using r Suc.IH by (cases ok) auto
  with add_keeps [OF a] show ?case by (rule keeps_trans)
qed simp

lemma add_next_keeps:
  assumes "add_next add p w = Inr w'"
  shows "keeps w w'"
proof -
  obtain tk where tk: "tasks (store w) p = Some tk" using assms by (auto simp: add_next_def)
  show ?thesis
  proof (cases "next_task tk = nullptr")
    case False
    then obtain n tk1 ok where "add n (set_task p tk1 w) = Inr (ok, w')"
      using assms tk by (auto simp: add_next_def ReleaseNextTask_def)
    then show ?thesis using add_keeps keeps_simple(1) keeps_trans by blast
  qed (use assms tk in \<open>simp add: add_next_def\<close>)
qed

lemma repeat_keeps: "repeat_or_detach add p tk w = Inr w' \<Longrightarrow> keeps w w'"
  using add_keeps keeps_modify(1) by (cases "repeat_forever tk") (auto simp: repeat_or_detach_def)

lemma normal_failed_keeps:
  assumes "HandleNormalEvent spins E add p res w = Inr w'" and "res < 0"
  shows "keeps w w'"
proof -
  obtain tk0 w1 where w1: "tasks (store w) p = Some tk0" "modify_buffer p (record_result (fd tk0) res) w = Inr w1"
    using assms(1) by (rule normal_faults)
  note r = assms(1) [unfolded HandleNormalEvent_failed [OF w1 assms(2)]]
  have "keeps w1 w'"
  proof (cases "res = - ECANCELED")
    case True
    then consider "HandleTimeoutEvent E p w1 = Inr w'"
      | g w2 where "modify_task p g w1 = Inr w2" "delete_task E p w2 = Inr w'"
      using r by (cases "0 < timeout_ms tk0") (auto simp: errno_defs)
    then show ?thesis
    proof cases
      case 2
      then show ?thesis by (meson keeps_modify(1) keeps_delete keeps_trans)
    qed (rule timeout_event_keeps)
  next
    case False
    then show ?thesis
      using r spin_keeps failed_keeps by (cases "res = - EAGAIN") (auto simp: errno_defs HandleIoFailure_def)
  qed
  with keeps_modify(2) [OF w1(2)] show ?thesis by (rule keeps_trans)
qed

lemma normal_succeeded_keeps:
  assumes "HandleNormalEvent spins E add p res w = Inr w'" and "0 \<le> res"
  shows "keeps w w'"
proof -
  obtain tk0 w1 where w1: "tasks (store w) p = Some tk0" "modify_buffer p (record_result (fd tk0) res) w = Inr w1"
    using assms(1) by (rule normal_faults)
  obtain w2 tk where w2: "ExecuteCompletionHandler E add p w1 = Inr w2" "tasks (store w2) p = Some tk"
    using assms w1 by (rule normal_callback)
  note r = assms(1) [unfolded HandleNormalEvent_succeeded [OF w1 assms(2) w2]]
  have "keeps w2 w'"
  proof (cases "res = 0 \<and> \<not> repeat_forever tk \<and> next_task tk = nullptr")
    case True
    then obtain v u where "keeps w2 v" "delete_task E p (set_task p u v) = Inr w'"
      using r by (cases "0 < fd tk") auto
    then show ?thesis by (meson keeps_delete keeps_simple(1) keeps_trans)
  next
    case False
    then have r2: "and_then (repeat_or_detach add p tk (set_task p (SetTaskState StateSuccess tk) w2))
        (\<lambda>w4. and_then (add_next add p w4) (\<lambda>w5. if res = 0 then Inr w5 else complete_last p w5)) = Inr w'"
      using r by (simp only: if_False)
    then obtain w4 w5 where "repeat_or_detach add p tk (set_task p (SetTaskState StateSuccess tk) w2) = Inr w4"
      "add_next add p w4 = Inr w5" and c: "(if res = 0 then Inr w5 else complete_last p w5) = Inr w'"
      by auto
    then have "keeps w2 w5" by (meson repeat_keeps add_next_keeps keeps_simple(1) keeps_trans)
    moreover have "keeps w5 w'"
      using c complete_last_keeps by (cases "res = 0") auto
    ultimately show ?thesis by (rule keeps_trans)
  qed
  with keeps_modify(2) [OF w1(2)] keeps_execute [OF w2(1)] show ?thesis by (meson keeps_trans)
qed

lemma normal_keeps: "HandleNormalEvent spins E add p res w = Inr w' \<Longrightarrow> keeps w w'"
  using normal_failed_keeps normal_succeeded_keeps by (cases "res < 0") auto

lemma error_keeps:
  assumes "HandleErrorEvent E add p res w = Inr w'"
  shows "keeps w w'"
proof -
  obtain f w1 b where "modify_buffer p f w = Inr w1" "HandleFailedTask E add p w1 = Inr (b, w')"
    using assms by (auto simp: HandleErrorEvent_def)
  then show ?thesis by (meson keeps_modify(2) failed_keeps keeps_trans)
qed

lemma dispatch_keeps:
  assumes "DispatchCqe spins E add p et res w = Inr w'"
  shows "keeps w w'"
proof -
  obtain tk where tk: "tasks (store w) p = Some tk" using assms by (auto simp: DispatchCqe_def)
  consider "w' = w"
    | f w1 w2 where "modify_task p f w = Inr w1" "delete_task E p w1 = Inr w2" "w' = w2\<lparr>inflight := inflight w2 - 1\<rparr>"
    | w1 where "w' = w1\<lparr>inflight := inflight w1 - 1\<rparr>"
        "HandleNormalEvent spins E add p res w = Inr w1 \<or> HandleTimeoutEvent E p w = Inr w1 \<or>
         HandleErrorEvent E add p res w = Inr w1 \<or> HandleCancelEvent p w = Inr w1 \<or> w1 = w"
    using assms tk by (auto simp: DispatchCqe_def split: if_splits)
  then show ?thesis
  proof cases
    case 2
    then show ?thesis using keeps_simple(8) by (metis keeps_modify(1) keeps_delete keeps_trans)
  next
    case 3
    have "keeps w w1"
      using 3(2) normal_keeps timeout_event_keeps error_keeps keeps_modify(1)
      unfolding HandleCancelEvent_def by blast
    then show ?thesis using 3(1) keeps_simple(8) keeps_trans by metis
  qed simp
qed

lemma round_keeps:
  assumes "loop_round spins E add q w = Inr w'"
  shows "keeps w w'"
proof -
  define w1 where "w1 = (if shut q then w\<lparr>shutdown_requested := True\<rparr> else w)"
  have "keeps w w1" by (simp add: w1_def keeps_def within_limit_def)
  moreover have "keeps w1 w'"
    using assms dispatch_keeps unfolding loop_round_def w1_def [symmetric]
    by (auto simp: Let_def split: option.splits if_splits prod.splits)
  ultimately show ?thesis by (rule keeps_trans)
qed

lemma loop_keeps: "RunEventLoop spins E add qs w = Inr (b, w') \<Longrightarrow> keeps w w'"
proof (induction qs arbitrary: w)
  case Nil
  then show ?case by (auto simp: RunEventLoop.simps [of _ _ _ "[]"] split: if_splits)
next
  case (Cons q qs)
  then show ?case
    by (auto simp: RunEventLoop.simps [of _ _ _ "q # qs"] split: if_splits dest: round_keeps
        intro: keeps_trans)
qed

end

section \<open>Reachable worlds\<close>

text \<open>
  The handler as applications drive it: any thread submits tasks or flushes, the event loop
  makes its rounds, tasks are created or changed while they are not in the handler's hands,
  and someone requests the shutdown.
\<close>

inductive io_reach :: "io_env \<Rightarrow> AsyncIoConfig \<Rightarrow> io_world \<Rightarrow> bool" for E c where
  init: "inflight w = 0 \<Longrightarrow> config w = c \<Longrightarrow> io_reach E c w"
| add: "io_reach E c w \<Longrightarrow> AddTask n E p w = Inr (ok, w') \<Longrightarrow> io_reach E c w'"
| round: "io_reach E c w \<Longrightarrow> \<not> shutdown_requested w \<Longrightarrow>
    loop_round spins E (AddTask n E) q w = Inr w' \<Longrightarrow> io_reach E c w'"
| user: "io_reach E c w \<Longrightarrow> io_reach E c (w\<lparr>store := s\<rparr>)"
| flush: "io_reach E c w \<Longrightarrow> io_reach E c (Flush E w)"
| shutdown: "io_reach E c w \<Longrightarrow> io_reach E c (RequestShutdown E w)"

text \<open>
  The count never exceeds the limit, whatever is submitted by whom and whatever completions
  arrive: retries, repetitions and chained tasks of the event loop included.
\<close>

lemma within_limit_reach:
  assumes "io_reach E c w" and "0 < max_inflight_ops c"
  shows "inflight w \<le> max_inflight_ops c"
proof -
  have "config w = c \<and> within_limit w"
    using assms(1)
  proof (induction rule: io_reach.induct)
    case (init w)
    then show ?case using assms(2) by (simp add: within_limit_def)
  next
    case (add w n p ok w')
    then show ?case using AddTask_keeps by (metis keeps_def)
  next
    case (round w spins n q w')
    then show ?case using add.round_keeps by (metis keeps_def)
  next
    case (shutdown w)
    then show ?case using shutdown_keeps by (metis keeps_def)
  qed (auto simp: within_limit_def Flush_def)
  then show ?thesis using assms(2) by (auto simp: within_limit_def)
qed

end
