(* ===== verification/Io_Accounting.thy ===== *)
theory Io_Accounting
  imports Io_Events
begin

text \<open>
  What the count of operations in flight says about the tasks: how many tasks are in state
  \<^verbatim>\<open>kSubmitted\<close>, compared with the count and with the limit, over every sequence of calls and
  completions, retries, repetitions, chained tasks and failed submissions included.
\<close>

section \<open>Tasks in flight and the count\<close>

definition busy :: "io_world \<Rightarrow> ptr set" where
  "busy w = {p. \<exists>tk. tasks (store w) p = Some tk \<and> task_state tk = StateSubmitted}"

text \<open>How far the count is above the number of tasks in flight, those of \<^verbatim>\<open>X\<close> left out.\<close>

definition slack :: "ptr set \<Rightarrow> io_world \<Rightarrow> int" where
  "slack X w = inflight w - int (card (busy w - X))"

text \<open>
  A step that raises the number of tasks in flight raises the count as much; and a step that ends
  the operation of \<^verbatim>\<open>p\<close>, so that there is room in the count for it to be lowered once.
\<close>

definition grows :: "io_world \<Rightarrow> io_world \<Rightarrow> bool" where
  "grows w w' \<longleftrightarrow> (finite (busy w) \<longrightarrow> finite (busy w') \<and> (\<forall>X. slack X w \<le> slack X w'))"

definition releases :: "ptr \<Rightarrow> io_world \<Rightarrow> io_world \<Rightarrow> bool" where
  "releases p w w' \<longleftrightarrow> (finite (busy w) \<longrightarrow> finite (busy w') \<and> slack {p} w \<le> slack {} w')"

lemma grows_refl [intro, simp]: "grows w w"
  by (simp add: grows_def)

lemma grows_trans [trans]: "grows w w1 \<Longrightarrow> grows w1 w2 \<Longrightarrow> grows w w2"
  unfolding grows_def by (meson order_trans)

lemma grows_releases: "grows w w1 \<Longrightarrow> releases p w1 w2 \<Longrightarrow> releases p w w2"
  unfolding grows_def releases_def by (meson order_trans)

lemma releases_grows: "releases p w w1 \<Longrightarrow> grows w1 w2 \<Longrightarrow> releases p w w2"
  unfolding grows_def releases_def by (meson order_trans)

lemma grows_shrink:
  assumes "busy w' \<subseteq> busy w" and "inflight w' = inflight w"
  shows "grows w w'"
  unfolding grows_def
proof (intro impI conjI allI)
  assume fin: "finite (busy w)"
  then show "finite (busy w')" using assms(1) by (rule rev_finite_subset)
  fix X
  have "card (busy w' - X) \<le> card (busy w - X)" using fin assms(1) by (intro card_mono) auto
  then show "slack X w \<le> slack X w'" using assms(2) by (simp add: slack_def)
qed

text \<open>Changing a task without putting it in flight.\<close>

lemma busy_set_task: "busy (set_task p tk w) = (if task_state tk = StateSubmitted then insert p (busy w) else busy w - {p})"
  by (auto simp: busy_def)

lemma releases_set_task: "task_state tk \<noteq> StateSubmitted \<Longrightarrow> releases p w (set_task p tk w)"
  by (simp add: releases_def slack_def busy_set_task)

lemma grows_set_task: "task_state tk \<noteq> StateSubmitted \<or> p \<in> busy w \<Longrightarrow> grows w (set_task p tk w)"
  by (rule grows_shrink) (auto simp: busy_set_task)

lemma grows_set_same:
  "tasks (store w) p = Some tk \<Longrightarrow> task_state tk' = task_state tk \<Longrightarrow> grows w (set_task p tk' w)"
  by (rule grows_set_task) (auto simp: busy_def)

lemma busy_store: "store w' = store w \<Longrightarrow> busy w' = busy w"
  by (simp add: busy_def)

lemma grows_same: "store w' = store w \<Longrightarrow> inflight w' = inflight w \<Longrightarrow> grows w w'"
  using busy_store [of w' w] by (intro grows_shrink) simp_all

lemma grows_ring [intro, simp]:
  "grows w (put_sqe n f w)" "grows w (submit E w)" "grows w (AutoFlush E w)" "grows w (close_fd c w)"
  "grows w (w\<lparr>invoked := l\<rparr>)" "grows w (w\<lparr>shutdown_requested := b\<rparr>)"
  by (rule grows_same; simp add: close_fd_def)+

lemma grows_take_sqe: "take_sqe E w = (e, w1) \<Longrightarrow> grows w w1"
  using take_sqe_fields by (intro grows_same) blast+

lemma grows_modify:
  "modify_task p f w = Inr w' \<Longrightarrow> (\<And>tk. task_state (f tk) = task_state tk) \<Longrightarrow> grows w w'"
  "modify_task p f w = Inr w' \<Longrightarrow> (\<And>tk. task_state (f tk) \<noteq> StateSubmitted) \<Longrightarrow> grows w w'"
  "modify_buffer p g w = Inr w' \<Longrightarrow> grows w w'"
proof -
  show "grows w w'" if "modify_task p f w = Inr w'" "\<And>tk. task_state (f tk) = task_state tk"
    using that by (auto simp: modify_task_def intro: grows_set_same)
  show "grows w w'" if "modify_task p f w = Inr w'" "\<And>tk. task_state (f tk) \<noteq> StateSubmitted"
    using that by (auto simp: modify_task_def intro: grows_set_task)
  show "grows w w'" if m: "modify_buffer p g w = Inr w'"
  proof -
    obtain tk k where "tasks (store w) p = Some tk" "w' = set_task p (tk\<lparr>buffer := Some k\<rparr>) w"
      using m by (auto simp: modify_buffer_def split: option.splits)
    then show ?thesis by (auto intro: grows_set_same [of w p tk])
  qed
qed

lemma releases_modify:
  "modify_task p f w = Inr w' \<Longrightarrow> (\<And>tk. task_state (f tk) \<noteq> StateSubmitted) \<Longrightarrow> releases p w w'"
  by (auto simp: modify_task_def intro: releases_set_task)

text \<open>Deleting tasks.\<close>

lemma delete_tasks: "DeleteTask n t p s = Inr s' \<Longrightarrow> tasks s' q = Some tk \<Longrightarrow> tasks s q = Some tk"
proof (induction n arbitrary: p s s')
  case (Suc n)
  from Suc.prems(1) obtain uk s1 s2 s3 where s: "tasks s p = Some uk"
      "(if next_task uk = nullptr then Inr s else DeleteTask n t (next_task uk) s) = Inr s1"
      "destroy_buffer t uk s1 = Inr s2" "AsyncTask_operator_delete t p s2 = Inr s3" "s' = s3\<lparr>tasks := (tasks s3)(p := None)\<rparr>"
    by (auto split: option.splits)
  have "tasks s2 = tasks s1" using s(3) by (auto simp: destroy_buffer_def split: option.splits sum.splits)
  moreover have "tasks s3 = tasks s2" using s(4) by (auto simp: AsyncTask_operator_delete_def split: option.splits if_splits)
  ultimately have "tasks s1 q = Some tk" using Suc.prems(2) s(5) by (auto split: if_splits)
  then show ?case using s(2) Suc.IH by (cases "next_task uk = nullptr") auto
qed simp

lemma grows_delete: "delete_task E p w = Inr w' \<Longrightarrow> grows w w'"
  by (rule grows_shrink) (auto simp: delete_task_def busy_def dest: delete_tasks)

lemma grows_next: "SetNextTask n t p r (store w) = Inr s \<Longrightarrow> grows w (w\<lparr>store := s\<rparr>)"
proof (rule grows_shrink)
  assume a: "SetNextTask n t p r (store w) = Inr s"
  show "busy (w\<lparr>store := s\<rparr>) \<subseteq> busy w"
  proof
    fix q
    assume "q \<in> busy (w\<lparr>store := s\<rparr>)"
    then obtain uk where u: "tasks s q = Some uk" "task_state uk = StateSubmitted" by (auto simp: busy_def)
    obtain tk where tk: "tasks (store w) p = Some tk" using a by (auto simp: SetNextTask_def split: option.splits)
    have "((tasks (store w))(p \<mapsto> tk\<lparr>next_task := r\<rparr>)) q = Some uk"
      using a u(1) tk by (auto simp: SetNextTask_def Let_def split: if_splits dest: delete_tasks)
    then show "q \<in> busy w" using u(2) tk by (auto simp: busy_def split: if_splits)
  qed
qed simp

text \<open>Editing buffers and creating tasks.\<close>

lemma grows_kbw: "grows w (w\<lparr>store := (store w)\<lparr>kbw := v\<rparr>\<rparr>)"
  by (rule grows_shrink) (simp_all add: busy_def)

lemma grows_buffer:
  assumes "with_buffer p f w = Inr w'"
  shows "grows w w'"
proof -
  obtain tk kv where "tasks (store w) p = Some tk" "w' = put_buffer p tk kv w"
    using assms by (auto simp: with_buffer_def split: option.splits)
  then show ?thesis by (intro grows_shrink) (auto simp: put_buffer_def busy_def split: if_splits)
qed

lemma grows_create:
  assumes "create_task E c h w = (q, w')"
  shows "grows w w'"
proof -
  obtain tk where "tasks (store w') = (tasks (store w))(q \<mapsto> tk)" "task_state tk = StateReady" "inflight w' = inflight w"
    using assms
    by (auto simp: create_task_def CreateTaskWithHandler_def AsyncTask_operator_new_def AsyncTask_construct_def Let_def
        split: prod.splits if_splits)
  then show ?thesis by (intro grows_shrink) (auto simp: busy_def split: if_splits)
qed

lemma reset_buffer_state: "reset_buffer t b (tk, v) = Inr (tk', v') \<Longrightarrow> task_state tk' = task_state tk"
  by (auto simp: reset_buffer_def Let_def split: option.splits)

lemma grows_create_filled:
  assumes "create_filled E c h bs w = Inr (q, w')"
  shows "grows w w'"
proof -
  obtain k1 v1 where k: "raise_as BufFault (store_bytes (KernelBuf_Data (fst (MakeKernelBuffer (env_alloc E) (env_tid E)
      (length bs) (kbw (store w))))) bs (MakeKernelBuffer (env_alloc E) (env_tid E) (length bs) (kbw (store w)))) = Inr (k1, v1)"
    using assms by (auto simp: create_filled_def split_beta)
  let ?w = "w\<lparr>store := (store w)\<lparr>kbw := v1\<rparr>\<rparr>"
  obtain r w1 where c: "create_task E c h ?w = (r, w1)" by fastforce
  obtain tk tk1 v2 where t: "tasks (store w1) q = Some tk" "SetBuffer (env_tid E) (Some k1) (tk, kbw (store w1)) = Inr (tk1, v2)"
      "w' = set_task q tk1 (w1\<lparr>store := (store w1)\<lparr>kbw := v2\<rparr>\<rparr>)"
    using assms k c by (auto simp: create_filled_def split_beta)
  have "grows w ?w" by (rule grows_kbw)
  also have "grows ?w w1" by (rule grows_create [OF c])
  also have "grows w1 (w1\<lparr>store := (store w1)\<lparr>kbw := v2\<rparr>\<rparr>)" by (rule grows_kbw)
  also have "grows \<dots> w'"
    unfolding t(3) by (rule grows_set_same [of _ _ tk]) (use t in \<open>auto simp: SetBuffer_def dest: reset_buffer_state\<close>)
  finally show ?thesis .
qed

lemma grows_shutdown: "grows w (RequestShutdown E w)"
proof -
  obtain e w1 where t: "take_sqe E (w\<lparr>shutdown_requested := True\<rparr>) = (e, w1)" by fastforce
  then show ?thesis
    using take_sqe_fields [OF t] by (auto simp: RequestShutdown_def intro!: grows_same split: option.splits)
qed

lemma grows_finish:
  assumes "finish_submit E p n w = Inr w'"
  shows "grows w w'"
proof -
  let ?w1 = "put_sqe n (\<lambda>q. q\<lparr>sqe_user_data := task_word p\<rparr>) w"
  obtain w2 where w2: "modify_task p (\<lambda>t. t\<lparr>user_data := task_word p\<rparr>) ?w1 = Inr w2" "store w' = store w2" "inflight w' = inflight w2"
    using assms by (auto simp: finish_submit_def Let_def dest: take_sqe_fields split: option.splits prod.splits if_splits)
  have "grows w ?w1" by simp
  also have "grows ?w1 w2" using w2(1) by (rule grows_modify(1)) simp
  also have "grows w2 w'" using w2(2,3) by (rule grows_same)
  finally show ?thesis .
qed

section \<open>What a submitter promises to the count\<close>

locale accountant =
  fixes add :: add_fun
  assumes add_grows: "add p w = Inr (ok, w') \<Longrightarrow> grows w w'"
    and add_refuses: "add p w = Inr (ok, w') \<Longrightarrow> p \<in> busy w \<Longrightarrow> \<not> ok \<and> p \<in> busy w'"
begin

lemma call_grows:
  assumes "run_call E add p c w = Inr (n, w')"
  shows "grows w w'"
proof (cases c)
  case (EditBuffer f)
  then have "with_buffer p (\<lambda>kv. Inr (f kv)) w = Inr w'" using assms by (auto simp: edit_buffer_def)
  then show ?thesis by (rule grows_buffer)
next
  case (CreateCall c h)
  then show ?thesis using assms grows_create [of E c h w n w'] by simp
next
  case (CreateFilledCall c h bs)
  then show ?thesis using assms grows_create_filled [of E c h bs w n w'] by simp
next
  case (SetCall q d)
  then have "modify_task q (apply_setting d) w = Inr w'" using assms by auto
  then show ?thesis by (rule grows_modify(1)) (simp add: apply_setting_def task_setters split: task_setting.split)
next
  case (ResizeCall q m)
  then have "with_buffer q (KernelBuf_Resize (env_alloc E) (env_tid E) m) w = Inr w'"
    using assms by (auto simp: resize_buffer_def)
  then show ?thesis by (rule grows_buffer)
next
  case (StoreCall q bs)
  then have "with_buffer q (\<lambda>kv. store_bytes (KernelBuf_Data (fst kv)) bs kv) w = Inr w'"
    using assms by (auto simp: store_buffer_def)
  then show ?thesis by (rule grows_buffer)
next
  case (NextCall q r)
  then show ?thesis using assms grows_next by auto
next
  case (AddCall q)
  then obtain ok where "add q w = Inr (ok, w')" using assms by auto
  then show ?thesis by (rule add_grows)
next
  case (CancelCall q)
  then have "w' = w \<or> (\<exists>r. w' = w\<lparr>uring := r\<rparr>)" using assms by (auto simp: split_beta Let_def split: option.splits)
  then show ?thesis by (auto intro: grows_same)
next
  case FlushCall
  then show ?thesis using assms by (simp add: Flush_def) (metis grows_ring(2))
next
  case ShutdownCall
  then show ?thesis using assms grows_shutdown by auto
qed (use assms in \<open>auto simp: Let_def intro: grows_same\<close>)

lemma cb_grows: "run_cb E add p prog w = Inr w' \<Longrightarrow> grows w w'"
proof (induction prog arbitrary: w)
  case (Call c f)
  from Call.prems obtain n w1 where r: "run_call E add p c w = Inr (n, w1)" "run_cb E add p (f n) w1 = Inr w'"
    by auto
  from call_grows [OF r(1)] Call.IH [OF rangeI r(2)] show ?case by (rule grows_trans)
qed simp

lemma execute_grows:
  assumes "ExecuteCompletionHandler E add p w = Inr w'"
  shows "grows w w'"
proof -
  obtain prog l where "run_cb E add p prog (w\<lparr>invoked := l\<rparr>) = Inr w'"
    using assms by (auto simp: ExecuteCompletionHandler_def)
  from grows_trans [OF grows_ring(5) cb_grows [OF this]] show ?thesis .
qed

text \<open>\<^verbatim>\<open>HandleFailedTask\<close> takes the task out of flight before it retries or deletes it.\<close>

lemma failed_grows:
  assumes "HandleFailedTask E add p w = Inr (b, w')"
  shows "grows w w' \<and> releases p w w'"
proof -
  obtain tk where tk: "tasks (store w) p = Some tk" using assms by (auto simp: HandleFailedTask_def)
  define w1 where "w1 = set_task p (tk\<lparr>try_count := try_count tk + 1\<rparr>) w"
  have g: "grows w w1" unfolding w1_def by (rule grows_set_same [OF tk]) simp
  show ?thesis
  proof (cases "try_count tk + 1 < max_retry_count tk")
    case True
    then obtain w2 ok where m: "modify_task p (SetTaskState StateReady) w1 = Inr w2" and a: "add p w2 = Inr (ok, w')"
      using assms tk by (auto simp: HandleFailedTask_def Let_def w1_def)
    have "grows w1 w2" "releases p w1 w2"
      using grows_modify(2) [OF m] releases_modify [OF m] by (simp_all add: task_setters)
    then show ?thesis using g add_grows [OF a] by (meson grows_trans grows_releases releases_grows)
  next
    case False
    then obtain w2 w3 f where x: "ExecuteCompletionHandler E add p w1 = Inr w2" and m: "modify_task p f w2 = Inr w3"
        and f: "\<And>t. task_state (f t) = StateFailed" and d: "delete_task E p w3 = Inr w'"
      using assms tk by (fastforce simp: HandleFailedTask_def Let_def w1_def task_setters)
    have "grows w2 w3" "releases p w2 w3" using grows_modify(2) [OF m] releases_modify [OF m] f by simp_all
    then show ?thesis using g execute_grows [OF x] grows_delete [OF d] by (meson grows_trans grows_releases releases_grows)
  qed
qed

lemma queue_failed_grows:
  assumes "QueueFailedTask E add p w = Inr w'"
  shows "grows w w'"
proof -
  obtain e w1 where t: "take_sqe E w = (e, w1)" by fastforce
  have "grows w1 w'"
  proof (cases e)
    case None
    then show ?thesis using assms t failed_grows by (auto simp: QueueFailedTask_def)
  next
    case (Some n)
    then show ?thesis using assms t by (auto simp: QueueFailedTask_def intro!: grows_same)
  qed
  with grows_take_sqe [OF t] show ?thesis by (rule grows_trans)
qed

lemma connect_grows:
  assumes "HandleConnect E add p n w = Inr w'"
  shows "grows w w'"
proof -
  obtain v tk where v: "ValidateConnectTask p w = Inr v" and tk: "deref p w = Inr tk"
    using assms by (auto simp: HandleConnect_def)
  show ?thesis
  proof (cases v)
    case True
    then show ?thesis using assms v tk by (auto simp: HandleConnect_def split: option.splits)
  next
    case False
    then obtain w1 f where "modify_buffer p f w = Inr w1" "QueueFailedTask E add p w1 = Inr w'"
      using assms v tk by (auto simp: HandleConnect_def)
    then show ?thesis using queue_failed_grows grows_modify(3) grows_trans by blast
  qed
qed

lemma submit_grows:
  assumes "SubmitTask E add p w = Inr w'"
  shows "grows w w'"
proof -
  obtain e w1 where t: "take_sqe E w = (e, w1)" by fastforce
  have "grows w1 w'"
  proof (cases e)
    case None
    then show ?thesis using assms t queue_failed_grows by (simp add: SubmitTask_def)
  next
    case (Some n)
    have fin: "grows w1 v" if "finish_submit E p n (put_sqe n f w1) = Inr v" for f v
      using grows_finish [OF that] grows_ring(1) grows_trans by blast
    have con: "grows w1 v" if "HandleConnect E add p n w1 = Inr w2" "finish_submit E p n w2 = Inr v" for w2 v
      using connect_grows [OF that(1)] grows_finish [OF that(2)] grows_trans by blast
    have que: "grows w1 v" if "modify_buffer p f w1 = Inr w2" "QueueFailedTask E add p w2 = Inr v" for f w2 v
      using grows_modify(3) [OF that(1)] queue_failed_grows [OF that(2)] grows_trans by blast
    obtain tk where "tasks (store w1) p = Some tk"
      using assms t Some by (auto simp: SubmitTask_def)
    then show ?thesis
      using assms t Some
      by (cases "task_type tk"; cases "buffer tk") (auto simp: SubmitTask_def intro: fin con que)
  qed
  with grows_take_sqe [OF t] show ?thesis by (rule grows_trans)
qed

text \<open>\<^verbatim>\<open>AddTask\<close>: the task and the count go up together, or neither.\<close>

lemma body_refuses:
  assumes "add_body E add p w = Inr (ok, w')" and "p \<in> busy w"
  shows "\<not> ok \<and> grows w w' \<and> p \<in> busy w'"
proof (cases "p = nullptr")
  case False
  obtain tk where tk: "tasks (store w) p = Some tk" "task_state tk = StateSubmitted" using assms(2) by (auto simp: busy_def)
  let ?tk = "tk\<lparr>debug_str := ''failed: already executing'', detach := False\<rparr>"
  have "ok = False" "w' = set_task p ?tk w"
    using assms(1) False tk by (auto simp: add_body_def TryTransitionToSubmitted_def modify_task_def SetDebugStr_def)
  then show ?thesis using tk assms(2) grows_set_task [of ?tk p w] by (simp add: busy_set_task)
qed (use assms in \<open>auto simp: add_body_def\<close>)

lemma admit_grows:
  assumes "p \<notin> busy w"
  shows "grows w (set_task p tk (w\<lparr>inflight := inflight w + 1\<rparr>))" (is "grows w ?w'")
  unfolding grows_def
proof (intro impI conjI allI)
  assume fin: "finite (busy w)"
  have sub: "busy ?w' \<subseteq> insert p (busy w)" by (auto simp: busy_def split: if_splits)
  then show "finite (busy ?w')" using fin finite_subset by blast
  fix X
  have "card (busy ?w' - X) \<le> card (insert p (busy w - X))" using sub fin by (intro card_mono) auto
  also have "\<dots> \<le> Suc (card (busy w - X))" by (simp add: card_insert_if fin)
  finally show "slack X w \<le> slack X ?w'" by (simp add: slack_def)
qed

lemma body_grows:
  assumes "add_body E add p w = Inr (ok, w')"
  shows "grows w w'"
proof (cases "p = nullptr \<or> p \<in> busy w")
  case True
  then show ?thesis using assms body_refuses by (auto simp: add_body_def)
next
  case False
  obtain tk where tk: "tasks (store w) p = Some tk" "task_state tk \<noteq> StateSubmitted"
    using assms False by (auto simp: add_body_def TryTransitionToSubmitted_def busy_def)
  let ?tk = "tk\<lparr>task_state := StateSubmitted\<rparr>"
  consider "w' = set_task p (tk\<lparr>task_state := StateReady\<rparr>) w"
    | w3 where "SubmitTask E add p (set_task p (admitted ?tk) (w\<lparr>inflight := inflight w + 1\<rparr>)) = Inr w3" "w' = AutoFlush E w3"
    using assms False tk
    by (auto simp: add_body_def TryTransitionToSubmitted_def modify_task_def set_task_inflight split: if_splits)
  then show ?thesis
  proof cases
    case 1
    then show ?thesis by (auto intro: grows_set_task)
  next
    case 2
    have "grows w (set_task p (admitted ?tk) (w\<lparr>inflight := inflight w + 1\<rparr>))" using False by (intro admit_grows) simp
    also have "grows \<dots> w3" by (rule submit_grows [OF 2(1)])
    also have "grows w3 w'" by (simp add: 2(2))
    finally show ?thesis .
  qed
qed

end

lemma AddTask_accounts:
  "(AddTask n E p w = Inr (ok, w') \<longrightarrow> grows w w') \<and> (AddTask n E p w = Inr (ok, w') \<longrightarrow> p \<in> busy w \<longrightarrow> \<not> ok \<and> p \<in> busy w')"
proof (induction n arbitrary: p w ok w')
  case (Suc n)
  have a: "accountant (AddTask n E)" by unfold_locales (use Suc.IH in blast)+
  show ?case
    using accountant.body_grows [OF a, of E p w ok w'] accountant.body_refuses [OF a, of E p w ok w']
    by (auto simp: AddTask.simps(2))
qed simp

interpretation acc: accountant "AddTask n E" for n E
  by unfold_locales (use AddTask_accounts in blast)+

section \<open>Completions and the count\<close>

lemma timeout_grows:
  assumes "HandleTimeoutEvent E p w = Inr w'"
  shows "grows w w' \<and> (p \<in> busy w \<longrightarrow> releases p w w')"
proof -
  obtain tk where tk: "tasks (store w) p = Some tk" using assms by (auto simp: HandleTimeoutEvent_def HandleTimeoutTask_def)
  show ?thesis
  proof (cases "task_state tk \<noteq> StateSubmitted \<and> task_state tk \<noteq> StateReady")
    case True
    then have "w' = w" "p \<notin> busy w" using assms tk by (auto simp: HandleTimeoutEvent_def HandleTimeoutTask_def busy_def)
    then show ?thesis by simp
  next
    case False
    then obtain w1 where m: "modify_task p (\<lambda>t. SetTaskState StateTimeout (MarkDetachedAndComplete True (SetDebugStr ''timed out'' t))) w = Inr w1"
        and d: "delete_task E p w1 = Inr w'"
      using assms tk by (auto simp: HandleTimeoutEvent_def HandleTimeoutTask_def split: if_splits)
    have "grows w w1" "releases p w w1" using grows_modify(2) [OF m] releases_modify [OF m] by (simp_all add: task_setters)
    then show ?thesis using grows_delete [OF d] by (meson grows_trans releases_grows)
  qed
qed

lemma SetTaskState_state [simp]: "task_state (SetTaskState st tk) = st"
  by (simp add: task_setters)

lemma complete_last_grows: "complete_last p w = Inr w' \<Longrightarrow> grows w w'"
  by (auto simp: complete_last_def task_setters intro: grows_set_same split: if_splits)

context accountant
begin

lemma spin_grows: "spin_add n add p w = Inr w' \<Longrightarrow> grows w w' \<and> p \<notin> busy w"
proof (induction n arbitrary: w)
  case (Suc n)
  then obtain ok w1 where a: "add p w = Inr (ok, w1)" and r: "(if ok then Inr w1 else spin_add n add p w1) = Inr w'"
    by auto
  show ?case
  proof (cases ok)
    case True
    then show ?thesis using r a add_grows [OF a] add_refuses [OF a] by auto
  next
    case False
    then have "grows w1 w'" "p \<notin> busy w1" using r Suc.IH by auto
    then show ?thesis using grows_trans [OF add_grows [OF a]] add_refuses [OF a] by blast
  qed
qed simp

lemma add_next_grows:
  assumes "add_next add p w = Inr w'"
  shows "grows w w'"
proof -
  obtain tk where tk: "tasks (store w) p = Some tk" using assms by (auto simp: add_next_def)
  show ?thesis
  proof (cases "next_task tk = nullptr")
    case False
    then obtain ok where a: "add (next_task tk) (set_task p (tk\<lparr>next_task := nullptr\<rparr>) w) = Inr (ok, w')"
      using assms tk by (auto simp: add_next_def ReleaseNextTask_def)
    have "grows w (set_task p (tk\<lparr>next_task := nullptr\<rparr>) w)" by (rule grows_set_same [OF tk]) simp
    then show ?thesis using add_grows [OF a] by (rule grows_trans)
  qed (use assms tk in \<open>simp add: add_next_def\<close>)
qed

lemma repeat_grows: "repeat_or_detach add p tk w = Inr w' \<Longrightarrow> grows w w'"
  using add_grows grows_modify(1) by (cases "repeat_forever tk") (auto simp: repeat_or_detach_def)

text \<open>Every branch of \<^verbatim>\<open>HandleNormalEvent\<close> takes a task in flight out of flight, or does not return.\<close>

lemma normal_failed_grows:
  assumes "HandleNormalEvent spins E add p res w = Inr w'" and "res < 0"
  shows "grows w w' \<and> (p \<in> busy w \<longrightarrow> releases p w w')"
proof -
  obtain tk0 w1 where w1: "tasks (store w) p = Some tk0" "modify_buffer p (record_result (fd tk0) res) w = Inr w1"
    using assms(1) by (rule normal_faults)
  note r = assms(1) [unfolded HandleNormalEvent_failed [OF w1 assms(2)]]
  have same: "p \<in> busy w1" if "p \<in> busy w"
    using that w1 by (auto simp: modify_buffer_def busy_def split: option.splits)
  have "grows w1 w' \<and> (p \<in> busy w \<longrightarrow> releases p w1 w')"
  proof (cases "res = - ECANCELED")
    case True
    then consider "HandleTimeoutEvent E p w1 = Inr w'"
      | w2 where "modify_task p (\<lambda>t. SetTaskState StateCanceled (MarkDetachedAndComplete True
          (SetDebugStr ''cancelled by kernel'' t))) w1 = Inr w2" "delete_task E p w2 = Inr w'"
      using r by (cases "0 < timeout_ms tk0") (auto simp: errno_defs)
    then show ?thesis
    proof cases
      case 1
      then show ?thesis using timeout_grows same by blast
    next
      case 2
      have "grows w1 w2" "releases p w1 w2" using grows_modify(2) [OF 2(1)] releases_modify [OF 2(1)] by (simp_all add: task_setters)
      then show ?thesis using grows_delete [OF 2(2)] by (meson grows_trans releases_grows)
    qed
  next
    case False
    then show ?thesis
      using r spin_grows [of spins p w1 w'] failed_grows same
      by (cases "res = - EAGAIN") (auto simp: errno_defs HandleIoFailure_def)
  qed
  with grows_modify(3) [OF w1(2)] show ?thesis by (meson grows_trans grows_releases)
qed

lemma normal_succeeded_grows:
  assumes "HandleNormalEvent spins E add p res w = Inr w'" and "0 \<le> res"
  shows "grows w w' \<and> releases p w w'"
proof -
  obtain tk0 w1 where w1: "tasks (store w) p = Some tk0" "modify_buffer p (record_result (fd tk0) res) w = Inr w1"
    using assms(1) by (rule normal_faults)
  obtain w2 tk where w2: "ExecuteCompletionHandler E add p w1 = Inr w2" "tasks (store w2) p = Some tk"
    using assms w1 by (rule normal_callback)
  note r = assms(1) [unfolded HandleNormalEvent_succeeded [OF w1 assms(2) w2]]
  have "grows w2 w' \<and> releases p w2 w'"
  proof (cases "res = 0 \<and> \<not> repeat_forever tk \<and> next_task tk = nullptr")
    case True
    let ?v = "if 0 < fd tk then close_fd (fd tk) w2 else w2" and ?t = "if 0 < fd tk then tk\<lparr>fd := -1\<rparr> else tk"
    have "grows w2 ?v" by simp
    moreover have "delete_task E p (set_task p (SetTaskState StateSuccess (MarkDetachedAndComplete True ?t)) ?v) = Inr w'"
      using r True by (cases "0 < fd tk") simp_all
    ultimately obtain v u where v: "grows w2 v" "task_state u = StateSuccess" "delete_task E p (set_task p u v) = Inr w'"
      by (metis SetTaskState_state)
    then show ?thesis
      using grows_set_task [of u p v] releases_set_task [of u p v] grows_delete [OF v(3)]
      by (auto intro: grows_trans grows_releases releases_grows)
  next
    case False
    let ?w3 = "set_task p (SetTaskState StateSuccess tk) w2"
    have r2: "and_then (repeat_or_detach add p tk ?w3)
        (\<lambda>w4. and_then (add_next add p w4) (\<lambda>w5. if res = 0 then Inr w5 else complete_last p w5)) = Inr w'"
      using r False by (simp only: if_False)
    then obtain w4 w5 where g: "repeat_or_detach add p tk ?w3 = Inr w4"
      "add_next add p w4 = Inr w5" and c: "(if res = 0 then Inr w5 else complete_last p w5) = Inr w'"
      by auto
    have "grows w5 w'" using c complete_last_grows by (cases "res = 0") auto
    then have "grows ?w3 w'" using repeat_grows [OF g(1)] add_next_grows [OF g(2)] by (meson grows_trans)
    moreover have "grows w2 ?w3" "releases p w2 ?w3"
      by (auto intro: grows_set_task releases_set_task simp: task_setters)
    ultimately show ?thesis by (meson grows_trans releases_grows)
  qed
  with grows_modify(3) [OF w1(2)] execute_grows [OF w2(1)] show ?thesis by (meson grows_trans grows_releases)
qed

lemma normal_grows: "HandleNormalEvent spins E add p res w = Inr w' \<Longrightarrow> grows w w' \<and> (p \<in> busy w \<longrightarrow> releases p w w')"
  using normal_failed_grows normal_succeeded_grows by (cases "res < 0") auto

lemma error_grows:
  assumes "HandleErrorEvent E add p res w = Inr w'"
  shows "grows w w' \<and> releases p w w'"
proof -
  obtain f w1 b where "modify_buffer p f w = Inr w1" "HandleFailedTask E add p w1 = Inr (b, w')"
    using assms by (auto simp: HandleErrorEvent_def)
  then show ?thesis by (meson grows_modify(3) failed_grows grows_trans grows_releases)
qed

text \<open>
  One completion: the count drops by at most one more than the tasks in flight, and by no more
  than them if the completion is not that of a cancellation and finds its task in flight.
\<close>

lemma slack_busy: "finite (busy w) \<Longrightarrow> p \<in> busy w \<Longrightarrow> slack {p} w = slack {} w + 1"
  using card.remove [of "busy w" p] by (simp add: slack_def)

lemma lowered_slack:
  assumes "grows w w1" and "finite (busy w)"
  shows "finite (busy (w1\<lparr>inflight := inflight w1 - 1\<rparr>)) \<and> slack {} w - 1 \<le> slack {} (w1\<lparr>inflight := inflight w1 - 1\<rparr>) \<and>
    (p \<in> busy w \<and> releases p w w1 \<longrightarrow> slack {} w \<le> slack {} (w1\<lparr>inflight := inflight w1 - 1\<rparr>))"
proof -
  have s: "slack X (w1\<lparr>inflight := inflight w1 - 1\<rparr>) = slack X w1 - 1" "busy (w1\<lparr>inflight := inflight w1 - 1\<rparr>) = busy w1" for X
    by (simp_all add: slack_def busy_def)
  have "finite (busy w1)" "slack {} w \<le> slack {} w1" using assms by (simp_all add: grows_def)
  moreover have "slack {} w + 1 \<le> slack {} w1" if "p \<in> busy w" "releases p w w1"
    using that assms(2) slack_busy [OF assms(2) that(1)] by (simp add: releases_def)
  ultimately show ?thesis by (auto simp: s)
qed

lemma dispatch_accounts:
  assumes "DispatchCqe spins E add p et res w = Inr w'" and fin: "finite (busy w)"
  shows "finite (busy w') \<and> slack {} w - 1 \<le> slack {} w' \<and>
    (et \<noteq> EventCancel \<and> (\<forall>tk. tasks (store w) p = Some tk \<longrightarrow> task_state tk \<noteq> StateReady) \<longrightarrow> slack {} w \<le> slack {} w')"
proof -
  obtain tk where tk: "tasks (store w) p = Some tk" using assms by (auto simp: DispatchCqe_def)
  consider "w' = w"
    | w1 where "w' = w1\<lparr>inflight := inflight w1 - 1\<rparr>" "grows w w1 \<and> (p \<in> busy w \<longrightarrow> releases p w w1)"
        "task_state tk = StateSubmitted \<or> task_state tk = StateReady"
    | w1 where "w' = w1\<lparr>inflight := inflight w1 - 1\<rparr>" "grows w w1" "et = EventCancel"
  proof (cases "task_state tk \<noteq> StateSubmitted \<and> task_state tk \<noteq> StateReady")
    case True
    then show ?thesis using assms tk that(1) by (auto simp: DispatchCqe_def)
  next
    case st: False
    show ?thesis
    proof (cases "is_cancel tk")
      case True
      then obtain w1 w2 where m: "modify_task p (\<lambda>t. SetTaskState StateCanceled (MarkDetachedAndComplete True t)) w = Inr w1"
          and d: "delete_task E p w1 = Inr w2" "w' = w2\<lparr>inflight := inflight w2 - 1\<rparr>"
        using assms(1) tk st by (auto simp: DispatchCqe_def)
      have "grows w w1" "releases p w w1" using grows_modify(2) [OF m] releases_modify [OF m] by (simp_all add: task_setters)
      then show ?thesis using that(2) [OF d(2)] grows_delete [OF d(1)] st by (meson grows_trans releases_grows)
    next
      case False
      then obtain w1 where w1: "w' = w1\<lparr>inflight := inflight w1 - 1\<rparr>" and
          h: "HandleNormalEvent spins E add p res w = Inr w1 \<or> HandleTimeoutEvent E p w = Inr w1 \<or>
            HandleErrorEvent E add p res w = Inr w1 \<or> et = EventCancel \<and> (HandleCancelEvent p w = Inr w1 \<or> w1 = w)"
        using assms(1) tk st by (auto simp: DispatchCqe_def split: if_splits)
      have c: "grows w w1" if "HandleCancelEvent p w = Inr w1"
        using that unfolding HandleCancelEvent_def by (rule grows_modify(1)) (simp add: task_setters)
      show ?thesis
        using h that(2) [OF w1] that(3) [OF w1] normal_grows timeout_grows error_grows c st by blast
    qed
  qed
  then show ?thesis
  proof cases
    case 1
    then show ?thesis using fin by simp
  next
    case 2
    then show ?thesis using lowered_slack [of w w1 p] fin tk by (auto simp: busy_def)
  next
    case 3
    then show ?thesis using lowered_slack [of w w1 p] fin by simp
  qed
qed

end

section \<open>Runs\<close>

text \<open>
  The completion that a round of the loop gets, and whether it is one that lowers the count
  without ending an operation in flight: the completion of a cancellation, or one for a task that
  is in state \<^verbatim>\<open>kReady\<close>.
\<close>

definition round_cqe :: "poll \<Rightarrow> (u64 \<times> int) option" where
  "round_cqe q =
     (let (ret, cqe) = (if peek_ret q = - EAGAIN then (wait_ret q, wait_cqe q) else (peek_ret q, peek_cqe q))
      in if ret < 0 then None else cqe)"

definition miscounted :: "poll \<Rightarrow> io_world \<Rightarrow> nat" where
  "miscounted q w =
     (case round_cqe q of
        None \<Rightarrow> 0
      | Some (ud, _) \<Rightarrow>
          if event_of_user_data ud = EventCancel \<or>
             (case tasks (store w) (unat (task_of_user_data ud)) of None \<Rightarrow> False | Some tk \<Rightarrow> task_state tk = StateReady)
          then 1 else 0)"

lemma round_accounts:
  assumes "loop_round spins E (AddTask n E) q w = Inr w'" and "finite (busy w)"
  shows "finite (busy w') \<and> slack {} w \<le> slack {} w' + int (miscounted q w)"
proof -
  define w1 where "w1 = (if shut q then w\<lparr>shutdown_requested := True\<rparr> else w)"
  have w1: "busy w1 = busy w" "slack {} w1 = slack {} w" "store w1 = store w" by (simp_all add: w1_def busy_def slack_def)
  have r: "loop_round spins E (AddTask n E) q w = (case round_cqe q of None \<Rightarrow> Inr w1 | Some (ud, res) \<Rightarrow>
      if ud = 0 \<or> unat (task_of_user_data ud) = nullptr then Inr w1
      else DispatchCqe spins E (AddTask n E) (unat (task_of_user_data ud)) (event_of_user_data ud) res w1)"
    unfolding loop_round_def w1_def [symmetric] round_cqe_def by (auto simp: Let_def split: option.splits prod.splits)
  show ?thesis
  proof (cases "round_cqe q")
    case None
    then show ?thesis using assms r w1 by simp
  next
    case (Some c)
    obtain ud res where c: "c = (ud, res)" by fastforce
    show ?thesis
    proof (cases "ud = 0 \<or> unat (task_of_user_data ud) = nullptr")
      case True
      then show ?thesis using assms r w1 Some c by auto
    next
      case False
      then have "DispatchCqe spins E (AddTask n E) (unat (task_of_user_data ud)) (event_of_user_data ud) res w1 = Inr w'"
        using assms(1) r Some c by simp
      from acc.dispatch_accounts [OF this] show ?thesis
        using assms(2) Some c w1 by (auto simp: miscounted_def split: option.splits if_splits)
    qed
  qed
qed

text \<open>
  The handler as applications drive it: it starts with no task in flight; any thread submits tasks
  or flushes, the event loop makes its rounds, the application creates, changes and deletes tasks
  (but puts none in flight other than by \<^verbatim>\<open>AddTask\<close>), and someone requests the shutdown. The number
  counts the completions that lowered the count without ending an operation in flight.
\<close>

inductive account :: "io_env \<Rightarrow> AsyncIoConfig \<Rightarrow> nat \<Rightarrow> io_world \<Rightarrow> bool" for E c where
  init: "inflight w = 0 \<Longrightarrow> config w = c \<Longrightarrow> busy w = {} \<Longrightarrow> account E c 0 w"
| add: "account E c d w \<Longrightarrow> AddTask n E p w = Inr (ok, w') \<Longrightarrow> account E c d w'"
| round: "account E c d w \<Longrightarrow> \<not> shutdown_requested w \<Longrightarrow>
    loop_round spins E (AddTask n E) q w = Inr w' \<Longrightarrow> account E c (d + miscounted q w) w'"
| user: "account E c d w \<Longrightarrow> busy (w\<lparr>store := s\<rparr>) \<subseteq> busy w \<Longrightarrow> account E c d (w\<lparr>store := s\<rparr>)"
| flush: "account E c d w \<Longrightarrow> account E c d (Flush E w)"
| shutdown: "account E c d w \<Longrightarrow> account E c d (RequestShutdown E w)"

lemma account_reach: "account E c d w \<Longrightarrow> io_reach E c w"
  by (induction rule: account.induct) (auto intro: io_reach.intros)

lemma grows_slack: "grows w w' \<Longrightarrow> finite (busy w) \<and> 0 \<le> slack {} w + n \<Longrightarrow> finite (busy w') \<and> 0 \<le> slack {} w' + n"
  by (auto simp: grows_def intro: order_trans [OF _ add_right_mono])

lemma account_slack: "account E c d w \<Longrightarrow> finite (busy w) \<and> 0 \<le> slack {} w + int d"
proof (induction rule: account.induct)
  case (init w)
  then show ?case by (simp add: slack_def)
next
  case (add d w n p ok w')
  then show ?case using grows_slack [OF acc.add_grows [OF add.hyps(2)]] by blast
next
  case (round d w spins n q w')
  then show ?case using round_accounts [OF round.hyps(3)] by force
next
  case (user d w s)
  then show ?case using grows_slack [OF grows_shrink [of "w\<lparr>store := s\<rparr>" w], of "int d"] by simp
next
  case (flush d w)
  then show ?case by (simp add: Flush_def slack_def busy_def)
next
  case (shutdown d w)
  then show ?case using grows_slack [OF grows_shutdown [of w E]] by blast
qed

section \<open>Property\<close>

text \<open>
  C1: The limit on operations in flight. With a limit configured, and whatever is submitted by whom
  and whatever completions arrive, with retries, repetitions, chained tasks, failed submissions
  and user handlers that submit: the count never exceeds the limit, and the number of tasks in
  state \<^verbatim>\<open>kSubmitted\<close> never exceeds the count plus the number of completions so far that lowered the
  count without ending an operation in flight (the completions of cancellations, and completions
  for tasks in state \<^verbatim>\<open>kReady\<close>). Without such completions at most as many tasks as the limit says are
  in flight.
\<close>

theorem tasks_in_flight_bounded:
  assumes "account E c d w" and "0 < max_inflight_ops c"
  shows "inflight w \<le> max_inflight_ops c \<and> finite (busy w) \<and> int (card (busy w)) \<le> inflight w + int d"
proof -
  have "inflight w \<le> max_inflight_ops c" using account_reach [OF assms(1)] assms(2) by (rule within_limit_reach)
  then show ?thesis using account_slack [OF assms(1)] by (auto simp: slack_def)
qed

theorem tasks_in_flight_bounded_witness:
  "\<exists>w'. AddTask 1 demo_env 64 (demo_world (SetTaskType TypeAccept) 1 0) = Inr (True, w') \<and>
     busy w' = {64} \<and> inflight w' \<le> 1 \<and> int (card (busy w')) \<le> inflight w'"
proof -
  let ?w = "demo_world (SetTaskType TypeAccept) 1 0"
  let ?tk = "(in_flight (SetTaskType TypeAccept demo_task))\<lparr>user_data := task_word 64\<rparr>"
  obtain w' where a: "AddTask (Suc 0) demo_env 64 ?w = Inr (True, w')" "tasks (store w') = [64 \<mapsto> ?tk]"
    using AddTask_full [of ?w 64 "SetTaskType TypeAccept demo_task" demo_buf demo_env 0]
    by (simp add: BackpressureActive_def SetTaskType_def submittable_def)
  have "account demo_env (config ?w) 0 ?w" by (rule account.init) (simp_all add: busy_def SetTaskType_def)
  from tasks_in_flight_bounded [OF account.add [OF this a(1)]]
  have "inflight w' \<le> 1" "int (card (busy w')) \<le> inflight w'" by simp_all
  moreover have "busy w' = {64}" using a(2) by (auto simp: busy_def SetTaskType_def split: if_splits)
  ultimately show ?thesis using a(1) by (intro exI [of _ w']) simp
qed

end
