(* ===== verification/Io_Completion.thy ===== *)
theory Io_Completion
  imports Io_Events
begin

text \<open>
  What one completion does to its task: a one-shot operation that succeeds, the end of a file
  or connection, the final failure, the timeout, the cancellation and the step to a chained
  task; and how the loop finds the task of a completion.
\<close>

section \<open>Executing a completion symbolically\<close>

lemma modify_buffer_some:
  "tasks (store w) p = Some tk \<Longrightarrow> buffer tk = Some k \<Longrightarrow>
     modify_buffer p f w = Inr (set_task p (tk\<lparr>buffer := Some (f k)\<rparr>) w)"
  by (simp add: modify_buffer_def)

lemma modify_task_some: "tasks (store w) p = Some tk \<Longrightarrow> modify_task p f w = Inr (set_task p (f tk) w)"
  by (simp add: modify_task_def)

lemma record_result_value [simp]: "io_value (record_result c res k) = res" "io_fd (record_result c res k) = c"
  by (simp_all add: record_result_def SetActiveFileDescriptor_def SetBytesTransferred_def)

text \<open>
  The world a completion leaves to the user handler (the result is in the buffer), and the run of
  the handler there; a handler that makes no calls.
\<close>

definition recorded :: "ptr \<Rightarrow> AsyncTask \<Rightarrow> KernelBuf \<Rightarrow> int \<Rightarrow> io_world \<Rightarrow> io_world" where
  "recorded p tk k res w = set_task p (tk\<lparr>buffer := Some (record_result (fd tk) res k)\<rparr>) w"

definition handler_run ::
    "io_env \<Rightarrow> add_fun \<Rightarrow> ptr \<Rightarrow> AsyncTask \<Rightarrow> KernelBuf \<Rightarrow> int \<Rightarrow> io_world \<Rightarrow> io_fault + io_world" where
  "handler_run E add p tk k res w =
     run_cb E add p (env_cb E (handler tk) (Some (record_result (fd tk) res k), kbw (store w)))
       ((recorded p tk k res w)\<lparr>invoked := invoked w @ [(handler tk, p, Some res)]\<rparr>)"

definition reads_only :: "io_env \<Rightarrow> bool" where
  "reads_only E \<longleftrightarrow> (\<forall>h x. env_cb E h x = Return)"

lemma demo_reads_only [simp]: "reads_only demo_env"
  by (simp add: reads_only_def)

lemma execute_recorded: "ExecuteCompletionHandler E add p (recorded p tk k res w) = handler_run E add p tk k res w"
  by (simp add: ExecuteCompletionHandler_def handler_run_def recorded_def)

lemma execute_reads_only:
  "reads_only E \<Longrightarrow> tasks (store w) p = Some tk \<Longrightarrow> ExecuteCompletionHandler E add p w =
     Inr (w\<lparr>invoked := invoked w @ [(handler tk, p, map_option io_value (buffer tk))]\<rparr>)"
  by (simp add: ExecuteCompletionHandler_def reads_only_def)

lemma handler_run_reads_only:
  "reads_only E \<Longrightarrow> handler_run E add p tk k res w =
     Inr ((recorded p tk k res w)\<lparr>invoked := invoked w @ [(handler tk, p, Some res)]\<rparr>)"
  by (simp add: handler_run_def reads_only_def)

text \<open>Tasks that a completion finds: in flight, with a buffer, not cancelled.\<close>

definition pending :: "io_world \<Rightarrow> ptr \<Rightarrow> AsyncTask \<Rightarrow> KernelBuf \<Rightarrow> bool" where
  "pending w p tk k \<longleftrightarrow> tasks (store w) p = Some tk \<and> buffer tk = Some k \<and>
     (task_state tk = StateSubmitted \<or> task_state tk = StateReady) \<and> \<not> is_cancel tk"

lemma dispatch_normal:
  assumes "pending w p tk k"
  shows "DispatchCqe spins E add p EventNone res w =
    and_then (HandleNormalEvent spins E add p res w) (\<lambda>w1. Inr (w1\<lparr>inflight := inflight w1 - 1\<rparr>))"
  using assms by (auto simp: DispatchCqe_def pending_def)

section \<open>Success\<close>

lemma record_pending:
  "pending w p tk k \<Longrightarrow> modify_buffer p (record_result (fd tk) res) w = Inr (recorded p tk k res w)"
  by (simp add: pending_def recorded_def modify_buffer_some)

lemma one_shot_world:
  assumes "pending w p tk k" and "0 < res" and "handler_run E add p tk k res w = Inr w2"
    and tk2: "tasks (store w2) p = Some tk2" "\<not> repeat_forever tk2" "next_task tk2 = nullptr"
  shows "DispatchCqe spins E add p EventNone res w =
    Inr ((set_task p (tk2\<lparr>task_state := StateSuccess, done_state := kSignaled, detach := True\<rparr>) w2)
      \<lparr>inflight := inflight w2 - 1\<rparr>)"
proof -
  have tk: "tasks (store w) p = Some tk" using assms(1) by (simp add: pending_def)
  have x: "ExecuteCompletionHandler E add p (recorded p tk k res w) = Inr w2"
    using assms(3) by (simp add: execute_recorded)
  have "HandleNormalEvent spins E add p res w =
     Inr (set_task p (tk2\<lparr>task_state := StateSuccess, done_state := kSignaled, detach := True\<rparr>) w2)"
    using assms(2) tk2
    by (simp add: HandleNormalEvent_succeeded [OF tk record_pending [OF assms(1)] _ x tk2(1)]
        repeat_or_detach_def complete_last_def add_next_def modify_task_def task_setters)
  then show ?thesis by (simp add: dispatch_normal [OF assms(1)])
qed

lemma wait_signalled:
  assumes "detach tk" and "done_state tk = kSignaled" and "buffer tk = Some k"
  shows "\<exists>r t. WaitForCompletion ms arrives tk = Some (r, t) \<and> iodone r \<and> io_ret r = io_value k"
  using assms by (simp add: WaitForCompletion_def Let_def)

text \<open>
  C4: A one-shot operation that transferred something: the user handler, whatever it calls, runs
  exactly once, in the world where the number of bytes and the descriptor are recorded in the
  task's buffer; after it the task ends as successful, detached and signalled, one operation
  less is in flight, nothing more is submitted and no other task changes. From then on
  \<^verbatim>\<open>WaitForCompletion\<close> with any timeout returns the recorded result at once.
\<close>

theorem one_shot_success:
  assumes "pending w p tk k" and "0 < res"
    and "handler_run E add p tk k res w = Inr w2" and "tasks (store w2) p = Some tk2"
    and "\<not> repeat_forever tk2" and "next_task tk2 = nullptr" and "buffer tk2 = Some k2"
  shows "\<exists>w' tk'. DispatchCqe spins E add p EventNone res w = Inr w' \<and>
    invoked w' = invoked w2 \<and> inflight w' = inflight w2 - 1 \<and> uring w' = uring w2 \<and>
    tasks (store w') = (tasks (store w2))(p \<mapsto> tk') \<and>
    task_state tk' = StateSuccess \<and> detach tk' \<and> done_state tk' = kSignaled \<and>
    (\<forall>ms arrives. \<exists>r t. WaitForCompletion ms arrives tk' = Some (r, t) \<and> iodone r \<and> io_ret r = io_value k2)"
proof -
  let ?tk = "tk2\<lparr>task_state := StateSuccess, done_state := kSignaled, detach := True\<rparr>"
  let ?w = "(set_task p ?tk w2)\<lparr>inflight := inflight w2 - 1\<rparr>"
  have "\<forall>ms arrives. \<exists>r t. WaitForCompletion ms arrives ?tk = Some (r, t) \<and> iodone r \<and> io_ret r = io_value k2"
    using wait_signalled [of ?tk k2] assms(7) by simp
  then show ?thesis
    using one_shot_world [OF assms(1-6), of spins] by (intro exI [of _ ?w] exI [of _ ?tk]) simp
qed

text \<open>A handler that only reads: the log, the count and the result of waiting in numbers.\<close>

theorem one_shot_success_witness:
  "\<exists>w' tk'. DispatchCqe 0 demo_env (AddTask 1 demo_env) 64 EventNone 100
      (demo_world (\<lambda>t. t\<lparr>task_state := StateSubmitted\<rparr>) 3 1) = Inr w' \<and>
     invoked w' = [(7, 64, Some 100)] \<and> inflight w' = 0 \<and> tasks (store w') 64 = Some tk' \<and>
     (\<exists>r t. WaitForCompletion (-1) False tk' = Some (r, t) \<and> io_ret r = 100)"
proof -
  let ?w = "demo_world (\<lambda>t. t\<lparr>task_state := StateSubmitted\<rparr>) 3 1" and ?tk = "demo_task\<lparr>task_state := StateSubmitted\<rparr>"
  let ?w2 = "(recorded 64 ?tk demo_buf 100 ?w)\<lparr>invoked := [(7, 64, Some 100)]\<rparr>"
  let ?k2 = "record_result 5 100 demo_buf"
  have "pending ?w 64 ?tk demo_buf" by (simp add: pending_def)
  moreover have "handler_run demo_env (AddTask 1 demo_env) 64 ?tk demo_buf 100 ?w = Inr ?w2"
    by (simp add: handler_run_reads_only)
  ultimately obtain w' tk' where d: "DispatchCqe 0 demo_env (AddTask 1 demo_env) 64 EventNone 100 ?w = Inr w'"
      "invoked w' = invoked ?w2" "inflight w' = inflight ?w2 - 1" "tasks (store w') = (tasks (store ?w2))(64 \<mapsto> tk')"
      "\<forall>ms arrives. \<exists>r t. WaitForCompletion ms arrives tk' = Some (r, t) \<and> iodone r \<and> io_ret r = io_value ?k2"
    using one_shot_success [of ?w 64 ?tk demo_buf 100 demo_env "AddTask 1 demo_env" ?w2
        "?tk\<lparr>buffer := Some ?k2\<rparr>" ?k2 0] by (auto simp: recorded_def)
  have "invoked w' = [(7, 64, Some 100)]" "inflight w' = 0" "tasks (store w') 64 = Some tk'"
    using d(2-4) by (simp_all add: recorded_def)
  moreover have "\<exists>r t. WaitForCompletion (-1) False tk' = Some (r, t) \<and> io_ret r = 100"
    using d(5) [THEN spec, THEN spec, of "-1" False] by auto
  ultimately show ?thesis using d(1) by blast
qed

section \<open>Deleting a task\<close>

lemma store_inv_result:
  assumes inv: "store_inv out used s" and tk: "tasks s p = Some tk" "buffer tk = Some k"
    and b: "buffer tk' = Some (record_result c res k)"
  shows "store_inv out used (s\<lparr>tasks := (tasks s)(p \<mapsto> tk')\<rparr>)"
proof -
  have same: "kb_ok out (record_result c res k) v \<longleftrightarrow> kb_ok out k v"
      "bufs_apart (record_result c res k) l \<longleftrightarrow> bufs_apart k l" for v l
    by (simp_all add: kb_ok_def bufs_apart_def record_result_def SetActiveFileDescriptor_def
        SetBytesTransferred_def split: StorageTag.split option.split)
  have "tasks_apart ((tasks s)(p \<mapsto> tk'))"
    by (rule tasks_apart_upd) (use inv tk b same in \<open>auto simp: store_inv_def tasks_apart_def\<close>)
  then show ?thesis using inv tk b same by (auto simp: store_inv_def task_ok_def)
qed

text \<open>Deleting a task that owns no other task never faults and gives its memory back.\<close>

definition deleted :: "ptr \<Rightarrow> ptr set \<Rightarrow> io_world \<Rightarrow> io_world \<Rightarrow> bool" where
  "deleted p used w w' \<longleftrightarrow> tasks (store w') = (tasks (store w))(p := None) \<and>
     (\<exists>out. store_inv out (used - {p}) (store w'))"

lemma set_task_store [simp]: "(set_task p tk w)\<lparr>store := s\<rparr> = w\<lparr>store := s\<rparr>"
  by (simp add: set_task_def)

lemma deleted_set_task [simp]: "deleted p used (set_task p tk w) v \<longleftrightarrow> deleted p used w v"
  by (simp add: deleted_def)

lemma delete_single:
  assumes "store_inv out used (store w)" and "tasks (store w) p = Some tk" and "next_task tk = nullptr"
    and "p \<noteq> nullptr" and "0 < env_chain E"
  shows "\<exists>s. delete_task E p w = Inr (w\<lparr>store := s\<rparr>) \<and> deleted p used w (w\<lparr>store := s\<rparr>)"
proof -
  have "chain (next_of (tasks (store w))) p [p]" using assms(2-4) by (simp add: next_of_def)
  from delete_chain [OF assms(1) this _ _ , of "env_chain E" "env_tid E"] assms(2,5)
  obtain s out' where "DeleteTask (env_chain E) (env_tid E) p (store w) = Inr s"
      "tasks s = tasks (store w) |` (- {p})" "store_inv out' (used - {p}) s" by auto
  then show ?thesis by (auto simp: delete_task_def deleted_def restrict_complement_singleton_eq)
qed

section \<open>Failure\<close>

text \<open>
  A record update and a deletion of a task that owns no other task, as the handlers of completions
  end a task.
\<close>

lemma finish_and_delete:
  assumes "store_inv out used (store w)" and "tasks (store w) p = Some tk" and "next_task tk = nullptr"
    and "p \<noteq> nullptr" and "0 < env_chain E" and "buffer tk2 = buffer tk" and "next_task tk2 = nullptr"
  shows "\<exists>s. delete_task E p (set_task p tk2 w) = Inr (w\<lparr>store := s\<rparr>) \<and> deleted p used w (w\<lparr>store := s\<rparr>)"
proof -
  have "store_inv out used (store (set_task p tk2 w))"
    using store_inv_upd [OF assms(1,2,6)] by (simp add: set_task_def)
  from delete_single [OF this, of p tk2 E] assms(4,5,7)
  show ?thesis by auto
qed

abbreviation retried :: "AsyncTask \<Rightarrow> AsyncTask" where
  "retried tk \<equiv> tk\<lparr>try_count := try_count tk + 1\<rparr>"

lemma failed_final:
  assumes "pending w p tk k" and last: "max_retry_count tk \<le> try_count tk + 1"
    and run: "handler_run E add p (retried tk) k res w = Inr w2"
    and w2: "tasks (store w2) p = Some tk2" "next_task tk2 = nullptr" "store_inv out used (store w2)"
    and "p \<noteq> nullptr" and "0 < env_chain E"
  shows "\<exists>s. HandleFailedTask E add p (recorded p tk k res w) = Inr (False, w2\<lparr>store := s\<rparr>) \<and> deleted p used w2 (w2\<lparr>store := s\<rparr>)"
proof -
  let ?k = "record_result (fd tk) res k" and ?v = "recorded p tk k res w"
  define cur where "cur = try_count tk + 1"
  define tk3 where "tk3 = SetTaskState StateFailed (MarkDetachedAndComplete True
    ((SetDebugStr (''failed after '' @ to_string cur @ '' retries'') tk2)\<lparr>try_count := 0\<rparr>))"
  have v: "tasks (store ?v) p = Some (tk\<lparr>buffer := Some ?k\<rparr>)" "set_task p (tk\<lparr>buffer := Some ?k, try_count := cur\<rparr>) ?v =
      recorded p (retried tk) k res w"
    by (simp add: recorded_def) (cases tk; simp add: recorded_def cur_def)
  have x: "ExecuteCompletionHandler E add p (recorded p (retried tk) k res w) = Inr w2"
    using run by (simp add: execute_recorded)
  have "buffer tk3 = buffer tk2" "next_task tk3 = nullptr" using w2(2) by (simp_all add: tk3_def task_setters)
  from finish_and_delete [OF w2(3,1,2) assms(7,8) this] obtain s
    where s: "delete_task E p (set_task p tk3 w2) = Inr (w2\<lparr>store := s\<rparr>)" "deleted p used w2 (w2\<lparr>store := s\<rparr>)" by blast
  have "\<not> cur < max_retry_count tk" using last by (simp add: cur_def)
  then have "HandleFailedTask E add p ?v = Inr (False, w2\<lparr>store := s\<rparr>)"
    using s(1) by (simp add: HandleFailedTask_def Let_def deref_def [of p ?v] v modify_task_some [OF w2(1)] tk3_def
        x [folded cur_def] flip: cur_def)
  then show ?thesis using s(2) by blast
qed

text \<open>
  C17: The final failure. An operation ends with an error other than \<^verbatim>\<open>EAGAIN\<close> and
  \<^verbatim>\<open>ECANCELED\<close>, on a task whose retries are used up. The user handler, whatever it calls, is run
  once, in the world where the error code is recorded in the task's buffer; if it returns and
  leaves the task without a successor, the task is deleted after it: the other tasks are as the
  handler left them, the ownership invariant of the memory holds for them, the task's memory is
  given back, one operation less is in flight and nothing more is submitted or closed.
\<close>

theorem final_failure:
  assumes "pending w p tk k" and "res < 0" and "res \<noteq> - EAGAIN" and "res \<noteq> - ECANCELED"
    and "max_retry_count tk \<le> try_count tk + 1"
    and "handler_run E add p (retried tk) k res w = Inr w2"
    and "tasks (store w2) p = Some tk2" and "next_task tk2 = nullptr" and "store_inv out used (store w2)"
    and "p \<noteq> nullptr" and "0 < env_chain E"
  shows "\<exists>w'. DispatchCqe spins E add p EventNone res w = Inr w' \<and> deleted p used w2 w' \<and>
    invoked w' = invoked w2 \<and> inflight w' = inflight w2 - 1 \<and> uring w' = uring w2 \<and> closed_fds w' = closed_fds w2"
proof -
  have tk: "tasks (store w) p = Some tk" using assms(1) by (simp add: pending_def)
  obtain s where f: "HandleFailedTask E add p (recorded p tk k res w) = Inr (False, w2\<lparr>store := s\<rparr>)"
      "deleted p used w2 (w2\<lparr>store := s\<rparr>)"
    using failed_final [OF assms(1,5-11)] by blast
  have "DispatchCqe spins E add p EventNone res w = Inr (w2\<lparr>store := s, inflight := inflight w2 - 1\<rparr>)"
    using assms(2-4) f(1)
    by (simp add: dispatch_normal [OF assms(1)] HandleNormalEvent_failed [OF tk record_pending [OF assms(1)]]
        HandleIoFailure_def errno_defs)
  then show ?thesis using f(2) by (simp add: deleted_def)
qed

text \<open>A handler that only reads leaves the invariant as it is.\<close>

lemma store_inv_recorded:
  assumes "store_inv out used (store w)" and "pending w p tk k"
  shows "store_inv out used (store ((recorded p tk k res w)\<lparr>invoked := l\<rparr>))"
  using store_inv_result [OF assms(1), of p tk k "tk\<lparr>buffer := Some (record_result (fd tk) res k)\<rparr>"] assms(2)
  by (simp add: recorded_def pending_def set_task_def)

theorem final_failure_witness:
  "\<exists>w'. DispatchCqe 0 demo_env (AddTask 1 demo_env) 64 EventNone (-5)
      (demo_world (\<lambda>t. t\<lparr>task_state := StateSubmitted\<rparr>) 3 1) = Inr w' \<and>
     invoked w' = [(7, 64, Some (-5))] \<and> tasks (store w') = Map.empty \<and> inflight w' = 0"
proof -
  let ?f = "\<lambda>t. t\<lparr>task_state := StateSubmitted\<rparr>" and ?tk = "demo_task\<lparr>task_state := StateSubmitted\<rparr>"
  let ?w = "demo_world ?f 3 1"
  let ?w2 = "(recorded 64 (retried ?tk) demo_buf (-5) ?w)\<lparr>invoked := [(7, 64, Some (-5))]\<rparr>"
  obtain out used where inv: "store_inv out used (store ?w)"
    using demo_inv [of ?f 3 1] by auto
  have pend: "pending ?w 64 ?tk demo_buf" by (simp add: pending_def)
  have run: "handler_run demo_env (AddTask 1 demo_env) 64 (retried ?tk) demo_buf (-5) ?w = Inr ?w2"
    by (simp add: handler_run_reads_only)
  have "store_inv out used (store ?w2)"
    using store_inv_result [OF inv, of 64 ?tk demo_buf "(retried ?tk)\<lparr>buffer := Some (record_result 5 (-5) demo_buf)\<rparr>"]
    by (simp add: recorded_def set_task_def)
  then show ?thesis
    using final_failure [OF pend _ _ _ _ run, of "(retried ?tk)\<lparr>buffer := Some (record_result 5 (-5) demo_buf)\<rparr>" out used 0]
    by (auto simp: errno_defs deleted_def recorded_def)
qed

section \<open>Timeout, cancellation and end of file\<close>

lemma timeout_deletes:
  assumes "store_inv out used (store w)" and "tasks (store w) p = Some tk" and "next_task tk = nullptr"
    and "task_state tk = StateSubmitted \<or> task_state tk = StateReady" and "p \<noteq> nullptr" and "0 < env_chain E"
  shows "\<exists>s. HandleTimeoutEvent E p w = Inr (w\<lparr>store := s\<rparr>) \<and> deleted p used w (w\<lparr>store := s\<rparr>)"
proof -
  let ?tk = "SetTaskState StateTimeout (MarkDetachedAndComplete True (SetDebugStr ''timed out'' tk))"
  obtain s where "delete_task E p (set_task p ?tk w) = Inr (w\<lparr>store := s\<rparr>)" "deleted p used w (w\<lparr>store := s\<rparr>)"
    using finish_and_delete [OF assms(1-3,5,6), of ?tk] assms(3) by (auto simp: task_setters)
  then show ?thesis
    using assms(2,4) by (auto simp: HandleTimeoutEvent_def HandleTimeoutTask_def modify_task_def)
qed

lemma ended_without_handler_world:
  assumes "store_inv out used (store w)" and "tasks (store w) p = Some tk" and "buffer tk = Some k"
    and "task_state tk = StateSubmitted \<or> task_state tk = StateReady" and "next_task tk = nullptr"
    and "is_cancel tk \<or> et = EventTimeout \<or> et = EventNone \<and> res = - ECANCELED"
    and "p \<noteq> nullptr" and "0 < env_chain E"
  shows "\<exists>s. DispatchCqe spins E add p et res w = Inr (w\<lparr>store := s, inflight := inflight w - 1\<rparr>) \<and> deleted p used w (w\<lparr>store := s\<rparr>)"
proof -
  have goal: ?thesis if "DispatchCqe spins E add p et res w = Inr (w\<lparr>store := s, inflight := inflight w - 1\<rparr>)"
      "deleted p used w (w\<lparr>store := s\<rparr>)" for s
    using that by blast
  consider "is_cancel tk" | "\<not> is_cancel tk" "et = EventTimeout" | "\<not> is_cancel tk" "et = EventNone" "res = - ECANCELED"
    using assms(6) by blast
  then show ?thesis
  proof cases
    case 1
    let ?tk = "SetTaskState StateCanceled (MarkDetachedAndComplete True tk)"
    obtain s where "delete_task E p (set_task p ?tk w) = Inr (w\<lparr>store := s\<rparr>)" "deleted p used w (w\<lparr>store := s\<rparr>)"
      using finish_and_delete [OF assms(1,2,5,7,8), of ?tk] assms(5) by (auto simp: task_setters)
    then show ?thesis
      using 1 assms(2,4) by (intro goal [of s]) (auto simp: DispatchCqe_def modify_task_def)
  next
    case 2
    obtain s where "HandleTimeoutEvent E p w = Inr (w\<lparr>store := s\<rparr>)" "deleted p used w (w\<lparr>store := s\<rparr>)"
      using timeout_deletes [OF assms(1,2,5,4,7,8)] by blast
    then show ?thesis
      using 2 assms(2,4) by (intro goal [of s]) (auto simp: DispatchCqe_def EventNone_def EventTimeout_def flag_consts)
  next
    case 3
    let ?tk = "tk\<lparr>buffer := Some (record_result (fd tk) res k)\<rparr>"
    let ?w = "set_task p ?tk w"
    have b: "modify_buffer p (record_result (fd tk) res) w = Inr ?w"
      by (rule modify_buffer_some [OF assms(2,3)])
    have inv: "store_inv out used (store ?w)"
      using store_inv_result [OF assms(1-3), of ?tk] by (simp add: set_task_def)
    let ?tk2 = "SetTaskState StateCanceled (MarkDetachedAndComplete True (SetDebugStr ''cancelled by kernel'' ?tk))"
    have n: "HandleNormalEvent spins E add p res w =
        (if 0 < timeout_ms tk then HandleTimeoutEvent E p ?w else delete_task E p (set_task p ?tk2 ?w))"
      using 3(3) HandleNormalEvent_failed [OF assms(2) b, of spins E add] by (simp add: errno_defs modify_task_def)
    have "\<exists>s. HandleNormalEvent spins E add p res w = Inr (w\<lparr>store := s\<rparr>) \<and> deleted p used w (w\<lparr>store := s\<rparr>)"
      using timeout_deletes [OF inv, of p ?tk E] finish_and_delete [OF inv, of p ?tk E ?tk2] assms(4,5,7,8)
      unfolding n by (simp add: task_setters)
    then show ?thesis
      using 3 assms(2-4) by (auto simp: dispatch_normal [of w p tk k] pending_def deleted_def)
  qed
qed

lemma ended_without_handler:
  assumes "store_inv out used (store w)" and "tasks (store w) p = Some tk" and "buffer tk = Some k"
    and "task_state tk = StateSubmitted \<or> task_state tk = StateReady" and "next_task tk = nullptr"
    and "is_cancel tk \<or> et = EventTimeout \<or> et = EventNone \<and> res = - ECANCELED"
    and "p \<noteq> nullptr" and "0 < env_chain E"
  shows "\<exists>w'. DispatchCqe spins E add p et res w = Inr w' \<and> deleted p used w w' \<and>
    invoked w' = invoked w \<and> inflight w' = inflight w - 1 \<and> uring w' = uring w"
  using ended_without_handler_world [OF assms, of spins add] by (auto simp: deleted_def)

text \<open>
  C18: A task ends without its handler when its timeout expires first, when the kernel reports
  it cancelled, or when it was marked cancelled and any completion of it arrives: it is
  deleted, its memory goes back to the pools, and one operation less is in flight.
\<close>

theorem timeout_or_cancel:
  assumes "store_inv out used (store w)" and "tasks (store w) p = Some tk" and "buffer tk = Some k"
    and "task_state tk = StateSubmitted \<or> task_state tk = StateReady" and "next_task tk = nullptr"
    and "is_cancel tk \<or> et = EventTimeout \<or> et = EventNone \<and> res = - ECANCELED"
    and "p \<noteq> nullptr" and "0 < env_chain E"
  shows "\<exists>w'. DispatchCqe spins E add p et res w = Inr w' \<and> deleted p used w w' \<and>
    invoked w' = invoked w \<and> inflight w' = inflight w - 1 \<and> uring w' = uring w"
  using assms by (rule ended_without_handler)

theorem timeout_or_cancel_witness:
  "\<exists>w'. DispatchCqe 0 demo_env (AddTask 1 demo_env) 64 EventTimeout (-62)
      (demo_world (\<lambda>t. t\<lparr>task_state := StateSubmitted, timeout_ms := 100\<rparr>) 3 1) = Inr w' \<and>
     invoked w' = [] \<and> tasks (store w') = Map.empty \<and> inflight w' = 0"
proof -
  let ?f = "\<lambda>t. t\<lparr>task_state := StateSubmitted, timeout_ms := 100\<rparr>"
  obtain out used where inv: "store_inv out used (store (demo_world ?f 3 1))"
    using demo_inv [of ?f 3 1] by auto
  show ?thesis
    using timeout_or_cancel [OF inv, of 64 _ demo_buf EventTimeout "-62" demo_env 0 "AddTask 1 demo_env"]
    by (auto simp: deleted_def)
qed

text \<open>The descriptor of a task that ended with 0 is closed if it is a valid one.\<close>

abbreviation ending_fds :: "AsyncTask \<Rightarrow> int list" where
  "ending_fds tk \<equiv> (if 0 < fd tk then [fd tk] else [])"

lemma zero_handled:
  assumes "pending w p tk k" and "handler_run E add p tk k 0 w = Inr w2"
    and w2: "tasks (store w2) p = Some tk2" "\<not> repeat_forever tk2" "next_task tk2 = nullptr" "store_inv out used (store w2)"
    and "p \<noteq> nullptr" and "0 < env_chain E"
  shows "\<exists>w'. DispatchCqe spins E add p EventNone 0 w = Inr w' \<and> deleted p used w2 w' \<and>
    invoked w' = invoked w2 \<and> closed_fds w' = closed_fds w2 @ ending_fds tk2 \<and>
    inflight w' = inflight w2 - 1 \<and> uring w' = uring w2"
proof -
  have tk: "tasks (store w) p = Some tk" using assms(1) by (simp add: pending_def)
  have x: "ExecuteCompletionHandler E add p (recorded p tk k 0 w) = Inr w2"
    using assms(2) by (simp add: execute_recorded)
  let ?v = "if 0 < fd tk2 then close_fd (fd tk2) w2 else w2"
  let ?tk3 = "SetTaskState StateSuccess (MarkDetachedAndComplete True (if 0 < fd tk2 then tk2\<lparr>fd := -1\<rparr> else tk2))"
  have v: "store ?v = store w2" by (simp add: close_fd_def)
  have b: "buffer ?tk3 = buffer tk2" "next_task ?tk3 = nullptr" using w2(3) by (simp_all add: task_setters)
  obtain s where s: "delete_task E p (set_task p ?tk3 ?v) = Inr (?v\<lparr>store := s\<rparr>)" "deleted p used ?v (?v\<lparr>store := s\<rparr>)"
    using finish_and_delete [of out used ?v p tk2 E ?tk3, unfolded v, OF w2(4,1,3) assms(7,8) b] by blast
  have "HandleNormalEvent spins E add p 0 w = Inr (?v\<lparr>store := s\<rparr>)"
    using w2(2,3) s(1)
    by (cases "0 < fd tk2") (simp_all add: HandleNormalEvent_succeeded [OF tk record_pending [OF assms(1)] _ x w2(1)])
  then have "DispatchCqe spins E add p EventNone 0 w = Inr (?v\<lparr>store := s, inflight := inflight w2 - 1\<rparr>)"
    by (simp add: dispatch_normal [OF assms(1)] close_fd_def)
  then show ?thesis using s(2) by (simp add: deleted_def close_fd_def)
qed

lemma ended_with_zero:
  assumes "reads_only E" and inv: "store_inv out used (store w)" and pend: "pending w p tk k"
    and "\<not> repeat_forever tk" and "next_task tk = nullptr" and "0 < fd tk" and "p \<noteq> nullptr" and "0 < env_chain E"
  shows "\<exists>w'. DispatchCqe spins E add p EventNone 0 w = Inr w' \<and> deleted p used w w' \<and>
    invoked w' = invoked w @ [(handler tk, p, Some 0)] \<and> closed_fds w' = closed_fds w @ [fd tk] \<and>
    inflight w' = inflight w - 1"
proof -
  let ?w2 = "(recorded p tk k 0 w)\<lparr>invoked := invoked w @ [(handler tk, p, Some 0)]\<rparr>"
  have t: "tasks (store ?w2) p = Some (tk\<lparr>buffer := Some (record_result (fd tk) 0 k)\<rparr>)" by (simp add: recorded_def)
  from zero_handled [OF pend handler_run_reads_only [OF assms(1), of add] t _ _ store_inv_recorded [OF inv pend] assms(7,8), of spins]
  show ?thesis using assms(4-6) by (auto simp: recorded_def deleted_def)
qed

text \<open>
  C19: A one-shot operation that ends with 0 (the end of a file, or the peer closed). The user
  handler, whatever it calls, is run once, in the world where the 0 is recorded in the task's
  buffer; if it returns and leaves the task one-shot and without a successor, the task's
  descriptor is closed and the task is deleted after it: the other tasks are as the handler left
  them, the ownership invariant of the memory holds for them, one operation less is in flight and
  nothing more is submitted.
\<close>

theorem end_of_file:
  assumes "pending w p tk k" and "handler_run E add p tk k 0 w = Inr w2"
    and "tasks (store w2) p = Some tk2" and "\<not> repeat_forever tk2" and "next_task tk2 = nullptr"
    and "store_inv out used (store w2)" and "p \<noteq> nullptr" and "0 < env_chain E"
  shows "\<exists>w'. DispatchCqe spins E add p EventNone 0 w = Inr w' \<and> deleted p used w2 w' \<and>
    invoked w' = invoked w2 \<and> closed_fds w' = closed_fds w2 @ (if 0 < fd tk2 then [fd tk2] else []) \<and>
    inflight w' = inflight w2 - 1 \<and> uring w' = uring w2"
  using assms by (rule zero_handled)

theorem end_of_file_witness:
  "\<exists>w'. DispatchCqe 0 demo_env (AddTask 1 demo_env) 64 EventNone 0
      (demo_world (\<lambda>t. t\<lparr>task_state := StateSubmitted\<rparr>) 3 1) = Inr w' \<and>
     invoked w' = [(7, 64, Some 0)] \<and> closed_fds w' = [5] \<and> tasks (store w') = Map.empty"
proof -
  let ?f = "\<lambda>t. t\<lparr>task_state := StateSubmitted\<rparr>" and ?tk = "demo_task\<lparr>task_state := StateSubmitted\<rparr>"
  let ?w = "demo_world ?f 3 1"
  obtain out used where inv: "store_inv out used (store ?w)"
    using demo_inv [of ?f 3 1] by auto
  have pend: "pending ?w 64 ?tk demo_buf" by (simp add: pending_def)
  show ?thesis
    using end_of_file [OF pend handler_run_reads_only [OF demo_reads_only, of "AddTask 1 demo_env"], of _ out used 0]
      store_inv_recorded [OF inv pend]
    by (auto simp: deleted_def recorded_def)
qed

section \<open>Finding the task of a completion\<close>

lemma task_word_bound: "p < 2 ^ 61 \<Longrightarrow> unat (task_word p) = p \<and> task_word p < 2 ^ 61"
  by (simp add: task_word_def word_less_nat_alt unat_of_nat take_bit_nat_eq_self_iff)

text \<open>
  C8: A round of the event loop that gets a completion whose user data \<^verbatim>\<open>SubmitTask\<close>, \<^verbatim>\<open>Cancel\<close> or
  \<^verbatim>\<open>QueueFailedTask\<close> built from a task address hands exactly that task and that event to
  \<^verbatim>\<open>DispatchCqe\<close>, whether the completion was already there or had to be waited for; the
  completion of the entry that \<^verbatim>\<open>RequestShutdown\<close> leaves is dropped.
\<close>

theorem loop_finds_task:
  assumes "p \<noteq> nullptr" and "p < 2 ^ 61" and "flag \<in> {EventNone, EventTimeout, EventError, EventCancel}"
    and "\<not> shut q"
    and "(0 \<le> peek_ret q \<and> peek_cqe q = Some (ud, res)) \<or>
         (peek_ret q = - EAGAIN \<and> 0 \<le> wait_ret q \<and> wait_cqe q = Some (ud, res))"
  shows "(ud = tag_user_data (task_word p) flag \<longrightarrow>
           loop_round spins E add q w = DispatchCqe spins E add p flag res w) \<and>
         (ud = 0 \<longrightarrow> loop_round spins E add q w = Inr w)"
proof -
  have "untagged (task_word p)" using task_word_bound [OF assms(2)] by (simp add: untagged_iff_bound)
  note u = untag_tag [OF this assms(3)] task_word_bound [OF assms(2)]
  have "loop_round spins E add q w = DispatchCqe spins E add p flag res w" if "ud = tag_user_data (task_word p) flag"
  proof -
    have "ud \<noteq> 0" using u that assms(1) by (auto simp: task_of_user_data_def)
    then show ?thesis using assms u that by (auto simp: loop_round_def errno_defs)
  qed
  moreover have "loop_round spins E add q w = Inr w" if "ud = 0"
    using that assms(4,5) by (auto simp: loop_round_def errno_defs)
  ultimately show ?thesis by blast
qed

theorem loop_finds_task_witness:
  "\<exists>w'. loop_round 0 demo_env (AddTask 1 demo_env)
      \<lparr>peek_ret = -11, peek_cqe = None, wait_ret = 0, wait_cqe = Some (tag_user_data (task_word 64) EventCancel, 0), shut = False\<rparr>
      (demo_world (\<lambda>t. t\<lparr>task_state := StateSubmitted\<rparr>) 3 1) = Inr w' \<and> inflight w' = 0"
  using loop_finds_task [of 64 EventCancel "\<lparr>peek_ret = -11, peek_cqe = None, wait_ret = 0,
      wait_cqe = Some (tag_user_data (task_word 64) EventCancel, 0), shut = False\<rparr>"
      "tag_user_data (task_word 64) EventCancel" 0 0 demo_env "AddTask 1 demo_env"
      "demo_world (\<lambda>t. t\<lparr>task_state := StateSubmitted\<rparr>) 3 1"]
  by (simp add: errno_defs DispatchCqe_def HandleCancelEvent_def modify_task_def EventNone_def EventTimeout_def
      EventError_def EventCancel_def flag_consts)

text \<open>
  A completion that comes after the end of its operation, for a task that still exists, is
  dropped whatever its event and result: in particular a second completion of a one-shot task
  runs no handler and does not lower the count again.
\<close>

theorem late_completion_dropped:
  assumes "pending w p tk k" and "0 < res" and "handler_run E add p tk k res w = Inr w2"
    and "tasks (store w2) p = Some tk2" and "\<not> repeat_forever tk2" and "next_task tk2 = nullptr"
  shows "and_then (DispatchCqe spins E add p EventNone res w) (DispatchCqe spins E add p et res2) =
    DispatchCqe spins E add p EventNone res w"
  using one_shot_world [OF assms, of spins] by (simp add: DispatchCqe_def [of _ _ _ _ et])

section \<open>Chained tasks\<close>

text \<open>The world after a successful operation of a task that does not repeat, before its successor.\<close>

lemma chain_handled:
  assumes "pending w p tk k" and "0 < res" and "handler_run E add p tk k res w = Inr w2"
    and w2: "tasks (store w2) p = Some tk2" "\<not> repeat_forever tk2" "next_task tk2 = n" "n \<noteq> nullptr"
  shows "HandleNormalEvent spins E add p res w =
    and_then (add n (set_task p (tk2\<lparr>task_state := StateSuccess, detach := True, next_task := nullptr\<rparr>) w2))
      (\<lambda>(_, w1). complete_last p w1)"
proof -
  let ?v = "set_task p (tk2\<lparr>task_state := StateSuccess, detach := True, next_task := nullptr\<rparr>) w2"
  have tk: "tasks (store w) p = Some tk" using assms(1) by (simp add: pending_def)
  have x: "ExecuteCompletionHandler E add p (recorded p tk k res w) = Inr w2"
    using assms(3) by (simp add: execute_recorded)
  show ?thesis
    using assms(2) w2 HandleNormalEvent_succeeded [OF tk record_pending [OF assms(1)] _ x w2(1), of spins]
    by (simp add: repeat_or_detach_def modify_task_def add_next_def ReleaseNextTask_def task_setters)
      (cases "add n ?v"; auto)
qed

lemma chain_world:
  assumes "reads_only E" and "pending w p tk k" and "\<not> repeat_forever tk" and "0 < res"
    and n: "next_task tk = n" "n \<noteq> nullptr"
  defines "tk1 \<equiv> tk\<lparr>buffer := Some (record_result (fd tk) res k), task_state := StateSuccess, detach := True\<rparr>"
  shows "HandleNormalEvent spins E add p res w =
    and_then (add n (set_task p (tk1\<lparr>next_task := nullptr\<rparr>) (w\<lparr>invoked := invoked w @ [(handler tk, p, Some res)]\<rparr>)))
      (\<lambda>(_, w1). complete_last p w1)"
proof -
  let ?w2 = "(recorded p tk k res w)\<lparr>invoked := invoked w @ [(handler tk, p, Some res)]\<rparr>"
  have t: "tasks (store ?w2) p = Some (tk\<lparr>buffer := Some (record_result (fd tk) res k)\<rparr>)" by (simp add: recorded_def)
  have "set_task p t1 ?w2 = set_task p t1 (w\<lparr>invoked := invoked w @ [(handler tk, p, Some res)]\<rparr>)" for t1
    by (simp add: recorded_def set_task_def)
  then show ?thesis
    using chain_handled [OF assms(2,4) handler_run_reads_only [OF assms(1), of add] t, of n spins] assms(3) n
    by (simp add: tk1_def)
qed

text \<open>
  C20: An operation succeeds whose task does not repeat and has a successor when its handler has
  run. The handler, whatever it calls, runs once, in the world where the result is recorded.
  After it, the successor is taken from the task and handed to \<^verbatim>\<open>AddTask\<close> in the same dispatch. If
  the handler left the count below the limit and a free entry in the ring, and the successor is not in flight and
  of a supported type (a read, a write, an accept or a valid connect), it is submitted: its
  entries follow those the handler left, one for the operation, or the operation linked to its
  timeout if it has one and a second entry is free. The finished task is signalled, and the count
  of operations in flight stays as the handler left it: one began and one ended. At the limit the
  successor is refused instead.
\<close>

theorem chained_task_submitted:
  assumes "pending w p tk k" and "0 < res" and "handler_run E (AddTask (Suc m) E) p tk k res w = Inr w2"
    and w2: "tasks (store w2) p = Some tk2" "\<not> repeat_forever tk2" "next_task tk2 = n" "n \<noteq> nullptr" "n \<noteq> p"
    and nt: "tasks (store w2) n = Some nt" "buffer nt = Some nk" "task_state nt \<noteq> StateSubmitted"
      "task_type nt \<in> {TypeRead, TypeWrite, TypeAccept} \<or>
       task_type nt = TypeConnect \<and> ValidateConnectTask n w2 = Inr True"
    and "\<not> BackpressureActive w2" and "has_entry E (uring w2)"
  shows "\<exists>w' t1 t2. DispatchCqe spins E (AddTask (Suc m) E) p EventNone res w = Inr w' \<and>
    invoked w' = invoked w2 \<and> inflight w' = inflight w2 \<and> closed_fds w' = closed_fds w2 \<and>
    entries (uring w') = entries (uring w2) @
      (if 0 < timeout_ms nt \<and> second_entry E (uring w2)
       then [\<lparr>sqe_op = task_op nt nk, sqe_user_data = task_word n, sqe_link = True\<rparr>,
             \<lparr>sqe_op = OpLinkTimeout (timeout_ms nt div 1000) ((timeout_ms nt mod 1000) * 1000000),
              sqe_user_data = task_word n OR kTimeoutFlag, sqe_link = False\<rparr>]
       else [\<lparr>sqe_op = task_op nt nk, sqe_user_data = task_word n, sqe_link = False\<rparr>]) \<and>
    tasks (store w') = (tasks (store w2))(n \<mapsto> t2, p \<mapsto> t1) \<and>
    task_state t1 = StateSuccess \<and> next_task t1 = nullptr \<and> detach t1 \<and> done_state t1 = kSignaled \<and>
    buffer t1 = buffer tk2 \<and> task_state t2 = StateSubmitted"
proof -
  let ?t1 = "tk2\<lparr>task_state := StateSuccess, detach := True, next_task := nullptr\<rparr>"
  let ?t2 = "(in_flight nt)\<lparr>user_data := task_word n\<rparr>"
  let ?t3 = "?t1\<lparr>done_state := kSignaled, detach := True\<rparr>"
  let ?w3 = "set_task p ?t1 w2"
  let ?w4 = "AutoFlush E (with_task_entries E n nt nk (set_task n ?t2 (?w3\<lparr>inflight := inflight w2 + 1\<rparr>)))"
  let ?w' = "(set_task p ?t3 ?w4)\<lparr>inflight := inflight w2\<rparr>"
  have "tasks (store ?w3) n = Some nt" using nt(1) w2(5) by simp
  moreover have "ValidateConnectTask n ?w3 = ValidateConnectTask n w2"
    by (rule ValidateConnectTask_same [OF nt(1), where tk' = nt]) (use nt(1) w2(5) in simp_all)
  moreover have "\<not> BackpressureActive ?w3" using assms(13) by (simp add: BackpressureActive_def)
  ultimately have a: "AddTask (Suc m) E n ?w3 = Inr (True, ?w4)"
    using AddTask_full [of ?w3 n nt nk E m] nt w2(4) assms(14) by (simp add: submittable_def)
  have "complete_last p ?w4 = Inr (set_task p ?t3 ?w4)"
    using w2(2,5) by (simp add: complete_last_def task_setters deref_def)
  then have d: "DispatchCqe spins E (AddTask (Suc m) E) p EventNone res w = Inr ?w'"
    using chain_handled [OF assms(1-3) w2(1-4), of spins] a by (simp add: dispatch_normal [OF assms(1)])
  have t: "tasks (store ?w') = (tasks (store w2))(n \<mapsto> ?t2, p \<mapsto> ?t3)" using w2(5) by (simp add: fun_upd_twist)
  have e: "entries (uring ?w') = entries (uring w2) @ task_entries E (uring w2) n nt nk" by (simp del: append_assoc)
  show ?thesis
    by (intro exI [of _ ?w'] exI [of _ ?t3] exI [of _ ?t2] conjI d t)
      (use e in \<open>simp_all add: task_entries_def timed_entries_def del: append_assoc\<close>)
qed

text \<open>
  C37: The event loop submits a successor while the finished operation is still counted. At the
  limit the successor is therefore refused, the answer is ignored and the pointer to it has
  already been taken from the finished task: nothing is submitted, the count goes below the
  limit only afterwards, and the successor is left ready, owned by nobody. With a limit of one
  operation no chain ever gets to its second task. (The handlers make no calls here.)
\<close>

theorem chained_task_lost:
  assumes "reads_only E" and "pending w p tk k" and "\<not> repeat_forever tk" and "0 < res"
    and "next_task tk = n" and "n \<noteq> nullptr" and "n \<noteq> p"
    and nt: "tasks (store w) n = Some nt" "task_state nt \<noteq> StateSubmitted"
    and "BackpressureActive w"
  shows "\<exists>w' t1. DispatchCqe spins E (AddTask (Suc m) E) p EventNone res w = Inr w' \<and>
    uring w' = uring w \<and> inflight w' = inflight w - 1 \<and>
    tasks (store w') = (tasks (store w))(n \<mapsto> nt\<lparr>task_state := StateReady\<rparr>, p \<mapsto> t1) \<and>
    next_task t1 = nullptr \<and> done_state t1 = kSignaled"
proof -
  let ?t1 = "tk\<lparr>buffer := Some (record_result (fd tk) res k), task_state := StateSuccess, detach := True, next_task := nullptr\<rparr>"
  let ?t2 = "nt\<lparr>task_state := StateReady\<rparr>"
  let ?t3 = "?t1\<lparr>done_state := kSignaled, detach := True\<rparr>"
  let ?w1 = "set_task p ?t1 (w\<lparr>invoked := invoked w @ [(handler tk, p, Some res)]\<rparr>)"
  let ?w2 = "set_task n ?t2 ?w1"
  have a: "AddTask (Suc m) E n ?w1 = Inr (False, ?w2)"
    using AddTask_refused [of ?w1 n nt m E] nt assms(6,7,10) by (simp add: BackpressureActive_def)
  have "complete_last p ?w2 = Inr (set_task p ?t3 ?w2)"
    using assms(3,7) by (simp add: complete_last_def task_setters deref_def)
  then have "DispatchCqe spins E (AddTask (Suc m) E) p EventNone res w =
      Inr ((set_task p ?t3 ?w2)\<lparr>inflight := inflight w - 1\<rparr>)"
    using chain_world [OF assms(1-6), of spins "AddTask (Suc m) E"] a
    by (simp add: dispatch_normal [OF assms(2)])
  moreover have "tasks (store ((set_task p ?t3 ?w2)\<lparr>inflight := inflight w - 1\<rparr>)) = (tasks (store w))(n \<mapsto> ?t2, p \<mapsto> ?t3)"
    using assms(7) by (simp add: fun_upd_twist)
  ultimately show ?thesis
    by (intro exI [of _ "(set_task p ?t3 ?w2)\<lparr>inflight := inflight w - 1\<rparr>"] exI [of _ ?t3]) simp
qed

lemma chain_world_zero:
  assumes "reads_only E" and "pending w p tk k" and "\<not> repeat_forever tk" and n: "next_task tk = n" "n \<noteq> nullptr"
  shows "HandleNormalEvent spins E add p 0 w = and_then (add n (set_task p
      (tk\<lparr>buffer := Some (record_result (fd tk) 0 k), task_state := StateSuccess, detach := True, next_task := nullptr\<rparr>)
      (w\<lparr>invoked := invoked w @ [(handler tk, p, Some 0)]\<rparr>))) (\<lambda>(_, w1). Inr w1)"
proof -
  let ?tk = "tk\<lparr>buffer := Some (record_result (fd tk) 0 k)\<rparr>"
  let ?w2 = "set_task p ?tk (w\<lparr>invoked := invoked w @ [(handler tk, p, Some 0)]\<rparr>)"
  have tk: "tasks (store w) p = Some tk" "buffer tk = Some k" using assms(2) by (simp_all add: pending_def)
  have x: "ExecuteCompletionHandler E add p (set_task p ?tk w) = Inr ?w2"
    using execute_reads_only [OF assms(1), of "set_task p ?tk w" p ?tk add] by (simp add: set_task_def)
  show ?thesis
    using assms(3-5) HandleNormalEvent_succeeded [OF tk(1) modify_buffer_some [OF tk] _ x, of ?tk spins]
    by (simp add: repeat_or_detach_def modify_task_def add_next_def ReleaseNextTask_def task_setters)
qed

text \<open>
  C29: The operation of a task with a successor ends with 0, as every connect that succeeds does.
  The successor is submitted and the descriptor stays open, but the finished task is detached
  without being signalled, and every later completion for it is dropped: a thread that calls
  \<^verbatim>\<open>WaitForCompletion\<close> for a connect with a chained write waits for ever. The handlers make no calls, the
  count is below the limit, the ring has a free entry and the successor has no timeout.
\<close>

theorem chained_zero_unsignalled:
  assumes "reads_only E" and "pending w p tk k" and "\<not> repeat_forever tk"
    and "next_task tk = n" and "n \<noteq> nullptr" and "n \<noteq> p" and idle: "done_state tk = kIdle"
    and nt: "tasks (store w) n = Some nt" "buffer nt = Some nk" "task_state nt \<noteq> StateSubmitted"
      "task_type nt \<in> {TypeRead, TypeWrite, TypeAccept}" "timeout_ms nt \<le> 0"
    and "\<not> BackpressureActive w" and "has_entry E (uring w)"
  shows "\<exists>w' t1 t2. DispatchCqe spins E (AddTask (Suc m) E) p EventNone 0 w = Inr w' \<and>
    invoked w' = invoked w @ [(handler tk, p, Some 0)] \<and> inflight w' = inflight w \<and> closed_fds w' = closed_fds w \<and>
    entries (uring w') = entries (uring w) @
      [\<lparr>sqe_op = task_op nt nk, sqe_user_data = task_word n, sqe_link = False\<rparr>] \<and>
    tasks (store w') = (tasks (store w))(p \<mapsto> t1, n \<mapsto> t2) \<and> task_state t2 = StateSubmitted \<and>
    task_state t1 = StateSuccess \<and> next_task t1 = nullptr \<and> detach t1 \<and> WaitForCompletion (-1) False t1 = None \<and>
    (\<forall>et res. DispatchCqe spins E (AddTask (Suc m) E) p et res w' = Inr w')"
proof -
  let ?t1 = "tk\<lparr>buffer := Some (record_result (fd tk) 0 k), task_state := StateSuccess, detach := True, next_task := nullptr\<rparr>"
  let ?t2 = "(in_flight nt)\<lparr>user_data := task_word n\<rparr>"
  let ?w1 = "set_task p ?t1 (w\<lparr>invoked := invoked w @ [(handler tk, p, Some 0)]\<rparr>)"
  let ?e = "\<lparr>sqe_op = task_op nt nk, sqe_user_data = task_word n, sqe_link = False\<rparr>"
  let ?w2 = "AutoFlush E (with_entries [?e] (set_task n ?t2 (?w1\<lparr>inflight := inflight w + 1\<rparr>)))"
  let ?w' = "?w2\<lparr>inflight := inflight w\<rparr>"
  have a: "AddTask (Suc m) E n ?w1 = Inr (True, ?w2)"
    using AddTask_entry [of ?w1 n nt nk E m] nt assms(5,6,13,14) by (simp add: BackpressureActive_def)
  have "DispatchCqe spins E (AddTask (Suc m) E) p EventNone 0 w = Inr ?w'"
    using chain_world_zero [OF assms(1-5), of spins "AddTask (Suc m) E"] a by (simp add: dispatch_normal [OF assms(2)])
  moreover have t: "tasks (store ?w') = (tasks (store w))(p \<mapsto> ?t1, n \<mapsto> ?t2)" by simp
  moreover have "DispatchCqe spins E (AddTask (Suc m) E) p et res ?w' = Inr ?w'" for et res
    using assms(6) t by (simp add: DispatchCqe_def deref_def)
  moreover have "WaitForCompletion (-1) False ?t1 = None"
    using idle by (simp add: WaitForCompletion_def DoneState_Wait_def Let_def done_consts)
  ultimately show ?thesis
    by (intro exI [of _ ?w'] exI [of _ ?t1] exI [of _ ?t2]) (simp del: append_assoc)
qed

text \<open>A world with a task at 64 in flight whose successor at 128 is a read.\<close>

definition demo_chain :: "int \<Rightarrow> io_world" where
  "demo_chain lim = set_task 128 (demo_task\<lparr>task_type := TypeRead\<rparr>)
     (demo_world (\<lambda>t. t\<lparr>task_state := StateSubmitted, next_task := 128\<rparr>) lim 1)"

lemma demo_chain_fields [simp]:
  "tasks (store (demo_chain lim)) = [64 \<mapsto> demo_task\<lparr>task_state := StateSubmitted, next_task := 128\<rparr>,
     128 \<mapsto> demo_task\<lparr>task_type := TypeRead\<rparr>]"
  "inflight (demo_chain lim) = 1" "uring (demo_chain lim) = \<lparr>sq = [], sent = [], calls = 0\<rparr>"
  "max_inflight_ops (config (demo_chain lim)) = lim" "invoked (demo_chain lim) = []"
  by (simp_all add: demo_chain_def)

theorem chained_task_submitted_witness:
  "\<exists>w'. DispatchCqe 0 demo_env (AddTask 1 demo_env) 64 EventNone 100 (demo_chain 2) = Inr w' \<and>
     invoked w' = [(7, 64, Some 100)] \<and> inflight w' = 1 \<and>
     entries (uring w') = [\<lparr>sqe_op = task_op (demo_task\<lparr>task_type := TypeRead\<rparr>) demo_buf,
       sqe_user_data = task_word 128, sqe_link = False\<rparr>]"
proof -
  let ?tk = "demo_task\<lparr>task_state := StateSubmitted, next_task := 128\<rparr>" and ?nt = "demo_task\<lparr>task_type := TypeRead\<rparr>"
  have pend: "pending (demo_chain 2) 64 ?tk demo_buf" by (simp add: pending_def)
  show ?thesis
    using chained_task_submitted [OF pend _ handler_run_reads_only [OF demo_reads_only, of "AddTask (Suc 0) demo_env"],
        of 100 "?tk\<lparr>buffer := Some (record_result 5 100 demo_buf)\<rparr>" 128 ?nt demo_buf 0]
    by (auto simp: recorded_def BackpressureActive_def)
qed

theorem chained_task_lost_witness:
  "\<exists>w'. DispatchCqe 0 demo_env (AddTask 1 demo_env) 64 EventNone 100 (demo_chain 1) = Inr w' \<and>
     inflight w' = 0 \<and> entries (uring w') = []"
  using chained_task_lost [of demo_env "demo_chain 1" 64 "demo_task\<lparr>task_state := StateSubmitted, next_task := 128\<rparr>"
      demo_buf 100 128 "demo_task\<lparr>task_type := TypeRead\<rparr>" 0 0]
  by (auto simp: pending_def BackpressureActive_def)

theorem chained_zero_unsignalled_witness:
  "\<exists>w' t1. DispatchCqe 0 demo_env (AddTask 1 demo_env) 64 EventNone 0 (demo_chain 2) = Inr w' \<and>
     tasks (store w') 64 = Some t1 \<and> WaitForCompletion (-1) False t1 = None \<and> inflight w' = 1"
  using chained_zero_unsignalled [of demo_env "demo_chain 2" 64 "demo_task\<lparr>task_state := StateSubmitted, next_task := 128\<rparr>"
      demo_buf 128 "demo_task\<lparr>task_type := TypeRead\<rparr>" demo_buf 0 0]
  by (auto simp: pending_def BackpressureActive_def AsyncTask_construct_def)

end
