(* ===== verification/Io_Defects.thy ===== *)
theory Io_Defects
  imports Io_Completion
begin

text \<open>
  Shutdown, and the sequences of completions on which the event loop does not do what its
  comments and the README promise: operations that are retried for ever, a loop that spins, a
  task that is used after its deletion, operations that are counted twice.
\<close>

section \<open>Shutdown\<close>

lemma shutdown_flag: "shutdown_requested (RequestShutdown E w) \<and> store (RequestShutdown E w) = store w"
proof -
  obtain e w1 where t: "take_sqe E (w\<lparr>shutdown_requested := True\<rparr>) = (e, w1)" by fastforce
  then show ?thesis using take_sqe_fields [OF t] by (auto simp: RequestShutdown_def split: option.splits)
qed

lemma shutdown_frame:
  "closed_fds (RequestShutdown E w) = closed_fds w \<and> inflight (RequestShutdown E w) = inflight w \<and>
   invoked (RequestShutdown E w) = invoked w \<and> removed (RequestShutdown E w) = removed w \<and>
   counters (RequestShutdown E w) = counters w \<and> config (RequestShutdown E w) = config w"
  by (simp add: RequestShutdown_def take_sqe_def put_sqe_def submit_def split_beta Let_def split: option.split)

lemma shutdown_entry:
  assumes "has_entry E (uring w)"
  shows "RequestShutdown E w = submit E (with_entries [\<lparr>sqe_op = OpNop, sqe_user_data = 0, sqe_link = False\<rparr>]
      (w\<lparr>shutdown_requested := True\<rparr>))"
    and "entries (uring (RequestShutdown E w)) =
      entries (uring w) @ [\<lparr>sqe_op = OpNop, sqe_user_data = 0, sqe_link = False\<rparr>]"
proof -
  let ?w = "w\<lparr>shutdown_requested := True\<rparr>"
  obtain e where t: "take_sqe E ?w = (Some (length (entries (uring ?w))), with_entries [e] ?w)"
    using take_sqe_entry [of E ?w] assms by auto
  show r: "RequestShutdown E w = submit E (with_entries [\<lparr>sqe_op = OpNop, sqe_user_data = 0, sqe_link = False\<rparr>] ?w)"
    by (simp add: RequestShutdown_def t put_sqe_entry prep_sqe_ud)
  show "entries (uring (RequestShutdown E w)) =
      entries (uring w) @ [\<lparr>sqe_op = OpNop, sqe_user_data = 0, sqe_link = False\<rparr>]"
    unfolding r entries_submit by simp
qed

text \<open>
  C23: A shutdown request sets the flag and, when the ring has a free entry, posts a no-op with
  user data 0, so that a loop that waits for a completion gets one. The loop stops before the
  next round in any case, and a round that the request and its completion arrive in is the last.
\<close>

theorem shutdown_stops_loop:
  assumes "has_entry E (uring w)"
  shows "(\<exists>w'. RequestShutdown E w = w' \<and> shutdown_requested w' \<and> store w' = store w \<and>
      entries (uring w') = entries (uring w) @ [\<lparr>sqe_op = OpNop, sqe_user_data = 0, sqe_link = False\<rparr>] \<and>
      (\<forall>qs. RunEventLoop spins E add qs w' = Inr (True, w'))) \<and>
    (\<not> shutdown_requested w \<longrightarrow> (\<forall>q qs res. shut q \<longrightarrow> peek_ret q = - EAGAIN \<longrightarrow> wait_ret q = 0 \<longrightarrow>
      wait_cqe q = Some (0, res) \<longrightarrow>
      RunEventLoop spins E add (q # qs) w = Inr (True, w\<lparr>shutdown_requested := True\<rparr>)))"
proof -
  let ?w = "w\<lparr>shutdown_requested := True\<rparr>"
  note r = shutdown_entry [OF assms]
  have "RunEventLoop spins E add qs (RequestShutdown E w) = Inr (True, RequestShutdown E w)" for qs
    by (simp add: RunEventLoop.simps r(1))
  moreover have "RunEventLoop spins E add (q # qs) w = Inr (True, ?w)"
    if "\<not> shutdown_requested w" "shut q" "peek_ret q = - EAGAIN" "wait_ret q = 0" "wait_cqe q = Some (0, res)" for q qs res
    using that by (simp add: RunEventLoop.simps [of _ _ _ "q # qs"] RunEventLoop.simps [of _ _ _ qs] loop_round_def)
  ultimately show ?thesis using r(2) by (simp add: r(1))
qed

theorem shutdown_stops_loop_witness:
  "entries (uring (RequestShutdown demo_env (demo_world id 0 0))) = [\<lparr>sqe_op = OpNop, sqe_user_data = 0, sqe_link = False\<rparr>] \<and>
   RunEventLoop 0 demo_env (AddTask 1 demo_env) [] (RequestShutdown demo_env (demo_world id 0 0)) =
     Inr (True, RequestShutdown demo_env (demo_world id 0 0))"
  using shutdown_stops_loop [of demo_env "demo_world id 0 0" 0 "AddTask 1 demo_env"] by simp

section \<open>EAGAIN\<close>

lemma AddTask_again:
  assumes "tasks (store w) p = Some tk" and "p \<noteq> nullptr" and "task_state tk = StateSubmitted"
  shows "AddTask (Suc n) E p w =
    Inr (False, set_task p (tk\<lparr>debug_str := ''failed: already executing'', detach := False\<rparr>) w)"
  using assms by (simp add: AddTask.simps(2) add_body_def TryTransitionToSubmitted_def modify_task_def SetDebugStr_def)

lemma spin_in_flight:
  assumes "tasks (store w) p = Some tk" and "p \<noteq> nullptr" and "task_state tk = StateSubmitted"
  shows "spin_add spins (AddTask (Suc n) E) p w = Inl OutOfFuel"
  using assms
proof (induction spins arbitrary: w tk)
  case (Suc spins)
  let ?tk = "tk\<lparr>debug_str := ''failed: already executing'', detach := False\<rparr>"
  from Suc.IH [of "set_task p ?tk w" ?tk] Suc.prems AddTask_again [OF Suc.prems, of n E]
  show ?case by simp
qed simp

text \<open>
  C39: A completion with \<^verbatim>\<open>EAGAIN\<close> blocks the event loop for ever. The handler calls \<^verbatim>\<open>AddTask\<close> until
  it succeeds, but the task is still marked as submitted, so every call refuses it: however
  many calls are made, the loop of the handler does not end.
\<close>

theorem eagain_never_returns:
  assumes "pending w p tk k" and "task_state tk = StateSubmitted" and "p \<noteq> nullptr"
  shows "\<forall>spins. DispatchCqe spins E (AddTask (Suc n) E) p EventNone (- EAGAIN) w = Inl OutOfFuel"
proof
  fix spins
  let ?tk = "tk\<lparr>buffer := Some (record_result (fd tk) (- EAGAIN) k)\<rparr>"
  have tk: "tasks (store w) p = Some tk" "buffer tk = Some k" using assms(1) by (simp_all add: pending_def)
  have "HandleNormalEvent spins E (AddTask (Suc n) E) p (- EAGAIN) w =
      spin_add spins (AddTask (Suc n) E) p (set_task p ?tk w)"
    using HandleNormalEvent_failed [OF tk(1) modify_buffer_some [OF tk], of "- EAGAIN"] by (simp add: EAGAIN_def)
  also have "\<dots> = Inl OutOfFuel"
    by (rule spin_in_flight [of _ _ ?tk]) (simp_all add: assms(2,3))
  finally show "DispatchCqe spins E (AddTask (Suc n) E) p EventNone (- EAGAIN) w = Inl OutOfFuel"
    by (simp add: dispatch_normal [OF assms(1)])
qed

theorem eagain_never_returns_witness:
  "\<forall>spins. DispatchCqe spins demo_env (AddTask 1 demo_env) 64 EventNone (- EAGAIN)
     (demo_world (\<lambda>t. t\<lparr>task_state := StateSubmitted\<rparr>) 3 1) = Inl OutOfFuel"
  using eagain_never_returns [of "demo_world (\<lambda>t. t\<lparr>task_state := StateSubmitted\<rparr>) 3 1" 64 _ demo_buf demo_env 0]
  by (simp add: pending_def)

section \<open>Two completions of one operation\<close>

text \<open>
  C40: A task with a timeout gets two completions, its own and that of the linked timeout. When the
  timeout expires (the operation ends with \<^verbatim>\<open>ECANCELED\<close>) or the operation ends with 0 (the end of
  a file, but also every connect that succeeds), the first completion deletes the task and the
  second one makes the loop read the deleted task. The task is one-shot, without a successor, and
  the handlers make no calls.
\<close>

theorem timeout_use_after_free:
  assumes "store_inv out used (store w)" and "pending w p tk k" and "next_task tk = nullptr"
    and "p \<noteq> nullptr" and "0 < env_chain E" and "0 < fd tk" and "\<not> repeat_forever tk" and "reads_only E"
    and "res = 0 \<or> res = - ECANCELED"
  shows "and_then (DispatchCqe spins E add p EventNone res w) (DispatchCqe spins E add p EventTimeout res2) =
    Inl (UseAfterFree p)"
proof -
  obtain w' where "DispatchCqe spins E add p EventNone res w = Inr w'" "deleted p used w w'"
    using assms(9)
  proof
    assume "res = 0"
    with ended_with_zero [OF assms(8,1,2,7,3,6,4,5), of spins add] that show ?thesis by blast
  next
    assume "res = - ECANCELED"
    with ended_without_handler [OF assms(1), of p tk k EventNone "- ECANCELED" E spins add] assms(2-5) that
    show ?thesis by (auto simp: pending_def)
  qed
  then show ?thesis by (simp add: DispatchCqe_def [of _ _ _ _ EventTimeout] deref_def deleted_def)
qed

theorem timeout_use_after_free_witness:
  "and_then (DispatchCqe 0 demo_env (AddTask 1 demo_env) 64 EventNone 0
       (demo_world (\<lambda>t. t\<lparr>task_state := StateSubmitted, task_type := TypeConnect, timeout_ms := 5000\<rparr>) 0 1))
     (DispatchCqe 0 demo_env (AddTask 1 demo_env) 64 EventTimeout (- ECANCELED)) = Inl (UseAfterFree 64)"
proof -
  let ?f = "\<lambda>t. t\<lparr>task_state := StateSubmitted, task_type := TypeConnect, timeout_ms := 5000\<rparr>"
  obtain out used where inv: "store_inv out used (store (demo_world ?f 0 1))"
    using demo_inv [of ?f 0 1] by auto
  show ?thesis
    using timeout_use_after_free [OF inv, of 64 _ demo_buf demo_env 0 0 "AddTask 1 demo_env" "- ECANCELED"]
    by (simp add: pending_def)
qed

text \<open>
  A cancellation counts twice. Its own completion and the completion of the cancelled
  operation each lower the count of operations in flight, although only one operation was
  counted: the count ends one too low, and the limit lets one operation more through.
\<close>

theorem cancel_counts_twice:
  assumes "store_inv out used (store w)" and "pending w p tk k" and "next_task tk = nullptr"
    and "p \<noteq> nullptr" and "0 < env_chain E" and "0 \<le> res"
  shows "\<exists>w'. and_then (DispatchCqe spins E add p EventCancel res w) (DispatchCqe spins E add p EventNone (- ECANCELED)) =
      Inr w' \<and> deleted p used w w' \<and> inflight w' = inflight w - 2"
proof -
  let ?tk = "tk\<lparr>is_cancel := True, debug_str := ''cancelled''\<rparr>"
  let ?w = "(set_task p ?tk w)\<lparr>inflight := inflight w - 1\<rparr>"
  have tk: "tasks (store w) p = Some tk" using assms(2) by (simp add: pending_def)
  have c: "DispatchCqe spins E add p EventCancel res w = Inr ?w"
    using assms(2,6) by (auto simp: DispatchCqe_def pending_def HandleCancelEvent_def modify_task_def SetDebugStr_def
        EventNone_def EventTimeout_def EventError_def EventCancel_def flag_consts)
  have "store_inv out used (store ?w)"
    using store_inv_upd [OF assms(1) tk, of ?tk] by (simp add: set_task_def)
  from ended_without_handler [OF this, of p ?tk k EventNone "- ECANCELED" E spins add] assms(2-5)
  show ?thesis by (auto simp: c pending_def deleted_def)
qed

theorem cancel_counts_twice_witness:
  "\<exists>w'. and_then (DispatchCqe 0 demo_env (AddTask 1 demo_env) 64 EventCancel 0
       (demo_world (\<lambda>t. t\<lparr>task_state := StateSubmitted\<rparr>) 3 1))
     (DispatchCqe 0 demo_env (AddTask 1 demo_env) 64 EventNone (- ECANCELED)) = Inr w' \<and> inflight w' = -1"
proof -
  let ?f = "\<lambda>t. t\<lparr>task_state := StateSubmitted\<rparr>"
  obtain out used where inv: "store_inv out used (store (demo_world ?f 3 1))"
    using demo_inv [of ?f 3 1] by auto
  show ?thesis
    using cancel_counts_twice [OF inv, of 64 _ demo_buf demo_env 0 0 "AddTask 1 demo_env"]
    by (auto simp: pending_def)
qed

section \<open>Retries\<close>

text \<open>A ring that always takes an entry and consumes it at the next submit.\<close>

definition flushing :: "io_env \<Rightarrow> bool" where
  "flushing E \<longleftrightarrow> (\<forall>c. api_get (env_api E) c 0) \<and> (\<forall>c n. api_submit (env_api E) c n = int n)"

lemma flush_drains: "flushing E \<Longrightarrow> sq (uring (AutoFlush E w)) = []"
  by (simp add: AutoFlush_def submit_def io_uring_submit_def flushing_def Let_def)

text \<open>A task in flight that may be retried, below the limit.\<close>

definition retrying :: "ptr \<Rightarrow> io_world \<Rightarrow> bool" where
  "retrying p w \<longleftrightarrow> (\<exists>tk k. pending w p tk k \<and> task_state tk = StateSubmitted \<and> try_count tk = 0 \<and>
     2 \<le> max_retry_count tk \<and> task_type tk \<in> {TypeRead, TypeWrite, TypeAccept} \<and> timeout_ms tk \<le> 0) \<and>
     sq (uring w) = [] \<and> \<not> BackpressureActive w"

definition fatal :: "int \<Rightarrow> bool" where
  "fatal res \<longleftrightarrow> res < 0 \<and> res \<noteq> - EAGAIN \<and> res \<noteq> - ECANCELED"

lemma retry_step:
  assumes "retrying p w" and "p \<noteq> nullptr" and "fatal res" and "flushing E"
  shows "\<exists>w'. DispatchCqe spins E (AddTask (Suc n) E) p EventNone res w = Inr w' \<and> retrying p w' \<and>
    invoked w' = invoked w \<and> inflight w' = inflight w \<and> shutdown_requested w' = shutdown_requested w \<and>
    length (entries (uring w')) = Suc (length (entries (uring w)))"
proof -
  obtain tk k where pen: "pending w p tk k" and st: "task_state tk = StateSubmitted" "try_count tk = 0"
      "2 \<le> max_retry_count tk" "task_type tk \<in> {TypeRead, TypeWrite, TypeAccept}" "timeout_ms tk \<le> 0"
    and w: "sq (uring w) = []" "\<not> BackpressureActive w"
    using assms(1) unfolding retrying_def by blast
  have tk: "tasks (store w) p = Some tk" "buffer tk = Some k" using pen by (simp_all add: pending_def)
  define k1 where "k1 = record_result (fd tk) res k"
  define tk2 where "tk2 = tk\<lparr>buffer := Some k1, try_count := 1, task_state := StateReady\<rparr>"
  let ?e = "\<lparr>sqe_op = task_op tk2 k1, sqe_user_data = task_word p, sqe_link = False\<rparr>"
  let ?w2 = "AutoFlush E (with_entries [?e] (set_task p ((in_flight tk2)\<lparr>user_data := task_word p\<rparr>)
    (w\<lparr>inflight := inflight w + 1\<rparr>)))"
  have "AddTask (Suc n) E p (set_task p tk2 w) = Inr (True, ?w2)"
    using AddTask_entry [of "set_task p tk2 w" p tk2 k1 E n] assms(2,4) st w
    by (simp add: tk2_def BackpressureActive_def flushing_def set_task_def)
  moreover have "HandleNormalEvent spins E (AddTask (Suc n) E) p res w =
      and_then (AddTask (Suc n) E p (set_task p tk2 w)) (\<lambda>(_, w1). Inr w1)"
    using assms(3) st tk unfolding tk2_def k1_def
    by (cases "AddTask (Suc n) E p (set_task p (tk\<lparr>buffer := Some (record_result (fd tk) res k),
          try_count := 1, task_state := StateReady\<rparr>) w)")
      (simp_all add: HandleNormalEvent_failed [OF tk(1) modify_buffer_some [OF tk]] fatal_def errno_defs
        HandleIoFailure_def HandleFailedTask_def modify_task_def SetTaskState_def split_beta)
  ultimately have d: "DispatchCqe spins E (AddTask (Suc n) E) p EventNone res w = Inr (?w2\<lparr>inflight := inflight w\<rparr>)"
    by (simp add: dispatch_normal [OF pen])
  have "retrying p (?w2\<lparr>inflight := inflight w\<rparr>)"
    using flush_drains [OF assms(4)] w st unfolding retrying_def pending_def BackpressureActive_def
    by (simp add: tk2_def)
  moreover have "length (entries (uring ?w2)) = Suc (length (entries (uring w)))"
    unfolding entries_flush by simp
  ultimately show ?thesis
    by (intro exI [of _ "?w2\<lparr>inflight := inflight w\<rparr>"]) (use d in simp)
qed

text \<open>The round of the event loop in which the operation of a task completes with a result.\<close>

definition completion :: "ptr \<Rightarrow> int \<Rightarrow> poll" where
  "completion p res = \<lparr>peek_ret = 0, peek_cqe = Some (task_word p, res), wait_ret = 0, wait_cqe = None, shut = False\<rparr>"

lemma completion_round:
  assumes "p \<noteq> nullptr" and "p < 2 ^ 61"
  shows "loop_round spins E add (completion p res) w = DispatchCqe spins E add p EventNone res w"
proof -
  have "untagged (task_word p)" using task_word_bound [OF assms(2)] by (simp add: untagged_iff_bound)
  from untag_tag [OF this, of EventNone] task_word_bound [OF assms(2)] assms(1)
  show ?thesis by (auto simp: loop_round_def completion_def errno_defs user_data_defs EventNone_def)
qed



end
