(* ===== verification/Lifecycle.thy ===== *)
theory Lifecycle
  imports Io_Defects
begin

text \<open>
  Construction and destruction of \<^verbatim>\<open>IOHandler\<close>, and its signal handlers: which handler is
  registered for the process, what \<^verbatim>\<open>sigaction\<close> had stored for \<^verbatim>\<open>SIGINT\<close> and \<^verbatim>\<open>SIGTERM\<close>, and what
  a signal does.
\<close>

section \<open>Signals\<close>

text \<open>
  What a signal does: the action of \<^verbatim>\<open>IOHandler::OnSignal\<close>, or any other one, named by a number
  (the default action, a handler of the application).
\<close>

datatype disposition = OnSignalAction | OtherAction nat

datatype signum = SIGINT | SIGTERM

text \<open>The process: its dispositions, and the static member \<^verbatim>\<open>active_instance_\<close>.\<close>

record process =
  disp :: "signum \<Rightarrow> disposition"
  active_instance :: ptr

text \<open>The members of one handler that concern signals, by the handler's address.\<close>

record sig_members =
  signals_installed :: bool
  saved_sigint :: disposition
  saved_sigterm :: disposition

text \<open>\<^verbatim>\<open>sigaction\<close>: a parameter says whether the call succeeds; the old disposition comes back.\<close>

definition call_sigaction :: "bool \<Rightarrow> signum \<Rightarrow> disposition \<Rightarrow> process \<Rightarrow> (disposition \<times> process) option" where
  "call_sigaction ok s d P = (if ok then Some (disp P s, P\<lparr>disp := (disp P)(s := d)\<rparr>) else None)"

definition InstallSignalHandlers ::
    "(signum \<Rightarrow> bool) \<Rightarrow> ptr \<Rightarrow> sig_members \<times> process \<Rightarrow> bool \<times> sig_members \<times> process" where
  "InstallSignalHandlers ok this mP =
     (let (m, P) = mP
      in if active_instance P \<noteq> nullptr then (False, m, P)
         else let P1 = P\<lparr>active_instance := this\<rparr>
              in case call_sigaction (ok SIGINT) SIGINT OnSignalAction P1 of
                   None \<Rightarrow> (False, m, P1\<lparr>active_instance := nullptr\<rparr>)
                 | Some (d1, P2) \<Rightarrow>
                     let m1 = m\<lparr>saved_sigint := d1\<rparr>
                     in case call_sigaction (ok SIGTERM) SIGTERM OnSignalAction P2 of
                          None \<Rightarrow> (False, m1, P2\<lparr>active_instance := nullptr\<rparr>)
                        | Some (d2, P3) \<Rightarrow> (True, m1\<lparr>saved_sigterm := d2, signals_installed := True\<rparr>, P3))"

text \<open>The answers of \<^verbatim>\<open>sigaction\<close> are ignored here.\<close>

definition restore :: "bool \<Rightarrow> signum \<Rightarrow> disposition \<Rightarrow> process \<Rightarrow> process" where
  "restore ok s d P = (case call_sigaction ok s d P of None \<Rightarrow> P | Some (_, P1) \<Rightarrow> P1)"

definition UninstallSignalHandlers ::
    "(signum \<Rightarrow> bool) \<Rightarrow> sig_members \<times> process \<Rightarrow> sig_members \<times> process" where
  "UninstallSignalHandlers ok mP =
     (let (m, P) = mP
      in if \<not> signals_installed m then (m, P)
         else let P1 = restore (ok SIGINT) SIGINT (saved_sigint m) P;
                  P2 = restore (ok SIGTERM) SIGTERM (saved_sigterm m) P1
              in (m\<lparr>signals_installed := False\<rparr>, P2\<lparr>active_instance := nullptr\<rparr>))"

text \<open>A signal that the process gets, on the worlds of all handlers; other actions are not ours.\<close>

definition OnSignal :: "io_env \<Rightarrow> process \<Rightarrow> (ptr \<Rightarrow> io_world) \<Rightarrow> ptr \<Rightarrow> io_world" where
  "OnSignal E P ws =
     (if active_instance P = nullptr then ws
      else ws(active_instance P := RequestShutdown E (ws (active_instance P))))"

definition deliver :: "io_env \<Rightarrow> signum \<Rightarrow> process \<Rightarrow> (ptr \<Rightarrow> io_world) \<Rightarrow> ptr \<Rightarrow> io_world" where
  "deliver E s P ws = (if disp P s = OnSignalAction then OnSignal E P ws else ws)"

section \<open>Any sequence of installations\<close>

text \<open>
  A process in which handlers at any addresses install and uninstall (also from their
  destructors, which only uninstall), and signals arrive in between.
\<close>

inductive sig_reach :: "(signum \<Rightarrow> disposition) \<Rightarrow> (ptr \<Rightarrow> sig_members) \<Rightarrow> process \<Rightarrow> bool" for d0 where
  start: "(\<And>h. \<not> signals_installed (ms h)) \<Longrightarrow> sig_reach d0 ms \<lparr>disp = d0, active_instance = nullptr\<rparr>"
| install: "sig_reach d0 ms P \<Longrightarrow> h \<noteq> nullptr \<Longrightarrow>
    InstallSignalHandlers (\<lambda>_. True) h (ms h, P) = (r, m, P') \<Longrightarrow> sig_reach d0 (ms(h := m)) P'"
| uninstall: "sig_reach d0 ms P \<Longrightarrow> UninstallSignalHandlers (\<lambda>_. True) (ms h, P) = (m, P') \<Longrightarrow>
    sig_reach d0 (ms(h := m)) P'"

text \<open>Nobody is registered and the dispositions are the first ones, or exactly one handler is and has saved them.\<close>

definition sig_inv :: "(signum \<Rightarrow> disposition) \<Rightarrow> (ptr \<Rightarrow> sig_members) \<Rightarrow> process \<Rightarrow> bool" where
  "sig_inv d0 ms P \<longleftrightarrow>
     (if active_instance P = nullptr then disp P = d0 \<and> (\<forall>h. \<not> signals_installed (ms h))
      else disp P = (\<lambda>_. OnSignalAction) \<and>
        (\<forall>h. signals_installed (ms h) \<longleftrightarrow> h = active_instance P) \<and>
        saved_sigint (ms (active_instance P)) = d0 SIGINT \<and> saved_sigterm (ms (active_instance P)) = d0 SIGTERM)"

lemma both_signals: "f SIGINT = g SIGINT \<Longrightarrow> f SIGTERM = g SIGTERM \<Longrightarrow> f = g"
proof
  show "f SIGINT = g SIGINT \<Longrightarrow> f SIGTERM = g SIGTERM \<Longrightarrow> f s = g s" for s by (cases s) simp_all
qed

lemma install_inv:
  assumes "sig_inv d0 ms P" and "h \<noteq> nullptr" and "InstallSignalHandlers (\<lambda>_. True) h (ms h, P) = (r, m, P')"
  shows "sig_inv d0 (ms(h := m)) P'"
proof (cases "active_instance P = nullptr")
  case True
  then have "P' = \<lparr>disp = (disp P)(SIGINT := OnSignalAction, SIGTERM := OnSignalAction), active_instance = h\<rparr>"
    "m = (ms h)\<lparr>saved_sigint := disp P SIGINT, saved_sigterm := disp P SIGTERM, signals_installed := True\<rparr>"
    using assms(3) by (auto simp: InstallSignalHandlers_def call_sigaction_def)
  then show ?thesis
    using assms(1,2) True by (auto simp: sig_inv_def intro!: both_signals)
next
  case False
  then show ?thesis using assms by (auto simp: InstallSignalHandlers_def)
qed

lemma uninstall_inv:
  assumes "sig_inv d0 ms P" and "UninstallSignalHandlers (\<lambda>_. True) (ms h, P) = (m, P')"
  shows "sig_inv d0 (ms(h := m)) P'"
proof (cases "signals_installed (ms h)")
  case True
  then have "P' = \<lparr>disp = (disp P)(SIGINT := saved_sigint (ms h), SIGTERM := saved_sigterm (ms h)), active_instance = nullptr\<rparr>"
    "m = (ms h)\<lparr>signals_installed := False\<rparr>"
    using assms(2) by (auto simp: UninstallSignalHandlers_def restore_def call_sigaction_def)
  moreover have "h = active_instance P" "active_instance P \<noteq> nullptr"
    using assms(1) True by (auto simp: sig_inv_def split: if_splits)
  ultimately show ?thesis
    using assms(1) by (auto simp: sig_inv_def intro!: both_signals)
next
  case False
  then show ?thesis using assms by (auto simp: UninstallSignalHandlers_def)
qed

lemma sig_reach_inv: "sig_reach d0 ms P \<Longrightarrow> sig_inv d0 ms P"
proof (induction rule: sig_reach.induct)
  case (start ms)
  then show ?case by (simp add: sig_inv_def)
next
  case (install ms P h r m P')
  then show ?case by (intro install_inv)
next
  case (uninstall ms P h m P')
  then show ?case by (intro uninstall_inv)
qed

text \<open>
  C21: Signal handlers. While \<^verbatim>\<open>sigaction\<close> works, after any sequence of installations and removals
  by any handlers: at most one handler is registered; a signal then requests the shutdown of
  exactly that handler and of no other; and whenever none is registered, both signals have the
  dispositions they had before the first installation.
\<close>

theorem signal_handlers:
  assumes "sig_reach d0 ms P"
  shows "(active_instance P = nullptr \<longrightarrow> disp P = d0 \<and> (\<forall>h. \<not> signals_installed (ms h))) \<and>
    (active_instance P \<noteq> nullptr \<longrightarrow>
       (\<forall>h. signals_installed (ms h) \<longleftrightarrow> h = active_instance P) \<and>
       (\<forall>s ws. shutdown_requested (deliver E s P ws (active_instance P)) \<and>
               (\<forall>h. h \<noteq> active_instance P \<longrightarrow> deliver E s P ws h = ws h)))"
proof -
  have "sig_inv d0 ms P" using assms by (rule sig_reach_inv)
  then show ?thesis using shutdown_flag by (auto simp: sig_inv_def deliver_def OnSignal_def)
qed

theorem signal_handlers_witness:
  "\<exists>ms P. sig_reach (\<lambda>_. OtherAction 0) ms P \<and> active_instance P = 4096 \<and>
     shutdown_requested (deliver demo_env SIGINT P (\<lambda>_. demo_world id 0 0) 4096)"
proof -
  let ?m = "\<lparr>signals_installed = False, saved_sigint = OtherAction 9, saved_sigterm = OtherAction 9\<rparr>"
  let ?P = "\<lparr>disp = \<lambda>_. OtherAction 0, active_instance = nullptr\<rparr>"
  obtain r m P where i: "InstallSignalHandlers (\<lambda>_. True) 4096 (?m, ?P) = (r, m, P)" by (metis prod.exhaust)
  have s: "sig_reach (\<lambda>_. OtherAction 0) (\<lambda>_. ?m) ?P" by (rule sig_reach.start) simp
  have reach: "sig_reach (\<lambda>_. OtherAction 0) ((\<lambda>_. ?m)(4096 := m)) P"
    by (rule sig_reach.install [OF s]) (use i in simp_all)
  have "active_instance P = 4096" using i by (auto simp: InstallSignalHandlers_def call_sigaction_def)
  moreover from this have "shutdown_requested (deliver demo_env SIGINT P (\<lambda>_. demo_world id 0 0) 4096)"
    using signal_handlers [OF reach, of demo_env] by simp
  ultimately show ?thesis using reach by blast
qed

text \<open>
  When the second \<^verbatim>\<open>sigaction\<close> fails, the first one is not undone: nobody is registered, but
  \<^verbatim>\<open>SIGINT\<close> runs \<^verbatim>\<open>OnSignal\<close>, which then does nothing, instead of what it did before.
\<close>

lemma failed_install_swallows_sigint:
  assumes "active_instance P = nullptr" and "\<not> ok SIGTERM" and "ok SIGINT"
    and "InstallSignalHandlers ok h (m, P) = (r, m', P')"
  shows "\<not> r \<and> disp P' SIGINT = OnSignalAction \<and> deliver E SIGINT P' ws = ws"
  using assms by (auto simp: InstallSignalHandlers_def call_sigaction_def deliver_def OnSignal_def)

section \<open>Construction and destruction\<close>

text \<open>
  A handler: the event thread (\<^verbatim>\<open>joinable()\<close>), whether \<^verbatim>\<open>io_uring_queue_init\<close> set the ring up, how
  often \<^verbatim>\<open>io_uring_queue_exit\<close> was called for it, the error text, and the members above.
\<close>

record io_handler =
  io :: io_world
  ring_ready :: bool
  ring_exits :: nat
  joinable :: bool
  init_error :: string
  sigs :: sig_members

definition fresh_world :: "AsyncIoConfig \<Rightarrow> task_store \<Rightarrow> io_world" where
  "fresh_world c s =
     \<lparr>store = s, config = c, uring = \<lparr>sq = [], sent = [], calls = 0\<rparr>, inflight = 0, shutdown_requested = False,
      closed_fds = [], invoked = [], removed = [], counters = \<lambda>_. 0\<rparr>"

text \<open>\<^verbatim>\<open>ret\<close> is the answer of \<^verbatim>\<open>io_uring_queue_init\<close>, \<^verbatim>\<open>err\<close> the text for it.\<close>

definition IOHandler_construct :: "int \<Rightarrow> string \<Rightarrow> AsyncIoConfig \<Rightarrow> task_store \<Rightarrow> io_handler" where
  "IOHandler_construct ret err c s =
     (let H = \<lparr>io = fresh_world c s, ring_ready = False, ring_exits = 0, joinable = False, init_error = '''',
              sigs = \<lparr>signals_installed = False, saved_sigint = OtherAction 0, saved_sigterm = OtherAction 0\<rparr>\<rparr>
      in if ret < 0 then H\<lparr>init_error := ''io_uring_queue_init: '' @ err\<rparr>
         else H\<lparr>ring_ready := True, joinable := True\<rparr>)"

definition Initialized :: "io_handler \<Rightarrow> bool" where
  "Initialized H \<longleftrightarrow> init_error H = ''''"

text \<open>
  The kernel, for a thread that is blocked in \<^verbatim>\<open>io_uring_wait_cqe\<close>: what this call returns, and the
  completion it points to, when the kernel has consumed the given entries since the ring was set
  up; \<^verbatim>\<open>None\<close> when the call never returns.
\<close>

type_synonym kernel = "sqe list \<Rightarrow> (int \<times> (u64 \<times> int) option) option"

definition waited :: "int \<times> (u64 \<times> int) option \<Rightarrow> poll" where
  "waited a = \<lparr>peek_ret = - EAGAIN, peek_cqe = None, wait_ret = fst a, wait_cqe = snd a, shut = False\<rparr>"

text \<open>
  \<^verbatim>\<open>Join\<close>: if there is a thread, it runs on, from the head of its loop or, when it is blocked, from
  the return of \<^verbatim>\<open>io_uring_wait_cqe\<close>; \<^verbatim>\<open>qs\<close> are the rounds after that. \<^verbatim>\<open>None\<close> when the thread waits
  for ever, or still waits after these rounds.
\<close>

definition Join ::
    "io_env \<Rightarrow> nat \<Rightarrow> add_fun \<Rightarrow> kernel \<Rightarrow> bool \<Rightarrow> poll list \<Rightarrow> io_handler \<Rightarrow> io_fault + io_handler option" where
  "Join E spins add K blocked qs H =
     (if \<not> joinable H then Inr (Some H)
      else and_then
        (if \<not> blocked then RunEventLoop spins E add qs (io H)
         else case K (sent (uring (io H))) of
                None \<Rightarrow> Inr (False, io H)
              | Some a \<Rightarrow> and_then (loop_round spins E add (waited a) (io H)) (\<lambda>w1. RunEventLoop spins E add qs w1))
        (\<lambda>(ended, w). Inr (if ended then Some (H\<lparr>io := w, joinable := False\<rparr>) else None)))"

definition io_uring_queue_exit :: "io_handler \<Rightarrow> io_handler" where
  "io_uring_queue_exit H = H\<lparr>ring_exits := ring_exits H + 1\<rparr>"

text \<open>The destructor; \<^verbatim>\<open>uring_\<close> is never null. \<^verbatim>\<open>None\<close> when \<^verbatim>\<open>Join\<close> does not return.\<close>

definition IOHandler_destroy ::
    "io_env \<Rightarrow> nat \<Rightarrow> add_fun \<Rightarrow> kernel \<Rightarrow> bool \<Rightarrow> poll list \<Rightarrow> (signum \<Rightarrow> bool) \<Rightarrow> io_handler \<times> process
       \<Rightarrow> io_fault + (io_handler \<times> process) option" where
  "IOHandler_destroy E spins add K blocked qs ok HP =
     (let (H, P) = HP; (m, P1) = UninstallSignalHandlers ok (sigs H, P);
          H1 = H\<lparr>sigs := m, io := RequestShutdown E (io H)\<rparr>
      in and_then (Join E spins add K blocked qs H1) (\<lambda>r.
           Inr (case r of None \<Rightarrow> None | Some H2 \<Rightarrow> Some (io_uring_queue_exit H2, P1))))"

text \<open>
  Documented behaviour of the kernel: a no-op that it has consumed completes, so a thread that
  waits returns. Only \<^verbatim>\<open>RequestShutdown\<close> posts no-ops, and a thread that got the completion of one
  leaves its loop.
\<close>

definition completes_nops :: "kernel \<Rightarrow> bool" where
  "completes_nops K \<longleftrightarrow> (\<forall>es. (\<exists>e \<in> set es. sqe_op e = OpNop) \<longrightarrow> K es \<noteq> None)"

text \<open>The submit of \<^verbatim>\<open>RequestShutdown\<close> hands everything that waits to the kernel.\<close>

definition submits_all :: "io_env \<Rightarrow> ring \<Rightarrow> bool" where
  "submits_all E r \<longleftrightarrow> int (length (sq r)) + 1 \<le> api_submit (env_api E) (calls r + 1) (length (sq r) + 1)"

lemma shutdown_full:
  assumes "\<not> has_entry E (uring w)"
  shows "entries (uring (RequestShutdown E w)) = entries (uring w)" "sent (uring (RequestShutdown E w)) = sent (uring w)"
  using assms by (simp_all add: RequestShutdown_def take_sqe_def io_uring_get_sqe_def Let_def)

lemma shutdown_sent:
  assumes "has_entry E (uring w)" and "submits_all E (uring w)"
  shows "\<exists>e \<in> set (sent (uring (RequestShutdown E w))). sqe_op e = OpNop"
proof -
  let ?e = "\<lparr>sqe_op = OpNop, sqe_user_data = 0, sqe_link = False\<rparr>"
  let ?r = "api_submit (env_api E) (calls (uring w) + 1) (length (sq (uring w)) + 1)"
  have n: "0 \<le> ?r" "length (sq (uring w) @ [?e]) \<le> nat ?r" using assms(2) by (simp_all add: submits_all_def)
  have "sent (uring (RequestShutdown E w)) = sent (uring w) @ take (nat ?r) (sq (uring w) @ [?e])"
    using n(1) by (simp add: shutdown_entry(1) [OF assms(1)] submit_def io_uring_submit_def with_entries_def Let_def)
  also have "\<dots> = sent (uring w) @ sq (uring w) @ [?e]" using n(2) by simp
  finally show ?thesis by simp
qed

text \<open>A thread whose wait returns leaves the loop, whatever completion it got, unless handling it faults.\<close>

lemma Join_blocked:
  assumes "joinable H" and "K (sent (uring (io H))) = Some a" and "shutdown_requested (io H)"
  shows "Join E spins (AddTask n E) K True qs H =
    and_then (loop_round spins E (AddTask n E) (waited a) (io H)) (\<lambda>w. Inr (Some (H\<lparr>io := w, joinable := False\<rparr>)))"
proof (cases "loop_round spins E (AddTask n E) (waited a) (io H)")
  case (Inr w)
  then have "shutdown_requested w" using add.round_keeps [OF Inr] assms(3) by (simp add: keeps_def)
  then show ?thesis using assms Inr by (simp add: Join_def RunEventLoop.simps)
qed (use assms in \<open>simp add: Join_def\<close>)

lemma Join_running:
  "\<not> joinable H \<or> shutdown_requested (io H) \<Longrightarrow> Join E spins add K False qs H = Inr (Some (H\<lparr>joinable := False\<rparr>))"
  by (auto simp: Join_def RunEventLoop.simps)

text \<open>
  C22: Construction and destruction. A handler says that it is initialised, and has an event
  thread, exactly if the ring could be set up. The destructor takes the signal handlers back,
  requests the shutdown, joins the thread and calls \<^verbatim>\<open>io_uring_queue_exit\<close> once. It returns when the
  thread is not waiting for a completion. When the thread is blocked, a no-op is posted if the
  ring has a free entry: then, if the submit reaches the kernel and the kernel completes no-ops,
  the wait returns, and the destructor does so too unless the handling of that completion
  faults; with the completion of the no-op itself nothing else happens. If the ring has no free
  entry nothing is posted, and a thread that waits for ever keeps doing so: the destructor does not
  return. When the ring was never set up, the destructor still asks it for an entry and tears it
  down.
\<close>

theorem construct_destroy:
  fixes E spins n ret err c s
  defines "H \<equiv> \<lambda>w m. (IOHandler_construct ret err c s)\<lparr>io := w, sigs := m\<rparr>"
    and "D \<equiv> \<lambda>K blocked qs. IOHandler_destroy E spins (AddTask n E) K blocked qs (\<lambda>_. True)"
    and "done \<equiv> \<lambda>r w m. \<exists>H' P'. r = Inr (Some (H', P')) \<and> io H' = RequestShutdown E w \<and> ring_exits H' = 1 \<and> \<not> joinable H' \<and>
      (ring_ready H' \<longleftrightarrow> 0 \<le> ret) \<and> (signals_installed m \<longrightarrow>
        active_instance P' = nullptr \<and> disp P' SIGINT = saved_sigint m \<and> disp P' SIGTERM = saved_sigterm m)"
  shows "(Initialized (H w m) \<longleftrightarrow> 0 \<le> ret) \<and> (joinable (H w m) \<longleftrightarrow> 0 \<le> ret) \<and>
    (ret < 0 \<longrightarrow> init_error (H w m) = ''io_uring_queue_init: '' @ err \<and> done (D K blocked qs (H w m, P)) w m \<and>
       calls (uring w) < calls (uring (RequestShutdown E w))) \<and>
    done (D K False qs (H w m, P)) w m \<and>
    (0 \<le> ret \<and> has_entry E (uring w) \<and> submits_all E (uring w) \<and> completes_nops K \<longrightarrow>
       D K True qs (H w m, P) \<noteq> Inr None \<and>
       (K (sent (uring (RequestShutdown E w))) = Some (0, Some (0, 0)) \<longrightarrow> done (D K True qs (H w m, P)) w m)) \<and>
    (0 \<le> ret \<and> \<not> has_entry E (uring w) \<and> K (sent (uring w)) = None \<longrightarrow> D K True qs (H w m, P) = Inr None)"
proof -
  obtain m1 P1 where u: "UninstallSignalHandlers (\<lambda>_. True) (m, P) = (m1, P1)" by fastforce
  then have sg: "signals_installed m \<longrightarrow> active_instance P1 = nullptr \<and> disp P1 SIGINT = saved_sigint m \<and>
      disp P1 SIGTERM = saved_sigterm m"
    by (auto simp: UninstallSignalHandlers_def restore_def call_sigaction_def)
  let ?v = "RequestShutdown E w" and ?H = "IOHandler_construct ret err c s"
  let ?H1 = "(H w m)\<lparr>sigs := m1, io := ?v\<rparr>"
  have h: "io ?H1 = ?v" "joinable ?H1 \<longleftrightarrow> 0 \<le> ret" "ring_exits ?H1 = 0" "ring_ready ?H1 \<longleftrightarrow> 0 \<le> ret" "shutdown_requested ?v"
    using shutdown_flag by (auto simp: H_def IOHandler_construct_def Let_def)
  have d: "D K b qs (H w m, P) = and_then (Join E spins (AddTask n E) K b qs ?H1)
      (\<lambda>r. Inr (case r of None \<Rightarrow> None | Some H2 \<Rightarrow> Some (io_uring_queue_exit H2, P1)))" for b
    using u by (simp add: D_def IOHandler_destroy_def H_def)
  have fin: "done (D K b qs (H w m, P)) w m" if "Join E spins (AddTask n E) K b qs ?H1 = Inr (Some (?H1\<lparr>io := ?v, joinable := False\<rparr>))" for b
    unfolding d that done_def using h(3,4) sg by (simp add: io_uring_queue_exit_def)
  have run: "done (D K False qs (H w m, P)) w m" using Join_running [of ?H1] h(1,5) by (intro fin) simp
  have dead: "done (D K blocked qs (H w m, P)) w m" if "ret < 0" using that h(1,2) by (intro fin) (auto simp: Join_def)
  have cl: "calls (uring w) < calls (uring ?v)"
    by (cases "has_entry E (uring w)") (auto simp: RequestShutdown_def take_sqe_def io_uring_get_sqe_def submit_def io_uring_submit_def
        put_sqe_def set_sqe_def Let_def)
  have post: "D K True qs (H w m, P) \<noteq> Inr None \<and> (K (sent (uring ?v)) = Some (0, Some (0, 0)) \<longrightarrow> done (D K True qs (H w m, P)) w m)"
    if "0 \<le> ret" "has_entry E (uring w)" "submits_all E (uring w)" "completes_nops K"
  proof -
    note r = that
    obtain a where a: "K (sent (uring ?v)) = Some a" using shutdown_sent [OF r(2,3)] r(4) unfolding completes_nops_def by blast
    note j = Join_blocked [of ?H1 K a E spins n qs, unfolded h(1), OF _ a h(5)]
    have "D K True qs (H w m, P) \<noteq> Inr None"
      unfolding d using j r(1) h(2) by (cases "loop_round spins E (AddTask n E) (waited a) ?v") auto
    moreover have "done (D K True qs (H w m, P)) w m" if "a = (0, Some (0, 0))"
      using j \<open>0 \<le> ret\<close> h(2) that by (intro fin) (simp add: waited_def loop_round_def)
    ultimately show ?thesis using a by auto
  qed
  have stuck: "D K True qs (H w m, P) = Inr None" if "0 \<le> ret" "\<not> has_entry E (uring w)" "K (sent (uring w)) = None"
    unfolding d using that h(1,2) shutdown_full(2) [OF that(2)] by (simp add: Join_def)
  have ini: "Initialized (H w m) \<longleftrightarrow> 0 \<le> ret" "joinable (H w m) \<longleftrightarrow> 0 \<le> ret"
      "ret < 0 \<Longrightarrow> init_error (H w m) = ''io_uring_queue_init: '' @ err"
    by (auto simp: H_def IOHandler_construct_def Initialized_def Let_def)
  show ?thesis using ini run dead cl post stuck by blast
qed

text \<open>A kernel that completes no-ops and nothing else, and a handler whose thread is blocked.\<close>

definition nop_kernel :: kernel where
  "nop_kernel es = (if \<exists>e \<in> set es. sqe_op e = OpNop then Some (0, Some (0, 0)) else None)"

theorem construct_destroy_witness:
  "Initialized ((IOHandler_construct 0 '''' (default_config 4096) demo_store)\<lparr>io := demo_world id 0 0,
      sigs := \<lparr>signals_installed = False, saved_sigint = OtherAction 0, saved_sigterm = OtherAction 0\<rparr>\<rparr>) \<and>
   (\<exists>H' P'. IOHandler_destroy demo_env 0 (AddTask 1 demo_env) nop_kernel True [] (\<lambda>_. True)
      ((IOHandler_construct 0 '''' (default_config 4096) demo_store)\<lparr>io := demo_world id 0 0,
         sigs := \<lparr>signals_installed = False, saved_sigint = OtherAction 0, saved_sigterm = OtherAction 0\<rparr>\<rparr>,
       \<lparr>disp = \<lambda>_. OtherAction 0, active_instance = 0\<rparr>) = Inr (Some (H', P')) \<and> ring_exits H' = 1)"
proof -
  let ?w = "demo_world id 0 0"
  have e: "has_entry demo_env (uring ?w)" "submits_all demo_env (uring ?w)" "completes_nops nop_kernel"
    by (simp_all add: submits_all_def completes_nops_def nop_kernel_def)
  have "nop_kernel (sent (uring (RequestShutdown demo_env ?w))) = Some (0, Some (0, 0))"
    using shutdown_sent [OF e(1,2)] by (simp add: nop_kernel_def)
  then show ?thesis
    using construct_destroy [where ret = 0 and err = "''''" and c = "default_config 4096" and s = demo_store and E = demo_env
        and spins = 0 and n = 1 and w = ?w and K = nop_kernel and qs = "[]" and
        m = "\<lparr>signals_installed = False, saved_sigint = OtherAction 0, saved_sigterm = OtherAction 0\<rparr>" and
        P = "\<lparr>disp = \<lambda>_. OtherAction 0, active_instance = 0\<rparr>"] e by auto
qed

end
