(* ===== verification/Tcp.thy ===== *)
theory Tcp
  imports Io_Completion
begin

text \<open>
  \<^verbatim>\<open>async_io_tcp_server.hpp\<close> and \<^verbatim>\<open>async_io_tcp_client.hpp\<close>: opening the listening socket and making
  accept tasks; opening a socket, and making a connect task with the address in its buffer.
  The socket calls and \<^verbatim>\<open>inet_pton\<close> are parameters; the model keeps the descriptors that are open.
\<close>

section \<open>Socket calls\<close>

text \<open>
  The answers of the system, by the number of the call: the results of \<^verbatim>\<open>socket\<close>, \<^verbatim>\<open>bind\<close> and
  \<^verbatim>\<open>listen\<close>, the text of \<^verbatim>\<open>strerror(errno)\<close> after the call, and the address that \<^verbatim>\<open>inet_pton\<close>
  reads from a text, if it can.
\<close>

record net_api =
  sys_socket :: "nat \<Rightarrow> int"
  sys_bind :: "nat \<Rightarrow> int \<Rightarrow> byte list \<Rightarrow> int"
  sys_listen :: "nat \<Rightarrow> int \<Rightarrow> int \<Rightarrow> int"
  sys_strerror :: "nat \<Rightarrow> string"
  inet_pton :: "string \<Rightarrow> byte list option"

record net =
  open_fds :: "int list"
  reuse_addr :: "int list"
  net_calls :: nat

definition call_socket :: "net_api \<Rightarrow> net \<Rightarrow> int \<times> net" where
  "call_socket api nt =
     (let n = sys_socket api (net_calls nt)
      in (n, nt\<lparr>net_calls := net_calls nt + 1,
                open_fds := (if 0 \<le> n then open_fds nt @ [n] else open_fds nt)\<rparr>))"

text \<open>\<^verbatim>\<open>setsockopt(SO_REUSEADDR)\<close>: the descriptor it was asked for; its answer is ignored.\<close>

definition call_setsockopt :: "int \<Rightarrow> net \<Rightarrow> net" where
  "call_setsockopt s nt = nt\<lparr>net_calls := net_calls nt + 1, reuse_addr := reuse_addr nt @ [s]\<rparr>"

definition call_bind :: "net_api \<Rightarrow> int \<Rightarrow> byte list \<Rightarrow> net \<Rightarrow> int \<times> net" where
  "call_bind api s addr nt = (sys_bind api (net_calls nt) s addr, nt\<lparr>net_calls := net_calls nt + 1\<rparr>)"

definition call_listen :: "net_api \<Rightarrow> int \<Rightarrow> int \<Rightarrow> net \<Rightarrow> int \<times> net" where
  "call_listen api s backlog nt = (sys_listen api (net_calls nt) s backlog, nt\<lparr>net_calls := net_calls nt + 1\<rparr>)"

definition call_close :: "int \<Rightarrow> net \<Rightarrow> net" where
  "call_close s nt = nt\<lparr>open_fds := removeAll s (open_fds nt)\<rparr>"

text \<open>\<^verbatim>\<open>strerror(errno)\<close> right after a call.\<close>

definition last_strerror :: "net_api \<Rightarrow> net \<Rightarrow> string" where
  "last_strerror api nt = sys_strerror api (net_calls nt - 1)"

text \<open>
  \<^verbatim>\<open>sockaddr_in\<close> as bytes; \<^verbatim>\<open>htons\<close> takes the port as a 16-bit number, so an \<^verbatim>\<open>int\<close> is cut.
\<close>

definition htons_bytes :: "int \<Rightarrow> byte list" where
  "htons_bytes port = [word_of_int (port div 256), word_of_int port]"

definition sockaddr_bytes :: "int \<Rightarrow> byte list \<Rightarrow> byte list" where
  "sockaddr_bytes port a = [word_of_nat AF_INET, 0] @ htons_bytes port @ a @ replicate 8 0"

definition INADDR_ANY :: "byte list" where "INADDR_ANY = [0, 0, 0, 0]"

section \<open>TcpServer\<close>

record TcpServer =
  srv_config :: AsyncIoConfig
  listen_fd :: int
  srv_port :: int
  srv_last_error :: string

definition TcpServer_construct :: "AsyncIoConfig \<Rightarrow> TcpServer" where
  "TcpServer_construct c = \<lparr>srv_config = c, listen_fd = -1, srv_port = 8080, srv_last_error = ''''\<rparr>"

definition TcpServer_destroy :: "TcpServer \<times> net \<Rightarrow> net" where
  "TcpServer_destroy sn = (let (sv, nt) = sn in if 0 \<le> listen_fd sv then call_close (listen_fd sv) nt else nt)"

definition TcpServer_Init :: "net_api \<Rightarrow> TcpServer \<times> net \<Rightarrow> bool \<times> TcpServer \<times> net" where
  "TcpServer_Init api sn =
     (let (sv, nt) = sn; (s, nt1) = call_socket api nt; sv1 = sv\<lparr>listen_fd := s\<rparr>
      in if s < 0
         then (False, sv1\<lparr>srv_last_error := ''socket() failed: '' @ last_strerror api nt1\<rparr>, nt1)
         else let (b, nt2) = call_bind api s (sockaddr_bytes (srv_port sv) INADDR_ANY) (call_setsockopt s nt1)
              in if b < 0
                 then (False, sv1\<lparr>srv_last_error := ''bind() failed: '' @ last_strerror api nt2, listen_fd := -1\<rparr>,
                       call_close s nt2)
                 else let (l, nt3) = call_listen api s (tcp_accept_backlog (srv_config sv)) nt2
                      in if l < 0
                         then (False, sv1\<lparr>srv_last_error := ''listen() failed: '' @ last_strerror api nt3,
                                         listen_fd := -1\<rparr>, call_close s nt3)
                         else (True, sv1, nt3))"

definition TcpServer_Start :: "net_api \<Rightarrow> int \<Rightarrow> TcpServer \<times> net \<Rightarrow> bool \<times> TcpServer \<times> net" where
  "TcpServer_Start api port sn = (let (sv, nt) = sn in TcpServer_Init api (sv\<lparr>srv_port := port\<rparr>, nt))"

definition CreateAcceptTask ::
    "allocator \<Rightarrow> tid \<Rightarrow> ptr \<Rightarrow> nat \<Rightarrow> TcpServer \<Rightarrow> io_world \<Rightarrow> io_fault + ptr \<times> io_world" where
  "CreateAcceptTask alloc t sysnew h sv w =
     (let (p, s) = CreateTaskWithHandler alloc t sysnew (listen_fd sv) h (store w)
      in and_then (modify_task p (\<lambda>tk. SetRepeatForever True (SetTaskType TypeAccept tk)) (w\<lparr>store := s\<rparr>))
           (\<lambda>w1. Inr (p, w1)))"

section \<open>TcpClient\<close>

record TcpClient =
  cl_config :: AsyncIoConfig
  cl_last_error :: string

definition TcpClient_construct :: "AsyncIoConfig \<Rightarrow> TcpClient" where
  "TcpClient_construct c = \<lparr>cl_config = c, cl_last_error = ''''\<rparr>"

text \<open>The address, the descriptor that \<^verbatim>\<open>out_fd\<close> gets, and the new state.\<close>

definition PrepareSocket ::
    "net_api \<Rightarrow> string \<Rightarrow> int \<Rightarrow> TcpClient \<times> net \<Rightarrow> byte list \<times> int \<times> TcpClient \<times> net" where
  "PrepareSocket api ip port cn =
     (let (cl, nt) = cn; (s, nt1) = call_socket api nt
      in if s < 0
         then (replicate 16 0, -1, cl\<lparr>cl_last_error := ''socket() failed: '' @ last_strerror api nt1\<rparr>, nt1)
         else case inet_pton api ip of
                None \<Rightarrow> (sockaddr_bytes port [0, 0, 0, 0], -1,
                         cl\<lparr>cl_last_error := ''inet_pton() failed for '' @ ip\<rparr>, call_close s nt1)
              | Some a \<Rightarrow> (sockaddr_bytes port a, s, cl, nt1))"

definition FinalizeConnectTask ::
    "allocator \<Rightarrow> tid \<Rightarrow> TcpClient \<Rightarrow> ptr \<Rightarrow> byte list \<Rightarrow> io_world \<Rightarrow> io_fault + ptr \<times> io_world" where
  "FinalizeConnectTask alloc t cl p addr w =
     and_then (modify_task p (\<lambda>tk. SetTimeout (connect_timeout_ms (cl_config cl)) (SetTaskType TypeConnect tk)) w) (\<lambda>w1.
     and_then (resize_buffer alloc t p (length addr) w1) (\<lambda>w2.
     and_then (store_buffer p addr w2) (\<lambda>w3. Inr (p, w3))))"

definition TcpClient_Connect ::
    "net_api \<Rightarrow> allocator \<Rightarrow> tid \<Rightarrow> ptr \<Rightarrow> string \<Rightarrow> int \<Rightarrow> nat \<Rightarrow> TcpClient \<times> net \<times> io_world
       \<Rightarrow> io_fault + ptr \<times> TcpClient \<times> net \<times> io_world" where
  "TcpClient_Connect api alloc t sysnew ip port h cnw =
     (let (cl, nt, w) = cnw; (addr, s, cl1, nt1) = PrepareSocket api ip port (cl, nt)
      in if s < 0 then Inr (nullptr, cl1, nt1, w)
         else let (p, st) = CreateTaskWithHandler alloc t sysnew s h (store w)
              in and_then (FinalizeConnectTask alloc t cl1 p addr (w\<lparr>store := st\<rparr>))
                   (\<lambda>(q, w1). Inr (q, cl1, nt1, w1)))"

section \<open>The listening socket\<close>

text \<open>
  C27: \<^verbatim>\<open>TcpServer::Start\<close> leaves either one new open descriptor, bound and listening on the port
  asked for, with the address option requested, and held in the server, or, on any failing call, no new open descriptor, no
  listening descriptor in the server and the reason in the error text. The destructor closes
  what a successful start opened.
\<close>

theorem server_start:
  assumes "listen_fd sv < 0" and "sys_socket api (net_calls nt) \<notin> set (open_fds nt)"
    and "TcpServer_Start api port (sv, nt) = (ok, sv', nt')"
  shows "(ok \<longrightarrow> 0 \<le> listen_fd sv' \<and> open_fds nt' = open_fds nt @ [listen_fd sv'] \<and>
        0 \<le> sys_bind api (net_calls nt + 2) (listen_fd sv') (sockaddr_bytes port INADDR_ANY) \<and>
        0 \<le> sys_listen api (net_calls nt + 3) (listen_fd sv') (tcp_accept_backlog (srv_config sv)) \<and>
        reuse_addr nt' = reuse_addr nt @ [listen_fd sv'] \<and>
        srv_last_error sv' = srv_last_error sv \<and> open_fds (TcpServer_destroy (sv', nt')) = open_fds nt) \<and>
    (\<not> ok \<longrightarrow> listen_fd sv' < 0 \<and> open_fds nt' = open_fds nt \<and>
        (\<exists>c \<in> {''socket() failed: '', ''bind() failed: '', ''listen() failed: ''}. \<exists>e. srv_last_error sv' = c @ e))"
  using assms
  by (auto simp: TcpServer_Start_def TcpServer_Init_def TcpServer_destroy_def Let_def call_socket_def call_setsockopt_def call_bind_def
      call_listen_def call_close_def eval_nat_numeral split: if_splits)

definition demo_net_api :: net_api where
  "demo_net_api = \<lparr>sys_socket = \<lambda>c. int c + 3, sys_bind = \<lambda>_ _ _. 0, sys_listen = \<lambda>_ _ _. 0, sys_strerror = \<lambda>_. '''',
     inet_pton = \<lambda>_. Some [127, 0, 0, 1]\<rparr>"

theorem server_start_witness:
  "\<exists>sv' nt'. TcpServer_Start demo_net_api 9090 (TcpServer_construct (default_config 4096), \<lparr>open_fds = [], reuse_addr = [], net_calls = 0\<rparr>) =
      (True, sv', nt') \<and> listen_fd sv' = 3 \<and> open_fds nt' = [3] \<and> open_fds (TcpServer_destroy (sv', nt')) = []"
proof -
  let ?sv = "TcpServer_construct (default_config 4096)" and ?nt = "\<lparr>open_fds = [], reuse_addr = [], net_calls = 0\<rparr>"
  let ?sv' = "?sv\<lparr>srv_port := 9090, listen_fd := 3\<rparr>" and ?nt' = "\<lparr>open_fds = [3], reuse_addr = [3], net_calls = 4\<rparr>"
  have "TcpServer_Start demo_net_api 9090 (?sv, ?nt) = (True, ?sv', ?nt')"
    by (simp add: TcpServer_Start_def TcpServer_Init_def TcpServer_construct_def call_socket_def
        call_setsockopt_def call_bind_def call_listen_def demo_net_api_def)
  with server_start [of ?sv demo_net_api ?nt 9090 True ?sv' ?nt'] show ?thesis
    by (auto simp: TcpServer_construct_def)
qed

text \<open>
  A second start of a server that listens loses the first descriptor: it stays open after the
  destructor.
\<close>

lemma server_restart_leaks:
  assumes "0 \<le> listen_fd sv" and "open_fds nt = [listen_fd sv]" and "sys_socket api (net_calls nt) \<noteq> listen_fd sv"
  shows "listen_fd sv \<in> set (open_fds (TcpServer_destroy (snd (TcpServer_Start api port (sv, nt)))))"
  using assms
  by (auto simp: TcpServer_Start_def TcpServer_Init_def TcpServer_destroy_def Let_def call_socket_def call_setsockopt_def call_bind_def
      call_listen_def call_close_def)

section \<open>Connect tasks\<close>

text \<open>The text of an address: its parts have no dots, and only the address 0 reads as zeros.\<close>

lemma show_nat_digits: "CHR ''.'' \<notin> set (show_nat n)"
proof (induction n rule: show_nat.induct)
  case (1 n)
  have dot: "CHR ''.'' \<noteq> char_of (48 + k)" if "k < 10" for k :: nat
  proof
    assume "CHR ''.'' = char_of (48 + k)"
    then have "of_char (CHR ''.'') = (of_char (char_of (48 + k)) :: nat)" by simp
    with that show False by simp
  qed
  then show ?case using 1 dot [of n] dot [of "n mod 10"] by (subst show_nat.simps) auto
qed

lemma show_nat_zero: "show_nat n = ''0'' \<longleftrightarrow> n = 0"
proof
  assume "show_nat n = ''0''"
  then have z: "(if n < 10 then [char_of (48 + n)] else show_nat (n div 10) @ [char_of (48 + n mod 10)]) = ''0''"
    by (simp add: show_nat.simps)
  have ne: "show_nat m \<noteq> []" for m by (subst show_nat.simps) simp
  show "n = 0"
  proof (cases "n < 10")
    case True
    then have "char_of (48 + n) = CHR ''0''" using z by simp
    then have "of_char (char_of (48 + n)) = (of_char (CHR ''0'') :: nat)" by simp
    then show ?thesis using True by simp
  next
    case False
    then show ?thesis using z ne [of "n div 10"] by (simp add: append_eq_Cons_conv)
  qed
next
  have "(48 :: nat) = of_char (CHR ''0'')" by simp
  then have "char_of (48 :: nat) = CHR ''0''" by (simp only: char_of_char)
  then show "show_nat n = ''0''" if "n = 0" using that by (simp add: show_nat.simps)
qed

lemma split_at_dot:
  "CHR ''.'' \<notin> set x \<Longrightarrow> CHR ''.'' \<notin> set y \<Longrightarrow> x @ CHR ''.'' # r = y @ CHR ''.'' # s \<Longrightarrow> x = y \<and> r = s"
proof (induction x arbitrary: y)
  case Nil
  then show ?case by (cases y) auto
next
  case (Cons c x)
  then show ?case by (cases y) auto
qed

lemma inet_ntop_zero:
  assumes "length a \<ge> 4" and "inet_ntop a = ''0.0.0.0''"
  shows "take 4 a = [0, 0, 0, 0]"
proof -
  let ?s = "\<lambda>i. show_nat (unat (a ! i))"
  note d = show_nat_digits
  have e: "?s 0 @ CHR ''.'' # ?s 1 @ CHR ''.'' # ?s 2 @ CHR ''.'' # ?s 3 =
      ''0'' @ CHR ''.'' # ''0'' @ CHR ''.'' # ''0'' @ CHR ''.'' # ''0''"
    using assms(2) by (simp add: inet_ntop_def)
  note e1 = split_at_dot [OF d _ e]
  have z: "?s 0 = ''0''" "?s 1 @ CHR ''.'' # ?s 2 @ CHR ''.'' # ?s 3 = ''0'' @ CHR ''.'' # ''0'' @ CHR ''.'' # ''0''"
    using e1 by simp_all
  note e2 = split_at_dot [OF d _ z(2)]
  have z1: "?s 1 = ''0''" "?s 2 @ CHR ''.'' # ?s 3 = ''0'' @ CHR ''.'' # ''0''" using e2 by simp_all
  note e3 = split_at_dot [OF d _ z1(2)]
  have z2: "?s 2 = ''0''" "?s 3 = ''0''" using e3 by simp_all
  have "a ! 0 = 0" "a ! 1 = 0" "a ! 2 = 0" "a ! 3 = 0"
    using z(1) z1(1) z2 by (simp_all add: show_nat_zero unat_eq_0)
  moreover have "take 4 a = [a ! 0, a ! 1, a ! 2, a ! 3]"
    using assms(1) by (intro nth_equalityI) (auto simp: less_Suc_eq numeral_eq_Suc)
  ultimately show ?thesis by simp
qed

lemma sockaddr_fields:
  assumes "length a = 4"
  shows "length (sockaddr_bytes port a) = sizeof_sockaddr_in" "sin_family (sockaddr_bytes port a) = AF_INET"
    "sin_port_host (sockaddr_bytes port a) = nat (port mod 65536)" "take 4 (drop 4 (sockaddr_bytes port a)) = a"
proof -
  show "length (sockaddr_bytes port a) = sizeof_sockaddr_in" "sin_family (sockaddr_bytes port a) = AF_INET"
    "take 4 (drop 4 (sockaddr_bytes port a)) = a"
    using assms by (simp_all add: sockaddr_bytes_def htons_bytes_def sizeof_sockaddr_in_def sin_family_def AF_INET_def)
  have u: "int (unat (word_of_int i :: byte)) = i mod 256" for i :: int
    by (simp add: unsigned_of_int take_bit_eq_mod)
  have "int (sin_port_host (sockaddr_bytes port a)) = 256 * (port div 256 mod 256) + port mod 256"
    using u [of "port div 256"] u [of port] by (simp add: sin_port_host_def sockaddr_bytes_def htons_bytes_def)
  also have "\<dots> = port mod 65536"
    using zmod_zmult2_eq [of 256 port 256] by simp
  finally show "sin_port_host (sockaddr_bytes port a) = nat (port mod 65536)" by linarith
qed

text \<open>A pooled buffer that is cut down to a size that fits into the object.\<close>

lemma resize_into_object:
  assumes "buf_inv xs out (bpool v)" and "kb_ok out k v" and "storage_tag k = TagPool"
    and "n \<le> kKernelBufSboSize" and "n \<noteq> kb_size k"
  shows "\<exists>k' v'. KernelBuf_Resize alloc t n (k, v) = Inr (k', v') \<and> storage_tag k' = TagSbo \<and> kb_size k' = n \<and>
    length (sbo_data k') = kKernelBufSboSize"
proof -
  obtain s' where d: "DestroyStorage t (k, v) = Inr (emptied k, v\<lparr>bpool := s'\<rparr>)"
    by (rule DestroyStorage_pool [OF assms(1-3) refl, of t])
  have len: "length (sbo_data k) = kKernelBufSboSize" "pool_alloc_size k = kb_size k"
    using assms(2,3) by (simp_all add: kb_ok_def)
  show ?thesis
    using assms(3-5) d len
    by (auto simp: KernelBuf_Resize_def AllocateStorage_def Let_def load_bytes_def store_bytes_def
        KernelBuf_Data_def split: data_ptr.split)
qed

lemma create_pooled:
  assumes "allocator_ok alloc" and "store_inv out used s" and "fst (Acquire alloc t (tpool s)) \<noteq> nullptr"
    and "fst (Allocate alloc t kDefaultBufferSize (bpool (kbw s))) \<noteq> nullptr"
    and "CreateTaskWithHandler alloc t sysnew fdn h s = (p, s')"
  obtains k xs' out' where "tasks s' p = Some (AsyncTask_construct fdn h k)" "storage_tag k = TagPool"
    "kb_size k = kDefaultBufferSize" "buf_inv xs' out' (bpool (kbw s'))" "kb_ok out' k (kbw s')" "p \<noteq> nullptr"
proof -
  obtain q tp where a: "Acquire alloc t (tpool s) = (q, tp)" by fastforce
  obtain b bp where al: "Allocate alloc t kDefaultBufferSize (bpool (kbw s)) = (b, bp)" by fastforce
  obtain out' where inv: "store_inv out' (insert p used) s'" using create_inv [OF assms(1,2,5,3)] by blast
  have s': "p = q" "tasks s' p = Some (AsyncTask_construct fdn h (fst (MakeKernelBuffer alloc t kDefaultBufferSize (kbw s))))"
    using assms(3,5) a by (auto simp: CreateTaskWithHandler_def AsyncTask_operator_new_def split: prod.splits)
  let ?k = "fst (MakeKernelBuffer alloc t kDefaultBufferSize (kbw s))"
  have k: "storage_tag ?k = TagPool" "kb_size ?k = kDefaultBufferSize"
    using assms(4) al by (simp_all add: MakeKernelBuffer_def KernelBuf_construct_def AllocateStorage_def size_consts Let_def)
  obtain xs' where "buf_inv xs' out' (bpool (kbw s'))" "kb_ok out' ?k (kbw s')"
    using inv s'(2) by (auto simp: store_inv_def task_ok_def AsyncTask_construct_def)
  with that s' k assms(3) a show ?thesis by auto
qed

lemma inet_ntop_any:
  assumes "length a = 4"
  shows "inet_ntop (drop 4 (sockaddr_bytes port a)) \<noteq> ''0.0.0.0'' \<longleftrightarrow> a \<noteq> [0, 0, 0, 0]"
proof
  assume "inet_ntop (drop 4 (sockaddr_bytes port a)) \<noteq> ''0.0.0.0''"
  moreover have "inet_ntop (drop 4 (sockaddr_bytes port [0, 0, 0, 0])) = ''0.0.0.0''"
    using show_nat_zero [of 0] by (simp add: inet_ntop_def sockaddr_bytes_def htons_bytes_def numeral_eq_Suc)
  ultimately show "a \<noteq> [0, 0, 0, 0]" by blast
qed (use inet_ntop_zero [of "drop 4 (sockaddr_bytes port a)"] sockaddr_fields [OF assms, of port]
    in \<open>auto simp: sizeof_sockaddr_in_def\<close>)

text \<open>A task whose buffer inside the object holds a socket address.\<close>

lemma validate_address:
  assumes "tasks (store w) p = Some tk" and "0 < fd tk" and "buffer tk = Some k" and "storage_tag k = TagSbo"
    and "kb_size k = 16" and "sbo_data k = sockaddr_bytes port a @ xs" and "length (sbo_data k) = kKernelBufSboSize"
    and a: "length a = 4"
  shows "ValidateConnectTask p w = Inr (port mod 65536 \<noteq> 0 \<and> a \<noteq> [0, 0, 0, 0])"
    and "kb_contents k (kbw (store w)) = sockaddr_bytes port a"
proof -
  note A = sockaddr_fields [OF a, of port]
  have load: "load_bytes (KernelBuf_Data k) 16 (k, v) = Inr (sockaddr_bytes port a)" for v
    using assms(4,6,7) A(1) by (simp add: load_bytes_def KernelBuf_Data_def sizeof_sockaddr_in_def)
  then show "kb_contents k (kbw (store w)) = sockaddr_bytes port a" using assms(5) by (simp add: kb_contents_def)
  have "port mod 65536 \<le> 0 \<longleftrightarrow> port mod 65536 = 0" using pos_mod_sign [of 65536 port] by linarith
  then show "ValidateConnectTask p w = Inr (port mod 65536 \<noteq> 0 \<and> a \<noteq> [0, 0, 0, 0])"
    using assms(1-3,5) load A(2,3) inet_ntop_any [OF a]
    by (simp add: ValidateConnectTask_def sizeof_sockaddr_in_def)
qed

lemma finalize_connect:
  assumes tk: "tasks (store w) p = Some tk" "0 < fd tk" "buffer tk = Some k" and k: "storage_tag k = TagPool" "kb_size k = kDefaultBufferSize"
    and inv: "buf_inv xs out (bpool (kbw (store w)))" "kb_ok out k (kbw (store w))" and a: "length a = 4"
  obtains w' k2 where "FinalizeConnectTask alloc t cl p (sockaddr_bytes port a) w = Inr (p, w')"
    "tasks (store w') p = Some (tk\<lparr>task_type := TypeConnect, timeout_ms := connect_timeout_ms (cl_config cl), buffer := Some k2\<rparr>)"
    "ValidateConnectTask p w' = Inr (port mod 65536 \<noteq> 0 \<and> a \<noteq> [0, 0, 0, 0])"
    "kb_contents k2 (kbw (store w')) = sockaddr_bytes port a"
proof -
  let ?addr = "sockaddr_bytes port a"
  have len: "length ?addr = 16" using sockaddr_fields(1) [OF a] by (simp add: sizeof_sockaddr_in_def)
  obtain k1 v1 where r: "KernelBuf_Resize alloc t (length ?addr) (k, kbw (store w)) = Inr (k1, v1)" "storage_tag k1 = TagSbo"
      "kb_size k1 = 16" "length (sbo_data k1) = kKernelBufSboSize"
    using resize_into_object [OF inv k(1), of "length ?addr" alloc t] k(2) len by (auto simp: size_consts)
  let ?k2 = "k1\<lparr>sbo_data := ?addr @ drop 16 (sbo_data k1)\<rparr>"
  let ?tk = "tk\<lparr>task_type := TypeConnect, timeout_ms := connect_timeout_ms (cl_config cl), buffer := Some ?k2\<rparr>"
  let ?w = "set_task p ?tk (w\<lparr>store := (store w)\<lparr>kbw := v1\<rparr>\<rparr>)"
  have "store_bytes (KernelBuf_Data k1) ?addr (k1, v1) = Inr (?k2, v1)"
    using r(2,4) len by (simp add: store_bytes_def KernelBuf_Data_def size_consts)
  then have f: "FinalizeConnectTask alloc t cl p ?addr w = Inr (p, ?w)"
    using tk r(1) by (simp add: FinalizeConnectTask_def task_setters modify_task_def resize_buffer_def store_buffer_def with_buffer_def
        put_buffer_def set_task_def)
  have "ValidateConnectTask p ?w = Inr (port mod 65536 \<noteq> 0 \<and> a \<noteq> [0, 0, 0, 0])" "kb_contents ?k2 (kbw (store ?w)) = ?addr"
    using validate_address [of ?w p ?tk ?k2 port a "drop 16 (sbo_data k1)"] r(2-4) tk(2) len a
    by (simp_all add: size_consts)
  with f show ?thesis by (intro that [of ?w ?k2]) simp_all
qed

text \<open>
  C28: Connecting. When the socket, the address and the memory are there, \<^verbatim>\<open>TcpClient::Connect\<close>
  returns a connect task on the new socket that carries exactly the address and the port asked
  for (cut to 16 bits) in its buffer and has the configured timeout; if the port is not 0 and
  the address not 0.0.0.0, the task passes the validation that \<^verbatim>\<open>IOHandler\<close> makes before it
  submits it.
\<close>

theorem connect_task_valid:
  assumes "allocator_ok alloc" and "store_inv out used (store w)" and "fst (Acquire alloc t (tpool (store w))) \<noteq> nullptr"
    and "fst (Allocate alloc t kDefaultBufferSize (bpool (kbw (store w)))) \<noteq> nullptr"
    and "0 < sys_socket api (net_calls nt)" and "inet_pton api ip = Some a" and "length a = 4"
  shows "\<exists>p cl' nt' w' tk. TcpClient_Connect api alloc t sysnew ip port h (cl, nt, w) = Inr (p, cl', nt', w') \<and>
    p \<noteq> nullptr \<and> tasks (store w') p = Some tk \<and> task_type tk = TypeConnect \<and>
    fd tk = sys_socket api (net_calls nt) \<and> timeout_ms tk = connect_timeout_ms (cl_config cl) \<and>
    open_fds nt' = open_fds nt @ [fd tk] \<and>
    ValidateConnectTask p w' = Inr (port mod 65536 \<noteq> 0 \<and> a \<noteq> [0, 0, 0, 0]) \<and>
    (\<exists>k. buffer tk = Some k \<and> kb_contents k (kbw (store w')) = sockaddr_bytes port a)"
proof -
  let ?s = "sys_socket api (net_calls nt)"
  let ?nt = "nt\<lparr>net_calls := net_calls nt + 1, open_fds := open_fds nt @ [?s]\<rparr>"
  have ps: "PrepareSocket api ip port (cl, nt) = (sockaddr_bytes port a, ?s, cl, ?nt)"
    using assms(5,6) by (simp add: PrepareSocket_def call_socket_def Let_def)
  obtain p st where c: "CreateTaskWithHandler alloc t sysnew ?s h (store w) = (p, st)" by fastforce
  obtain k xs' out' where k: "tasks st p = Some (AsyncTask_construct ?s h k)" "storage_tag k = TagPool"
    "kb_size k = kDefaultBufferSize" "buf_inv xs' out' (bpool (kbw st))" "kb_ok out' k (kbw st)" and p: "p \<noteq> nullptr"
    by (rule create_pooled [OF assms(1-4) c])
  let ?tk = "AsyncTask_construct ?s h k"
  have tk: "tasks (store (w\<lparr>store := st\<rparr>)) p = Some ?tk" "0 < fd ?tk" "buffer ?tk = Some k"
      "buf_inv xs' out' (bpool (kbw (store (w\<lparr>store := st\<rparr>))))" "kb_ok out' k (kbw (store (w\<lparr>store := st\<rparr>)))"
    using k assms(5) by (simp_all add: AsyncTask_construct_def)
  obtain w' k2 where f: "FinalizeConnectTask alloc t cl p (sockaddr_bytes port a) (w\<lparr>store := st\<rparr>) = Inr (p, w')"
      "tasks (store w') p = Some (?tk\<lparr>task_type := TypeConnect, timeout_ms := connect_timeout_ms (cl_config cl), buffer := Some k2\<rparr>)"
      "ValidateConnectTask p w' = Inr (port mod 65536 \<noteq> 0 \<and> a \<noteq> [0, 0, 0, 0])"
      "kb_contents k2 (kbw (store w')) = sockaddr_bytes port a"
    by (rule finalize_connect [OF tk(1-3) k(2,3) tk(4,5) assms(7)])
  have "TcpClient_Connect api alloc t sysnew ip port h (cl, nt, w) = Inr (p, cl, ?nt, w')"
    using assms(5) by (simp add: TcpClient_Connect_def ps c f(1))
  then show ?thesis
    using f(2-4) p by (auto simp: AsyncTask_construct_def)
qed

lemma demo_store_buffer: "fst (Allocate tight_alloc 0 2048 (bpool (kbw demo_store))) \<noteq> nullptr"
  by (simp add: demo_store_def empty_store_def buf_eval)

theorem connect_task_valid_witness:
  "\<exists>p cl' nt' w'. TcpClient_Connect demo_net_api tight_alloc 0 0 ''127.0.0.1'' 8080 7
      (TcpClient_construct (default_config 4096), \<lparr>open_fds = [], reuse_addr = [], net_calls = 0\<rparr>, (demo_world id 0 0)\<lparr>store := demo_store\<rparr>) =
      Inr (p, cl', nt', w') \<and> open_fds nt' = [3] \<and> ValidateConnectTask p w' = Inr True"
proof -
  let ?w = "(demo_world id 0 0)\<lparr>store := demo_store\<rparr>" and ?nt = "\<lparr>open_fds = [], reuse_addr = [], net_calls = 0\<rparr>"
  obtain out used where inv: "store_inv out used (store ?w)"
    using store_reach_inv [OF tight_alloc_ok demo_store_reach] by auto
  have "kDefaultBufferSize = 2048" by (simp add: size_consts)
  then show ?thesis
    using connect_task_valid [OF tight_alloc_ok inv, of 0 demo_net_api ?nt "''127.0.0.1''" "[127, 0, 0, 1]" 0 8080 7
        "TcpClient_construct (default_config 4096)"] demo_store_memory demo_store_buffer
    by (auto simp: demo_net_api_def)
qed

end
