(* ===== verification/Programs.thy ===== *)
theory Programs
  imports Io_Defects
begin

text \<open>
  Programs on top of the library, as the examples have them: handlers that create, configure, fill
  and submit tasks. What one call of such a handler does to the world, when the ring drains, the
  limit leaves room and the memory lasts.
\<close>

section \<open>Programs that make tasks\<close>

primrec set_all :: "ptr \<Rightarrow> task_setting list \<Rightarrow> cb_prog \<Rightarrow> cb_prog" where
  "set_all q [] prog = prog"
| "set_all q (c # cs) prog = Call (SetCall q c) (\<lambda>_. set_all q cs prog)"

definition add_then :: "ptr \<Rightarrow> cb_prog \<Rightarrow> cb_prog" where
  "add_then q prog = Call (AddCall q) (\<lambda>_. prog)"

text \<open>The bytes of a string literal.\<close>

definition to_bytes :: "string \<Rightarrow> byte list" where "to_bytes s = map of_char s"

section \<open>Running them\<close>

lemma set_task_same: "tasks (store w) q = Some tk \<Longrightarrow> set_task q tk w = w"
  by (simp add: set_task_def fun_upd_idem)

lemma run_set_all:
  "tasks (store w) q = Some tk \<Longrightarrow>
     run_cb E add p (set_all q cs prog) w = run_cb E add p prog (set_task q (fold apply_setting cs tk) w)"
proof (induction cs arbitrary: w tk)
  case Nil
  then show ?case by (simp add: set_task_same)
next
  case (Cons c cs)
  then show ?case using Cons.IH [of "set_task q (apply_setting c tk) w"] by (simp add: modify_task_def)
qed

lemma construct_offset: "kb_offset (fst (MakeKernelBuffer alloc t n v)) = 0"
  by (simp add: MakeKernelBuffer_def KernelBuf_construct_def AllocateStorage_def storage_heap_def kb_fresh_def
      Let_def split_beta)

lemma construct_tag: "storage_tag (fst (MakeKernelBuffer alloc t n v)) \<noteq> TagNone"
  by (simp add: MakeKernelBuffer_def KernelBuf_construct_def AllocateStorage_def storage_heap_def Let_def split_beta)

lemma create_task_world:
  assumes "allocator_ok (env_alloc E)" and "store_inv out used (store w)"
    and "fst (Acquire (env_alloc E) (env_tid E) (tpool (store w))) \<noteq> nullptr"
  obtains q s k out' where "create_task E c h w = (q, w\<lparr>store := s\<rparr>)" "q \<noteq> nullptr" "tasks (store w) q = None"
    "tasks s = (tasks (store w))(q \<mapsto> AsyncTask_construct c h k)" "kb_size k = kDefaultBufferSize" "kb_offset k = 0"
    "store_inv out' (insert q used) s"
    "k = fst (MakeKernelBuffer (env_alloc E) (env_tid E) kDefaultBufferSize (kbw (store w)))"
proof -
  obtain q s where c: "CreateTaskWithHandler (env_alloc E) (env_tid E) (env_sysnew E) c h (store w) = (q, s)" by fastforce
  let ?k = "fst (MakeKernelBuffer (env_alloc E) (env_tid E) kDefaultBufferSize (kbw (store w)))"
  have q: "q = fst (Acquire (env_alloc E) (env_tid E) (tpool (store w)))"
      "tasks s = (tasks (store w))(q \<mapsto> AsyncTask_construct c h ?k)"
    using c assms(3) by (auto simp: CreateTaskWithHandler_def AsyncTask_operator_new_def split: prod.splits)
  obtain k out' where k: "tasks (store w) q = None" "store_inv out' (insert q used) s" "kb_size k = kDefaultBufferSize"
      "tasks s = (tasks (store w))(q \<mapsto> AsyncTask_construct c h k)"
    using create_inv [OF assms(1,2) c assms(3)] by blast
  have "AsyncTask_construct c h k = AsyncTask_construct c h ?k"
    using fun_cong [OF trans [OF k(4) [symmetric] q(2)], of q] by simp
  then have "k = ?k" by (simp add: AsyncTask_construct_def)
  then show ?thesis
    using that [of q s k out'] k q(1) c assms(3) construct_offset by (simp add: create_task_def)
qed

text \<open>An allocator that never fails: tasks get memory, and the buffers they are created with are pooled.\<close>

definition abundant :: "allocator \<Rightarrow> bool" where
  "abundant alloc \<longleftrightarrow> (\<forall>sz live. alloc 64 sz live \<noteq> nullptr)"

lemma abundant_bump: "abundant bump_alloc"
  using fold_max_ge [of 1] by (simp add: abundant_def bump_alloc_def Let_def div_greater_zero_iff)

lemma abundant_acquire:
  assumes "abundant alloc" and "allocator_ok alloc" and "pool_inv xs used s"
  shows "fst (Acquire alloc t s) \<noteq> nullptr"
  using Acquire_null [OF assms(2,3)] assms(1) by (simp add: abundant_def)

lemma abundant_task:
  assumes "abundant alloc" and "allocator_ok alloc" and "store_inv out used s"
  shows "fst (Acquire alloc t (tpool s)) \<noteq> nullptr"
  using assms abundant_acquire by (auto simp: store_inv_def)

lemma abundant_buffer:
  assumes "abundant alloc" and "allocator_ok alloc" and "store_inv out used s"
  shows "storage_tag (fst (MakeKernelBuffer alloc t kDefaultBufferSize (kbw s))) = TagPool"
proof -
  obtain xs where "buf_inv xs out (bpool (kbw s))" using assms(3) by (auto simp: store_inv_def)
  then have "fst (Allocate alloc t kDefaultBufferSize (bpool (kbw s))) \<noteq> nullptr"
    using allocate_null_iff [OF assms(2)] assms(1) by (simp add: abundant_def size_consts Let_def)
  then show ?thesis
    by (simp add: MakeKernelBuffer_def KernelBuf_construct_def AllocateStorage_def size_consts split_beta Let_def)
qed

text \<open>A call of \<^verbatim>\<open>AddTask\<close> from a handler when the ring drains and the limit leaves room.\<close>

definition room :: "int \<Rightarrow> io_world \<Rightarrow> bool" where
  "room n w \<longleftrightarrow> max_inflight_ops (config w) \<le> 0 \<or> inflight w + n \<le> max_inflight_ops (config w)"

lemma room_not_full: "room 1 w \<Longrightarrow> \<not> BackpressureActive w"
  by (auto simp: room_def BackpressureActive_def)

definition submitted :: "io_env \<Rightarrow> ptr \<Rightarrow> AsyncTask \<Rightarrow> KernelBuf \<Rightarrow> io_world \<Rightarrow> io_world" where
  "submitted E q tk k w =
     AutoFlush E (with_entries [\<lparr>sqe_op = task_op tk k, sqe_user_data = task_word q, sqe_link = False\<rparr>]
       (set_task q ((in_flight tk)\<lparr>user_data := task_word q\<rparr>) (w\<lparr>inflight := inflight w + 1\<rparr>)))"

lemma submitted_fields [simp]:
  "tasks (store (submitted E q tk k w)) = (tasks (store w))(q \<mapsto> (in_flight tk)\<lparr>user_data := task_word q\<rparr>)"
  "kbw (store (submitted E q tk k w)) = kbw (store w)" "inflight (submitted E q tk k w) = inflight w + 1"
  "config (submitted E q tk k w) = config w" "invoked (submitted E q tk k w) = invoked w"
  "closed_fds (submitted E q tk k w) = closed_fds w"
  "entries (uring (submitted E q tk k w)) = entries (uring w) @
     [\<lparr>sqe_op = task_op tk k, sqe_user_data = task_word q, sqe_link = False\<rparr>]"
  unfolding submitted_def entries_flush by simp_all

lemma submitted_more [simp]:
  "removed (submitted E q tk k w) = removed w" "counters (submitted E q tk k w) = counters w"
  "shutdown_requested (submitted E q tk k w) = shutdown_requested w"
  by (simp_all add: submitted_def AutoFlush_def submit_def with_entries_def set_task_def)

lemma set_task_more [simp]:
  "removed (set_task q tk w) = removed w" "counters (set_task q tk w) = counters w"
  by (simp_all add: set_task_def)

lemma submitted_sq: "flushing E \<Longrightarrow> sq (uring (submitted E q tk k w)) = []"
  using flush_drains by (simp add: submitted_def)

lemma submitted_store:
  "store (submitted E q tk k w) = (store w)\<lparr>tasks := (tasks (store w))(q \<mapsto> (in_flight tk)\<lparr>user_data := task_word q\<rparr>)\<rparr>"
  by (simp add: submitted_def set_task_def)

lemma submitted_inv:
  assumes "store_inv out used (store w)" and "tasks (store w) q = Some tk0" and "buffer tk = buffer tk0"
  shows "store_inv out used (store (submitted E q tk k w))"
  using store_inv_upd [OF assms(1,2)] assms(3) by (simp add: submitted_store)

lemma AddTask_submitted:
  assumes "tasks (store w) q = Some tk" and "q \<noteq> nullptr" and "task_state tk \<noteq> StateSubmitted" and "room 1 w"
    and "buffer tk = Some k" and "flushing E" and "sq (uring w) = []"
    and "task_type tk \<in> {TypeRead, TypeWrite, TypeAccept}" and "timeout_ms tk \<le> 0"
  shows "AddTask (Suc n) E q w = Inr (True, submitted E q tk k w)" "sq (uring (submitted E q tk k w)) = []"
  using AddTask_entry [OF assms(1-3) room_not_full [OF assms(4)] assms(5) _ assms(8,9), of E n] assms(6,7) flush_drains
  by (simp_all add: submitted_def flushing_def)

text \<open>After the handler of a task that repeats: the task goes back into the ring.\<close>

lemma repeat_world:
  assumes "pending w p tk k" and "0 \<le> res" and "p \<noteq> nullptr"
    and "handler_run E (AddTask (Suc n) E) p tk k res w = Inr w2" and tk2: "tasks (store w2) p = Some tk2"
    "repeat_forever tk2" "next_task tk2 = nullptr" "buffer tk2 = Some k2"
    "task_type tk2 \<in> {TypeRead, TypeWrite, TypeAccept}" "timeout_ms tk2 \<le> 0"
    and "room 1 w2" and "flushing E" and "sq (uring w2) = []"
  shows "DispatchCqe spins E (AddTask (Suc n) E) p EventNone res w =
    Inr ((submitted E p (SetTaskState StateSuccess tk2) k2 w2)\<lparr>inflight := inflight w2\<rparr>)"
proof -
  have tk: "tasks (store w) p = Some tk" using assms(1) by (simp add: pending_def)
  have x: "ExecuteCompletionHandler E (AddTask (Suc n) E) p (recorded p tk k res w) = Inr w2"
    using assms(4) by (simp add: execute_recorded)
  let ?tk3 = "SetTaskState StateSuccess tk2"
  have a: "AddTask (Suc n) E p (set_task p ?tk3 w2) = Inr (True, submitted E p ?tk3 k2 (set_task p ?tk3 w2))"
    by (rule AddTask_submitted) (use assms in \<open>simp_all add: task_setters room_def\<close>)
  have s: "submitted E p ?tk3 k2 (set_task p ?tk3 w2) = submitted E p ?tk3 k2 w2"
    by (simp add: submitted_def set_task_inflight [symmetric])
  have "HandleNormalEvent spins E (AddTask (Suc n) E) p res w = Inr (submitted E p ?tk3 k2 w2)"
    using assms(2) tk2 a s
    by (simp add: HandleNormalEvent_succeeded [OF tk record_pending [OF assms(1)] _ x tk2(1)]
        repeat_or_detach_def complete_last_def add_next_def task_setters)
  then show ?thesis by (simp add: dispatch_normal [OF assms(1)])
qed

lemma submitted_set_task [simp]: "submitted E q tk k (set_task q tk2 w) = submitted E q tk k w"
  by (simp add: submitted_def set_task_inflight [symmetric])

text \<open>
  A handler that has made and submitted one task at \<^verbatim>\<open>q\<close>, run for a task that repeats: the entries
  that the dispatch leaves are those of the two tasks.
\<close>

lemma record_result_facts [simp]:
  "io_value (record_result c res k) = res" "io_fd (record_result c res k) = c"
  "KernelBuf_Data (record_result c res k) = KernelBuf_Data k" "kb_size (record_result c res k) = kb_size k"
  "load_bytes d n (record_result c res k, v) = load_bytes d n (k, v)" "kb_offset (record_result c res k) = kb_offset k"
  by (simp_all add: record_result_def SetActiveFileDescriptor_def SetBytesTransferred_def KernelBuf_Data_def
      load_bytes_def split: StorageTag.split data_ptr.split)

lemma submit_and_repeat:
  assumes pen: "pending w p tk k" and res: "0 \<le> res" "p \<noteq> nullptr" and E: "flushing E" "room 2 w"
    and run: "handler_run E (AddTask (Suc n) E) p tk k res w = Inr (submitted E q tq kq (w\<lparr>store := s, invoked := hist\<rparr>))"
    and q: "q \<noteq> p" "tasks s = (tasks (store w))(p \<mapsto> tk\<lparr>buffer := Some (record_result (fd tk) res k)\<rparr>, q \<mapsto> t0)"
      "buffer tq = buffer t0" "store_inv out' used' s"
    and tk: "repeat_forever tk" "next_task tk = nullptr" "timeout_ms tk \<le> 0" "task_type tk \<in> {TypeRead, TypeWrite, TypeAccept}"
  obtains w' where "DispatchCqe spins E (AddTask (Suc n) E) p EventNone res w = Inr w'"
    "entries (uring w') = entries (uring w) @
      [\<lparr>sqe_op = task_op tq kq, sqe_user_data = task_word q, sqe_link = False\<rparr>,
       \<lparr>sqe_op = task_op tk k, sqe_user_data = task_word p, sqe_link = False\<rparr>]"
    "inflight w' = inflight w + 1" "invoked w' = hist" "closed_fds w' = closed_fds w"
    "tasks (store w') q = Some ((in_flight tq)\<lparr>user_data := task_word q\<rparr>)"
    "dom (tasks (store w')) = insert q (dom (tasks (store w)))" "store_inv out' used' (store w')" "kbw (store w') = kbw s"
proof -
  let ?v = "w\<lparr>store := s, invoked := hist\<rparr>"
  let ?w2 = "submitted E q tq kq ?v"
  let ?k2 = "record_result (fd tk) res k"
  let ?tk2 = "tk\<lparr>buffer := Some ?k2\<rparr>"
  let ?tp = "SetTaskState StateSuccess ?tk2"
  let ?w' = "(submitted E p ?tp ?k2 ?w2)\<lparr>inflight := inflight ?w2\<rparr>"
  have p: "tasks (store w) p = Some tk" using pen by (simp add: pending_def)
  have "DispatchCqe spins E (AddTask (Suc n) E) p EventNone res w = Inr ?w'"
    by (rule repeat_world [OF pen res run, of ?tk2]) (use q(1,2) E tk in \<open>auto simp: submitted_sq room_def\<close>)
  moreover have "task_op ?tp ?k2 = task_op tk k"
    by (simp add: task_op.simps task_setters split: TaskType.split)
  then have "entries (uring ?w') = entries (uring w) @
      [\<lparr>sqe_op = task_op tq kq, sqe_user_data = task_word q, sqe_link = False\<rparr>,
       \<lparr>sqe_op = task_op tk k, sqe_user_data = task_word p, sqe_link = False\<rparr>]"
    using submitted_fields(7) [of E p ?tp ?k2 ?w2] submitted_fields(7) [of E q tq kq ?v]
    by (simp del: submitted_fields(7))
  moreover have "store_inv out' used' (store ?w')"
    using q submitted_inv [of out' used' ?v q t0 tq E kq] submitted_inv [of out' used' ?w2 p ?tk2 ?tp E ?k2]
    by (simp add: task_setters)
  moreover have "dom (tasks (store ?w')) = insert q (dom (tasks (store w)))" using q(2) p by auto
  ultimately show thesis
    using that [of ?w'] q(1) by simp
qed

section \<open>Tasks for short messages\<close>

text \<open>The buffer of a message that fits into the object.\<close>

definition message_buf :: "byte list \<Rightarrow> KernelBuf" where
  "message_buf bs = kb_fresh\<lparr>kb_size := length bs, storage_tag := TagSbo,
     sbo_data := bs @ replicate (kKernelBufSboSize - length bs) 0\<rparr>"

text \<open>A buffer whose bytes are in the object: it is well formed in every world and shares nothing.\<close>

definition in_object :: "KernelBuf \<Rightarrow> bool" where
  "in_object k \<longleftrightarrow> storage_tag k = TagSbo \<and> heap_vec k = None \<and> length (sbo_data k) = kKernelBufSboSize \<and>
     kb_size k \<le> kKernelBufSboSize"

lemma in_object_ok:
  assumes "in_object k"
  shows "kb_ok out k v" "bufs_apart k l" "KernelBuf_Data k = DSbo" "storage_tag k \<noteq> TagNone"
  using assms by (simp_all add: in_object_def kb_ok_def bufs_apart_def KernelBuf_Data_def)

lemma message_buf_facts:
  assumes "length bs \<le> kKernelBufSboSize"
  shows "in_object (message_buf bs)" "kb_contents (message_buf bs) v = bs"
    "kb_size (message_buf bs) = length bs" "kb_offset (message_buf bs) = 0"
  using assms by (simp_all add: message_buf_def kb_defs kb_fresh_def in_object_def)

lemma make_message:
  assumes "length bs \<le> kKernelBufSboSize"
  shows "fst (MakeKernelBuffer alloc t (length bs) v) = kb_fresh\<lparr>kb_size := length bs, storage_tag := TagSbo\<rparr>"
    "snd (MakeKernelBuffer alloc t (length bs) v) = v"
    "store_bytes DSbo bs (kb_fresh\<lparr>kb_size := length bs, storage_tag := TagSbo\<rparr>, v) = Inr (message_buf bs, v)"
  using assms
  by (simp_all add: MakeKernelBuffer_def KernelBuf_construct_def AllocateStorage_def kb_fresh_def store_bytes_def message_buf_def)

lemma replace_buffer_inv:
  assumes inv: "store_inv out used s" and tk: "tasks s q = Some tk" "buffer tk = Some k"
  obtains v out' where "KernelBuf_destroy t (k, kbw s) = Inr v"
    "\<forall>k1 tk1. in_object k1 \<longrightarrow> buffer tk1 = Some k1 \<longrightarrow> store_inv out' used (s\<lparr>kbw := v, tasks := (tasks s)(q \<mapsto> tk1)\<rparr>)"
proof -
  obtain xs where b: "buf_inv xs out (bpool (kbw s))" and ok: "kb_ok out k (kbw s)"
    using inv tk by (auto simp: store_inv_def task_ok_def)
  obtain v out' xs' where d: "KernelBuf_destroy t (k, kbw s) = Inr v" "buf_inv xs' out' (bpool v)"
      "\<And>l. kb_ok out l (kbw s) \<Longrightarrow> bufs_apart k l \<Longrightarrow> kb_ok out' l v"
    using destroy_world [OF b ok, of t] by blast
  have others: "task_ok out' used v r u" if "r \<noteq> q" "tasks s r = Some u" for r u
    using inv tk that d(3) unfolding store_inv_def task_ok_def tasks_apart_def by metis
  have used: "q \<in> used" using inv tk by (auto simp: store_inv_def task_ok_def)
  have "store_inv out' used (s\<lparr>kbw := v, tasks := (tasks s)(q \<mapsto> tk1)\<rparr>)" if k1: "in_object k1" "buffer tk1 = Some k1" for k1 tk1
  proof -
    have "tasks_apart ((tasks s)(q \<mapsto> tk1))"
      by (rule tasks_apart_upd) (use inv k1 in_object_ok(2) in \<open>auto simp: store_inv_def\<close>)
    then show ?thesis
      using inv d(2) others used k1 in_object_ok(1) by (auto simp: store_inv_def task_ok_def)
  qed
  then show thesis using that d(1) by blast
qed

lemma create_filled_world:
  assumes "allocator_ok (env_alloc E)" and "store_inv out used (store w)"
    and "fst (Acquire (env_alloc E) (env_tid E) (tpool (store w))) \<noteq> nullptr" and "length bs \<le> kKernelBufSboSize"
  obtains q s out' where "create_filled E c h bs w = Inr (q, w\<lparr>store := s\<rparr>)" "q \<noteq> nullptr" "tasks (store w) q = None"
    "tasks s = (tasks (store w))(q \<mapsto> AsyncTask_construct c h (message_buf bs))" "store_inv out' (insert q used) s"
proof -
  obtain q s k out1 where c: "create_task E c h w = (q, w\<lparr>store := s\<rparr>)" "q \<noteq> nullptr" "tasks (store w) q = None"
    "tasks s = (tasks (store w))(q \<mapsto> AsyncTask_construct c h k)" "store_inv out1 (insert q used) s"
    by (rule create_task_world [OF assms(1-3), of c h])
  let ?tk = "AsyncTask_construct c h k"
  have q: "tasks s q = Some ?tk" "buffer ?tk = Some k" using c(4) by (simp_all add: AsyncTask_construct_def)
  obtain v out' where d: "KernelBuf_destroy (env_tid E) (k, kbw s) = Inr v"
    "\<forall>k1 tk1. in_object k1 \<longrightarrow> buffer tk1 = Some k1 \<longrightarrow>
       store_inv out' (insert q used) (s\<lparr>kbw := v, tasks := (tasks s)(q \<mapsto> tk1)\<rparr>)"
    by (rule replace_buffer_inv [OF c(5) q, of "env_tid E"])
  let ?s = "s\<lparr>kbw := v, tasks := (tasks s)(q \<mapsto> ?tk\<lparr>buffer := Some (message_buf bs)\<rparr>)\<rparr>"
  have "create_filled E c h bs w = Inr (q, w\<lparr>store := ?s\<rparr>)"
    using make_message [OF assms(4)] c(1) q d(1)
    by (simp add: create_filled_def split_beta KernelBuf_Data_def SetBuffer_def reset_buffer_def set_task_def)
  moreover have "tasks ?s = (tasks (store w))(q \<mapsto> AsyncTask_construct c h (message_buf bs))"
    using c(4) by (simp add: AsyncTask_construct_def)
  moreover have "store_inv out' (insert q used) ?s"
    using d(2) message_buf_facts(1) [OF assms(4)] by simp
  ultimately show thesis using that [of q ?s out'] c(2,3) by simp
qed

section \<open>Buffers of another size\<close>

text \<open>Settings that leave the buffer of the task alone.\<close>

fun plain_setting :: "task_setting \<Rightarrow> bool" where
  "plain_setting (FdOffsetIs off) = False"
| "plain_setting _ = True"

lemma plain_settings:
  assumes "\<forall>c \<in> set cs. plain_setting c"
  shows "buffer (fold apply_setting cs t) = buffer t"
    and "fold apply_setting cs (t\<lparr>buffer := b\<rparr>) = (fold apply_setting cs t)\<lparr>buffer := b\<rparr>"
proof -
  have one: "buffer (apply_setting c t) = buffer t \<and> apply_setting c (t\<lparr>buffer := b\<rparr>) = (apply_setting c t)\<lparr>buffer := b\<rparr>"
    if "plain_setting c" for c t b
    using that by (cases c) (simp_all add: apply_setting_def task_setters)
  show "buffer (fold apply_setting cs t) = buffer t" using assms by (induction cs arbitrary: t) (simp_all add: one)
  show "fold apply_setting cs (t\<lparr>buffer := b\<rparr>) = (fold apply_setting cs t)\<lparr>buffer := b\<rparr>"
    using assms by (induction cs arbitrary: t) (simp_all add: one)
qed

text \<open>\<^verbatim>\<open>Resize\<close> of a pooled buffer to a size that fits into the object.\<close>

lemma resize_pooled_small:
  assumes "storage_tag k = TagPool" and "heap_vec k = None" and "length (sbo_data k) = kKernelBufSboSize"
    and "n \<le> kKernelBufSboSize" and "n < kb_size k" and "KernelBuf_destroy t (k, v) = Inr v'"
    and "pool_alloc_size k = kb_size k"
  shows "\<exists>k'. KernelBuf_Resize alloc t n (k, v) = Inr (k', v') \<and> in_object k' \<and> kb_size k' = n \<and> kb_offset k' = kb_offset k"
proof -
  obtain k1 where d: "DestroyStorage t (k, v) = Inr (k1, v')" "heap_vec k1 = None" "kb_offset k1 = kb_offset k"
    using assms(1,2,6)
    by (auto simp: KernelBuf_destroy_def DestroyStorage_def vec_destroy_def split: option.splits if_splits)
  let ?k2 = "k1\<lparr>storage_tag := TagSbo, sbo_data := replicate kKernelBufSboSize 0, kb_size := n\<rparr>"
  have a: "AllocateStorage alloc t n (k1, v') = (?k2, v')" using assms(4) by (simp add: AllocateStorage_def)
  show ?thesis
  proof (cases "KernelBuf_Data k \<noteq> DNull \<and> 0 < n")
    case True
    then obtain xs where l: "load_bytes (KernelBuf_Data k) n (?k2, v') = Inr xs" "length xs = n"
      using assms(1,5,7) by (auto simp: KernelBuf_Data_def load_bytes_def split: if_splits)
    let ?k3 = "?k2\<lparr>sbo_data := xs @ replicate (kKernelBufSboSize - n) 0\<rparr>"
    have "store_bytes (KernelBuf_Data ?k2) xs (?k2, v') = Inr (?k3, v')"
      using l(2) assms(4) by (simp add: store_bytes_def KernelBuf_Data_def)
    then have "KernelBuf_Resize alloc t n (k, v) = Inr (?k3, v')"
      using True l assms(1,5) by (simp add: KernelBuf_Resize_def d(1) a Let_def)
    then show ?thesis using d(2,3) assms(4) l(2) by (intro exI [of _ ?k3]) (simp add: in_object_def)
  next
    case False
    then have "KernelBuf_Resize alloc t n (k, v) = Inr (?k2, v')"
      using assms(1,5) by (auto simp: KernelBuf_Resize_def d(1) a Let_def)
    then show ?thesis using d(2,3) assms(4) by (intro exI [of _ ?k2]) (simp add: in_object_def)
  qed
qed

text \<open>A handler that creates a task, configures it and resizes its buffer.\<close>

lemma create_resized:
  assumes E: "allocator_ok (env_alloc E)" "abundant (env_alloc E)" and inv: "store_inv out used (store w)"
    and cs: "\<forall>d \<in> set cs. plain_setting d" and n: "n \<le> kKernelBufSboSize"
  obtains q s k out' where "run_cb E add p (Call (CreateCall c h) (\<lambda>q. set_all q cs (Call (ResizeCall q n) (\<lambda>_. prog q)))) w =
      run_cb E add p (prog q) (w\<lparr>store := s\<rparr>)"
    "q \<noteq> nullptr" "tasks (store w) q = None"
    "tasks s = (tasks (store w))(q \<mapsto> fold apply_setting cs (AsyncTask_construct c h k))"
    "store_inv out' (insert q used) s" "in_object k" "kb_size k = n" "kb_offset k = 0"
proof -
  obtain q s k out1 where c: "create_task E c h w = (q, w\<lparr>store := s\<rparr>)" "q \<noteq> nullptr" "tasks (store w) q = None"
    "tasks s = (tasks (store w))(q \<mapsto> AsyncTask_construct c h k)" "kb_size k = kDefaultBufferSize" "kb_offset k = 0"
    "store_inv out1 (insert q used) s"
    "k = fst (MakeKernelBuffer (env_alloc E) (env_tid E) kDefaultBufferSize (kbw (store w)))"
    by (rule create_task_world [OF E(1) inv abundant_task [OF E(2,1) inv]])
  let ?t = "AsyncTask_construct c h k"
  let ?t1 = "fold apply_setting cs ?t"
  have tq: "tasks s q = Some ?t" "buffer ?t = Some k" using c(4) by (simp_all add: AsyncTask_construct_def)
  have pool: "storage_tag k = TagPool" using abundant_buffer [OF E(2,1) inv] c(8) by simp
  have "kb_ok out1 k (kbw s)" using c(7) tq by (auto simp: store_inv_def task_ok_def)
  then have ok: "heap_vec k = None" "length (sbo_data k) = kKernelBufSboSize" "pool_alloc_size k = kb_size k"
    using pool by (simp_all add: kb_ok_def)
  obtain v out' where d: "KernelBuf_destroy (env_tid E) (k, kbw s) = Inr v"
    "\<forall>k1 tk1. in_object k1 \<longrightarrow> buffer tk1 = Some k1 \<longrightarrow>
       store_inv out' (insert q used) (s\<lparr>kbw := v, tasks := (tasks s)(q \<mapsto> tk1)\<rparr>)"
    by (rule replace_buffer_inv [OF c(7) tq, of "env_tid E"])
  have "n < kb_size k" using n c(5) by (simp add: size_consts)
  then obtain k1 where k1: "KernelBuf_Resize (env_alloc E) (env_tid E) n (k, kbw s) = Inr (k1, v)" "in_object k1"
      "kb_size k1 = n" "kb_offset k1 = 0"
    using resize_pooled_small [OF pool ok(1,2) n _ d(1) ok(3), of "env_alloc E"] c(6) by auto
  have b: "buffer ?t1 = Some k" "?t1\<lparr>buffer := Some k1\<rparr> = fold apply_setting cs (AsyncTask_construct c h k1)"
    using plain_settings(1) [OF cs] tq(2) plain_settings(2) [OF cs, symmetric] by (simp_all add: AsyncTask_construct_def)
  let ?s = "s\<lparr>kbw := v, tasks := (tasks s)(q \<mapsto> fold apply_setting cs (AsyncTask_construct c h k1))\<rparr>"
  have "resize_buffer (env_alloc E) (env_tid E) q n (set_task q ?t1 (w\<lparr>store := s\<rparr>)) = Inr (w\<lparr>store := ?s\<rparr>)"
    using k1(1) b by (simp add: resize_buffer_def with_buffer_def put_buffer_def set_task_def)
  then have "run_cb E add p (Call (CreateCall c h) (\<lambda>q. set_all q cs (Call (ResizeCall q n) (\<lambda>_. prog q)))) w =
      run_cb E add p (prog q) (w\<lparr>store := ?s\<rparr>)"
    using c(1) run_set_all [of "w\<lparr>store := s\<rparr>" q ?t] tq(1) by (simp del: set_all.simps)
  moreover have "buffer (fold apply_setting cs (AsyncTask_construct c h k1)) = Some k1"
    using plain_settings(1) [OF cs] by (simp add: AsyncTask_construct_def)
  then have "store_inv out' (insert q used) ?s" using d(2) k1(2) by simp
  ultimately show thesis using that [of q ?s k1 out'] c(2-4) k1(2-4) by simp
qed

text \<open>Filling a buffer in the object, and what that leaves of the ownership invariant.\<close>

lemma store_in_object:
  assumes "in_object k" and "length bs = kb_size k"
  obtains k1 where "\<And>v. store_bytes (KernelBuf_Data k) bs (k, v) = Inr (k1, v)" "in_object k1" "kb_size k1 = length bs"
    "kb_offset k1 = kb_offset k" "\<And>v. kb_contents k1 v = bs"
proof -
  let ?k = "k\<lparr>sbo_data := bs @ drop (length bs) (sbo_data k)\<rparr>"
  have "store_bytes (KernelBuf_Data k) bs (k, v) = Inr (?k, v)" "kb_contents ?k v = bs" for v
    using assms by (simp_all add: in_object_def kb_defs)
  moreover have "in_object ?k" "kb_size ?k = length bs" using assms by (simp_all add: in_object_def)
  ultimately show thesis using that [of ?k] by simp
qed

lemma store_inv_in_object:
  assumes inv: "store_inv out used s" and "tasks s q = Some tk" and k: "buffer tk1 = Some k" "in_object k"
  shows "store_inv out used (s\<lparr>tasks := (tasks s)(q \<mapsto> tk1)\<rparr>)"
proof -
  have "tasks_apart ((tasks s)(q \<mapsto> tk1))"
    by (rule tasks_apart_upd) (use inv k in_object_ok(2) in \<open>auto simp: store_inv_def\<close>)
  then show ?thesis using assms in_object_ok(1) by (auto simp: store_inv_def task_ok_def)
qed

section \<open>Submitting what was created\<close>

text \<open>A task that \<^verbatim>\<open>AddTask\<close> submits with one entry.\<close>

definition ready :: "AsyncTask \<Rightarrow> bool" where
  "ready tk \<longleftrightarrow> task_state tk \<noteq> StateSubmitted \<and> task_type tk \<in> {TypeRead, TypeWrite, TypeAccept} \<and> timeout_ms tk \<le> 0"

lemma add_created:
  assumes "tasks (store w) q = Some tk" and "buffer tk = Some k" and "ready tk" and "q \<noteq> nullptr" and "room 1 w"
    and "sq (uring w) = []" and "flushing E"
  shows "run_cb E (AddTask (Suc n) E) p (add_then q prog) w = run_cb E (AddTask (Suc n) E) p prog (submitted E q tk k w)"
    and "run_cb E (AddTask (Suc n) E) p (Call (AddCall q) f) w = run_cb E (AddTask (Suc n) E) p (f 1) (submitted E q tk k w)"
proof -
  have "AddTask (Suc n) E q w = Inr (True, submitted E q tk k w)"
    by (rule AddTask_submitted(1)) (use assms in \<open>simp_all add: ready_def\<close>)
  then show "run_cb E (AddTask (Suc n) E) p (add_then q prog) w = run_cb E (AddTask (Suc n) E) p prog (submitted E q tk k w)"
    and "run_cb E (AddTask (Suc n) E) p (Call (AddCall q) f) w = run_cb E (AddTask (Suc n) E) p (f 1) (submitted E q tk k w)"
    by (simp_all add: add_then_def)
qed

text \<open>A handler that creates, configures and submits a task with the buffer it was created with.\<close>

lemma reader_submitted_call:
  assumes E: "allocator_ok (env_alloc E)" "flushing E" and inv: "store_inv out used (store w)"
    and mem: "fst (Acquire (env_alloc E) (env_tid E) (tpool (store w))) \<noteq> nullptr"
    and w: "sq (uring w) = []" "room 1 w" and cs: "\<forall>d \<in> set cs. plain_setting d"
    and rd: "\<And>k. ready (fold apply_setting cs (AsyncTask_construct c h k))"
  obtains q s k out' where "run_cb E (AddTask (Suc n) E) p (Call (CreateCall c h) (\<lambda>q. set_all q cs (Call (AddCall q) f))) w =
      run_cb E (AddTask (Suc n) E) p (f 1) (submitted E q (fold apply_setting cs (AsyncTask_construct c h k)) k (w\<lparr>store := s\<rparr>))"
    "q \<noteq> nullptr" "tasks (store w) q = None" "tasks s = (tasks (store w))(q \<mapsto> AsyncTask_construct c h k)"
    "store_inv out' (insert q used) s" "kb_size k = kDefaultBufferSize" "kb_offset k = 0" "storage_tag k \<noteq> TagNone"
proof -
  obtain q s k out' where c: "create_task E c h w = (q, w\<lparr>store := s\<rparr>)" "q \<noteq> nullptr" "tasks (store w) q = None"
    "tasks s = (tasks (store w))(q \<mapsto> AsyncTask_construct c h k)" "kb_size k = kDefaultBufferSize" "kb_offset k = 0"
    "store_inv out' (insert q used) s" "k = fst (MakeKernelBuffer (env_alloc E) (env_tid E) kDefaultBufferSize (kbw (store w)))"
    by (rule create_task_world [OF E(1) inv mem])
  let ?t = "fold apply_setting cs (AsyncTask_construct c h k)"
  have "buffer ?t = Some k" using plain_settings(1) [OF cs] by (simp add: AsyncTask_construct_def)
  then have "run_cb E (AddTask (Suc n) E) p (Call (AddCall q) f) (set_task q ?t (w\<lparr>store := s\<rparr>)) =
      run_cb E (AddTask (Suc n) E) p (f 1) (submitted E q ?t k (set_task q ?t (w\<lparr>store := s\<rparr>)))"
    by (intro add_created(2)) (use rd c(2) w E(2) in \<open>simp_all add: room_def\<close>)
  then have "run_cb E (AddTask (Suc n) E) p (Call (CreateCall c h) (\<lambda>q. set_all q cs (Call (AddCall q) f))) w =
      run_cb E (AddTask (Suc n) E) p (f 1) (submitted E q ?t k (w\<lparr>store := s\<rparr>))"
    using c(1,4) run_set_all [of "w\<lparr>store := s\<rparr>" q "AsyncTask_construct c h k"] by (simp del: set_all.simps)
  then show thesis using that c(2-7) construct_tag c(8) by blast
qed

lemma reader_submitted:
  assumes E: "allocator_ok (env_alloc E)" "flushing E" and inv: "store_inv out used (store w)"
    and mem: "fst (Acquire (env_alloc E) (env_tid E) (tpool (store w))) \<noteq> nullptr"
    and w: "sq (uring w) = []" "room 1 w" and cs: "\<forall>d \<in> set cs. plain_setting d"
    and rd: "\<And>k. ready (fold apply_setting cs (AsyncTask_construct c h k))"
  obtains q s k out' where "run_cb E (AddTask (Suc n) E) p (Call (CreateCall c h) (\<lambda>q. set_all q cs (add_then q prog))) w =
      run_cb E (AddTask (Suc n) E) p prog (submitted E q (fold apply_setting cs (AsyncTask_construct c h k)) k (w\<lparr>store := s\<rparr>))"
    "q \<noteq> nullptr" "tasks (store w) q = None" "tasks s = (tasks (store w))(q \<mapsto> AsyncTask_construct c h k)"
    "store_inv out' (insert q used) s" "kb_size k = kDefaultBufferSize" "kb_offset k = 0" "storage_tag k \<noteq> TagNone"
  by (rule reader_submitted_call [OF E inv mem w cs rd, where f = "\<lambda>_. prog" and n = n and p = p])
    (rule that [unfolded add_then_def])

text \<open>A handler that creates and configures a task for a short message.\<close>

lemma message_created:
  assumes E: "allocator_ok (env_alloc E)" "abundant (env_alloc E)" and inv: "store_inv out used (store w)"
    and cs: "\<forall>d \<in> set cs. plain_setting d" and len: "length bs \<le> kKernelBufSboSize"
  obtains q s k out' where "run_cb E add p (Call (CreateCall c h) (\<lambda>q. set_all q cs
      (Call (ResizeCall q (length bs)) (\<lambda>_. Call (StoreCall q bs) (\<lambda>_. prog q))))) w = run_cb E add p (prog q) (w\<lparr>store := s\<rparr>)"
    "q \<noteq> nullptr" "tasks (store w) q = None"
    "tasks s = (tasks (store w))(q \<mapsto> fold apply_setting cs (AsyncTask_construct c h k))"
    "store_inv out' (insert q used) s" "in_object k" "kb_size k = length bs" "kb_offset k = 0" "\<forall>v. kb_contents k v = bs"
proof -
  obtain q s k out' where r: "run_cb E add p (Call (CreateCall c h) (\<lambda>q. set_all q cs
      (Call (ResizeCall q (length bs)) (\<lambda>_. Call (StoreCall q bs) (\<lambda>_. prog q))))) w =
      run_cb E add p (Call (StoreCall q bs) (\<lambda>_. prog q)) (w\<lparr>store := s\<rparr>)"
    "q \<noteq> nullptr" "tasks (store w) q = None"
    "tasks s = (tasks (store w))(q \<mapsto> fold apply_setting cs (AsyncTask_construct c h k))"
    "store_inv out' (insert q used) s" "in_object k" "kb_size k = length bs" "kb_offset k = 0"
    by (rule create_resized [OF E inv cs len])
  obtain k1 where k1: "\<And>v. store_bytes (KernelBuf_Data k) bs (k, v) = Inr (k1, v)" "in_object k1" "kb_size k1 = length bs"
      "kb_offset k1 = kb_offset k" "\<And>v. kb_contents k1 v = bs"
    using r(7) by (auto intro: store_in_object [OF r(6)])
  let ?t = "\<lambda>k. fold apply_setting cs (AsyncTask_construct c h k)"
  let ?s = "s\<lparr>tasks := (tasks s)(q \<mapsto> ?t k1)\<rparr>"
  have b: "buffer (?t k) = Some k" "buffer (?t k1) = Some k1" "(?t k)\<lparr>buffer := Some k1\<rparr> = ?t k1"
    using plain_settings(1) [OF cs] plain_settings(2) [OF cs, symmetric] by (simp_all add: AsyncTask_construct_def)
  have "store_buffer q bs (w\<lparr>store := s\<rparr>) = Inr (w\<lparr>store := ?s\<rparr>)"
    using r(4) b k1(1) by (simp add: store_buffer_def with_buffer_def put_buffer_def set_task_def)
  moreover have "store_inv out' (insert q used) ?s"
    by (rule store_inv_in_object [OF r(5), of q "?t k" _ k1]) (use r(4) b k1(2) in simp_all)
  ultimately show thesis using that [of q ?s k1 out'] r(1-4,8) k1 by simp
qed

section \<open>One-shot tasks\<close>

text \<open>The handler of a one-shot task has made and submitted one task at \<^verbatim>\<open>q\<close>, in the world \<^verbatim>\<open>v\<close>.\<close>

lemma one_shot_submits:
  assumes pen: "pending w p tk k" and res: "0 < res" and fl: "flushing E"
    and run: "handler_run E (AddTask (Suc n) E) p tk k res w = Inr (submitted E q tq kq v)"
    and q: "q \<noteq> p" "tasks (store v) = (tasks (store w))(p \<mapsto> tk\<lparr>buffer := Some (record_result (fd tk) res k)\<rparr>, q \<mapsto> t0)"
      "buffer tq = buffer t0" "store_inv out' used' (store v)"
    and v: "uring v = uring w" "inflight v = inflight w"
    and tk: "\<not> repeat_forever tk" "next_task tk = nullptr"
  obtains w' where "DispatchCqe spins E (AddTask (Suc n) E) p EventNone res w = Inr w'"
    "entries (uring w') = entries (uring w) @ [\<lparr>sqe_op = task_op tq kq, sqe_user_data = task_word q, sqe_link = False\<rparr>]"
    "tasks (store w') q = Some ((in_flight tq)\<lparr>user_data := task_word q\<rparr>)" "store_inv out' used' (store w')"
    "sq (uring w') = []" "inflight w' = inflight w" "config w' = config v" "invoked w' = invoked v"
    "closed_fds w' = closed_fds v" "removed w' = removed v" "shutdown_requested w' = shutdown_requested v"
proof -
  let ?tk = "tk\<lparr>buffer := Some (record_result (fd tk) res k)\<rparr>"
  let ?tp = "?tk\<lparr>task_state := StateSuccess, done_state := kSignaled, detach := True\<rparr>"
  let ?w2 = "submitted E q tq kq v"
  let ?w' = "(set_task p ?tp ?w2)\<lparr>inflight := inflight ?w2 - 1\<rparr>"
  have tp: "tasks (store ?w2) p = Some ?tk" using q(1,2) by simp
  have "DispatchCqe spins E (AddTask (Suc n) E) p EventNone res w = Inr ?w'"
    by (rule one_shot_world [OF pen res run tp]) (use tk in simp_all)
  moreover have "store_inv out' used' (store ?w2)"
    by (rule submitted_inv [of _ _ _ _ t0]) (use q(2-4) in simp_all)
  then have "store_inv out' used' (store ?w')"
    using store_inv_upd [of out' _ "store ?w2" p ?tk ?tp] tp by (simp add: set_task_def)
  moreover have "entries (uring ?w') = entries (uring w) @
      [\<lparr>sqe_op = task_op tq kq, sqe_user_data = task_word q, sqe_link = False\<rparr>]"
    using submitted_fields(7) [of E q tq kq v] v(1) by (simp del: submitted_fields(7))
  ultimately show thesis
    using that [of ?w'] q(1) v(2) submitted_sq [OF fl] by simp
qed

text \<open>A one-shot task with handler \<^verbatim>\<open>h\<close> on descriptor \<^verbatim>\<open>c\<close> is in flight; its buffer is \<^verbatim>\<open>k\<close>.\<close>

definition awaiting :: "int \<Rightarrow> nat \<Rightarrow> ptr \<Rightarrow> KernelBuf \<Rightarrow> io_world \<Rightarrow> bool" where
  "awaiting c h p k w \<longleftrightarrow> p \<noteq> nullptr \<and> sq (uring w) = [] \<and> (case tasks (store w) p of None \<Rightarrow> False | Some tk \<Rightarrow>
     pending w p tk k \<and> fd tk = c \<and> handler tk = h \<and> \<not> repeat_forever tk \<and> next_task tk = nullptr)"

lemma awaitingE:
  assumes "awaiting c h p k w"
  obtains tk where "pending w p tk k" "tasks (store w) p = Some tk" "buffer tk = Some k" "fd tk = c" "handler tk = h"
    "\<not> repeat_forever tk" "next_task tk = nullptr" "p \<noteq> nullptr" "sq (uring w) = []"
  using assms by (auto simp: awaiting_def pending_def split: option.splits)

lemma submitted_awaits:
  assumes "tasks (store w) q = Some ((in_flight tk)\<lparr>user_data := u\<rparr>)" and "buffer tk = Some k" and "q \<noteq> nullptr"
    and "sq (uring w) = []" and "\<not> repeat_forever tk" and "next_task tk = nullptr"
  shows "awaiting (fd tk) (handler tk) q k w"
  using assms by (simp add: awaiting_def pending_def admitted_def Let_def task_setters)

text \<open>The world in which the handler of an awaited task starts.\<close>

definition called :: "nat \<Rightarrow> ptr \<Rightarrow> int \<Rightarrow> io_world \<Rightarrow> io_world" where
  "called h p res w = (case tasks (store w) p of None \<Rightarrow> w | Some tk \<Rightarrow> (case buffer tk of None \<Rightarrow> w | Some k \<Rightarrow>
     (recorded p tk k res w)\<lparr>invoked := invoked w @ [(h, p, Some res)]\<rparr>))"

lemma called_fields [simp]:
  "kbw (store (called h p res w)) = kbw (store w)" "tpool (store (called h p res w)) = tpool (store w)"
  "uring (called h p res w) = uring w" "inflight (called h p res w) = inflight w" "config (called h p res w) = config w"
  "closed_fds (called h p res w) = closed_fds w" "removed (called h p res w) = removed w"
  "counters (called h p res w) = counters w" "shutdown_requested (called h p res w) = shutdown_requested w"
  by (simp_all add: called_def recorded_def split: option.split)

lemma called_awaiting:
  assumes "awaiting c h p k w"
  shows "invoked (called h p res w) = invoked w @ [(h, p, Some res)]"
    and "store_inv out used (store w) \<Longrightarrow> store_inv out used (store (called h p res w))"
proof -
  obtain tk where t: "tasks (store w) p = Some tk" "buffer tk = Some k" using assms by (rule awaitingE)
  then show "invoked (called h p res w) = invoked w @ [(h, p, Some res)]" by (simp add: called_def)
  show "store_inv out used (store (called h p res w))" if "store_inv out used (store w)"
    using store_inv_result [OF that t, of "tk\<lparr>buffer := Some (record_result (fd tk) res k)\<rparr>"] t
    by (simp add: called_def recorded_def set_task_def)
qed

text \<open>
  The completion of an awaited task whose handler reaches, in the world \<^verbatim>\<open>v\<close>, the creation and
  submission of a read: the read is awaited.
\<close>

lemma awaited_reader:
  assumes E: "allocator_ok (env_alloc E)" "abundant (env_alloc E)" "flushing E"
    and inv: "store_inv out used (store w)" and aw: "awaiting c h p k w" and rm: "room 1 w" and res: "0 < res"
    and run: "run_cb E (AddTask (Suc n) E) p (env_cb E h (Some (record_result c res k), kbw (store w))) (called h p res w) =
      run_cb E (AddTask (Suc n) E) p (Call (CreateCall d g) (\<lambda>q. set_all q [TaskTypeIs TypeRead] (add_then q Return))) v"
    and v: "store v = store (called h p res w)" "uring v = uring w" "inflight v = inflight w" "config v = config w"
  obtains q kq w' out' where "DispatchCqe spins E (AddTask (Suc n) E) p EventNone res w = Inr w'"
    "entries (uring w') = entries (uring w) @
      [\<lparr>sqe_op = OpRead d (KernelBuf_Data kq) 2048 0, sqe_user_data = task_word q, sqe_link = False\<rparr>]"
    "awaiting d g q kq w'" "kb_size kq = 2048" "storage_tag kq \<noteq> TagNone" "store_inv out' (insert q used) (store w')"
    "inflight w' = inflight w" "config w' = config w" "invoked w' = invoked v" "closed_fds w' = closed_fds v"
    "removed w' = removed v" "shutdown_requested w' = shutdown_requested v"
proof -
  obtain tk where t: "pending w p tk k" "tasks (store w) p = Some tk" "buffer tk = Some k" "fd tk = c" "handler tk = h"
    "\<not> repeat_forever tk" "next_task tk = nullptr" "p \<noteq> nullptr" "sq (uring w) = []" using aw by (rule awaitingE)
  let ?cs = "[TaskTypeIs TypeRead]"
  have iv: "store_inv out used (store v)" using called_awaiting(2) [OF aw inv] v(1) by simp
  have w: "fst (Acquire (env_alloc E) (env_tid E) (tpool (store v))) \<noteq> nullptr" "sq (uring v) = []" "room 1 v"
    using abundant_task [OF E(2,1) iv] t(9) rm v(2-4) by (simp_all add: room_def)
  have cs: "\<forall>e \<in> set ?cs. plain_setting e" "\<And>kq. ready (fold apply_setting ?cs (AsyncTask_construct d g kq))"
    by (simp_all add: ready_def apply_setting_def task_setters AsyncTask_construct_def)
  obtain q s kq out' where c: "run_cb E (AddTask (Suc n) E) p (Call (CreateCall d g) (\<lambda>q. set_all q ?cs (add_then q Return))) v =
      run_cb E (AddTask (Suc n) E) p Return (submitted E q (fold apply_setting ?cs (AsyncTask_construct d g kq)) kq (v\<lparr>store := s\<rparr>))"
    "q \<noteq> nullptr" "tasks (store v) q = None" "tasks s = (tasks (store v))(q \<mapsto> AsyncTask_construct d g kq)"
    "store_inv out' (insert q used) s" "kb_size kq = kDefaultBufferSize" "kb_offset kq = 0" "storage_tag kq \<noteq> TagNone"
    by (rule reader_submitted [OF E(1,3) iv w cs])
  let ?t = "fold apply_setting ?cs (AsyncTask_construct d g kq)"
  have hr: "handler_run E (AddTask (Suc n) E) p tk k res w = Inr (submitted E q ?t kq (v\<lparr>store := s\<rparr>))"
    using run c(1) t(2-5) by (simp add: handler_run_def called_def del: set_all.simps run_cb.simps(2))
  have vt: "tasks (store v) = (tasks (store w))(p \<mapsto> tk\<lparr>buffer := Some (record_result (fd tk) res k)\<rparr>)"
    using v(1) t(2,3) by (simp add: called_def recorded_def)
  have qp: "q \<noteq> p" using c(3) vt by auto
  have ts: "tasks (store (v\<lparr>store := s\<rparr>)) =
      (tasks (store w))(p \<mapsto> tk\<lparr>buffer := Some (record_result (fd tk) res k)\<rparr>, q \<mapsto> AsyncTask_construct d g kq)"
    using c(4) vt by simp
  have tq: "buffer ?t = buffer (AsyncTask_construct d g kq)" "buffer ?t = Some kq" "fd ?t = d" "handler ?t = g"
      "\<not> repeat_forever ?t" "next_task ?t = nullptr" "task_op ?t kq = OpRead d (KernelBuf_Data kq) 2048 0"
    using c(6,7) by (simp_all add: apply_setting_def task_setters AsyncTask_construct_def task_op.simps size_consts)
  show thesis
  proof (rule one_shot_submits [OF t(1) res E(3) hr qp ts tq(1) _ _ _ t(6,7), of out' "insert q used" spins])
    fix w'
    assume e: "entries (uring w') = entries (uring w) @ [\<lparr>sqe_op = task_op ?t kq, sqe_user_data = task_word q, sqe_link = False\<rparr>]"
      and d: "DispatchCqe spins E (AddTask (Suc n) E) p EventNone res w = Inr w'"
      "store_inv out' (insert q used) (store w')" "inflight w' = inflight w" "config w' = config (v\<lparr>store := s\<rparr>)"
      "invoked w' = invoked (v\<lparr>store := s\<rparr>)" "closed_fds w' = closed_fds (v\<lparr>store := s\<rparr>)"
      "removed w' = removed (v\<lparr>store := s\<rparr>)" "shutdown_requested w' = shutdown_requested (v\<lparr>store := s\<rparr>)"
      and a: "tasks (store w') q = Some ((in_flight ?t)\<lparr>user_data := task_word q\<rparr>)" "sq (uring w') = []"
    have "awaiting d g q kq w'" using submitted_awaits [OF a(1) tq(2) c(2) a(2) tq(5,6)] tq(3,4) by simp
    then show thesis
      using that [of w' kq q out'] d e tq(7) v(4) c(6,8) by (simp add: size_consts)
  qed (use c(5) v in simp_all)
qed

text \<open>The completion of an awaited task whose handler submits nothing.\<close>

lemma awaited_last:
  assumes aw: "awaiting c h p k w" and res: "0 < res"
    and run: "run_cb E add p (env_cb E h (Some (record_result c res k), kbw (store w))) (called h p res w) = Inr v"
    and v: "tasks (store v) = tasks (store (called h p res w))"
  shows "\<exists>w'. DispatchCqe spins E add p EventNone res w = Inr w' \<and> uring w' = uring v \<and> inflight w' = inflight v - 1 \<and>
    invoked w' = invoked v \<and> closed_fds w' = closed_fds v \<and> removed w' = removed v \<and> counters w' = counters v \<and>
    shutdown_requested w' = shutdown_requested v"
proof -
  obtain tk where t: "pending w p tk k" "tasks (store w) p = Some tk" "buffer tk = Some k" "fd tk = c" "handler tk = h"
    "\<not> repeat_forever tk" "next_task tk = nullptr" "p \<noteq> nullptr" "sq (uring w) = []" using aw by (rule awaitingE)
  have hr: "handler_run E add p tk k res w = Inr v"
    using run t(2-5) by (simp add: handler_run_def called_def)
  have tp: "tasks (store v) p = Some (tk\<lparr>buffer := Some (record_result c res k)\<rparr>)"
    using v t(2-4) by (simp add: called_def recorded_def)
  show ?thesis using one_shot_world [OF t(1) res hr tp, of spins] t(6,7) by simp
qed

text \<open>
  The completion of an awaited task with the result 0: after its handler the event loop closes the
  descriptor and deletes the task.
\<close>

lemma awaited_zero:
  assumes aw: "awaiting c h p k w" and c: "0 < c" "0 < env_chain E"
    and run: "run_cb E add p (env_cb E h (Some (record_result c 0 k), kbw (store w))) (called h p 0 w) = Inr v"
    and v: "tasks (store v) p = tasks (store (called h p 0 w)) p" and inv: "store_inv out used (store v)"
  shows "\<exists>w'. DispatchCqe spins E add p EventNone 0 w = Inr w' \<and> deleted p used v w' \<and> uring w' = uring v \<and>
    inflight w' = inflight v - 1 \<and> invoked w' = invoked v \<and> closed_fds w' = closed_fds v @ [c] \<and> removed w' = removed v \<and>
    shutdown_requested w' = shutdown_requested v"
proof -
  obtain tk where t: "pending w p tk k" "tasks (store w) p = Some tk" "buffer tk = Some k" "fd tk = c" "handler tk = h"
    "\<not> repeat_forever tk" "next_task tk = nullptr" "p \<noteq> nullptr" "sq (uring w) = []" using aw by (rule awaitingE)
  let ?tk = "tk\<lparr>buffer := Some (record_result c 0 k)\<rparr>"
  let ?tk3 = "SetTaskState StateSuccess (MarkDetachedAndComplete True (?tk\<lparr>fd := -1\<rparr>))"
  have x: "ExecuteCompletionHandler E add p (recorded p tk k 0 w) = Inr v"
    using run t(2-5) by (simp add: execute_recorded handler_run_def called_def)
  have tp: "tasks (store v) p = Some ?tk" using v t(2-4) by (simp add: called_def recorded_def)
  obtain s where s: "delete_task E p (set_task p ?tk3 (close_fd c v)) = Inr ((close_fd c v)\<lparr>store := s\<rparr>)"
      "deleted p used (close_fd c v) ((close_fd c v)\<lparr>store := s\<rparr>)"
    using finish_and_delete [of out used "close_fd c v" p ?tk E ?tk3] inv t(7,8) c(2) tp by (auto simp: task_setters close_fd_def)
  have "DispatchCqe spins E add p EventNone 0 w = Inr ((close_fd c v)\<lparr>store := s, inflight := inflight v - 1\<rparr>)"
    using s(1) t(4,6,7) c(1)
    by (simp add: dispatch_normal [OF t(1)] HandleNormalEvent_succeeded [OF t(2) record_pending [OF t(1)] _ x tp] close_fd_def)
  then show ?thesis using s(2) by (simp add: deleted_def close_fd_def)
qed

text \<open>A read task that repeats, with handler \<^verbatim>\<open>h\<close> on descriptor \<^verbatim>\<open>c\<close>, is in flight, below the limit.\<close>

definition repeating :: "int \<Rightarrow> nat \<Rightarrow> ptr \<Rightarrow> KernelBuf \<Rightarrow> io_world \<Rightarrow> bool" where
  "repeating c h p k w \<longleftrightarrow> p \<noteq> nullptr \<and> sq (uring w) = [] \<and> room 1 w \<and> (case tasks (store w) p of None \<Rightarrow> False | Some tk \<Rightarrow>
     pending w p tk k \<and> fd tk = c \<and> handler tk = h \<and> repeat_forever tk \<and> next_task tk = nullptr \<and>
     task_type tk = TypeRead \<and> timeout_ms tk \<le> 0)"

lemma repeatingE:
  assumes "repeating c h p k w"
  obtains tk where "pending w p tk k" "tasks (store w) p = Some tk" "buffer tk = Some k" "fd tk = c" "handler tk = h"
    "repeat_forever tk" "next_task tk = nullptr" "task_type tk = TypeRead" "timeout_ms tk \<le> 0" "p \<noteq> nullptr"
    "sq (uring w) = []" "room 1 w"
  using assms by (auto simp: repeating_def pending_def split: option.splits)

lemma called_repeating:
  assumes "repeating c h p k w"
  shows "invoked (called h p res w) = invoked w @ [(h, p, Some res)]"
    and "store_inv out used (store w) \<Longrightarrow> store_inv out used (store (called h p res w))"
proof -
  obtain tk where t: "tasks (store w) p = Some tk" "buffer tk = Some k" using assms by (rule repeatingE)
  then show "invoked (called h p res w) = invoked w @ [(h, p, Some res)]" by (simp add: called_def)
  show "store_inv out used (store (called h p res w))" if "store_inv out used (store w)"
    using store_inv_result [OF that t, of "tk\<lparr>buffer := Some (record_result (fd tk) res k)\<rparr>"] t
    by (simp add: called_def recorded_def set_task_def)
qed

text \<open>
  Its completion, when the handler leaves the tasks and the count as they are: it is in flight
  again, with one read of the same kind.
\<close>

lemma repeating_step:
  assumes rp: "repeating c h p k w" and fl: "flushing E" and res: "0 \<le> res"
    and run: "run_cb E (AddTask (Suc n) E) p (env_cb E h (Some (record_result c res k), kbw (store w))) (called h p res w) = Inr v"
    and v: "store v = store (called h p res w)" "sq (uring v) = []" "inflight v = inflight w" "config v = config w"
  obtains w' where "DispatchCqe spins E (AddTask (Suc n) E) p EventNone res w = Inr w'"
    "repeating c h p (record_result c res k) w'"
    "\<And>out used. store_inv out used (store w) \<Longrightarrow> store_inv out used (store w')"
    "entries (uring w') = entries (uring v) @ [\<lparr>sqe_op = OpRead c (KernelBuf_Data k) (kb_size k mod 2 ^ 32) (word_of_int (kb_offset k)),
       sqe_user_data = task_word p, sqe_link = False\<rparr>]"
    "inflight w' = inflight w" "config w' = config w" "invoked w' = invoked v" "closed_fds w' = closed_fds v"
    "removed w' = removed v" "counters w' = counters v" "shutdown_requested w' = shutdown_requested v"
proof -
  obtain tk where t: "pending w p tk k" "tasks (store w) p = Some tk" "buffer tk = Some k" "fd tk = c" "handler tk = h"
    "repeat_forever tk" "next_task tk = nullptr" "task_type tk = TypeRead" "timeout_ms tk \<le> 0" "p \<noteq> nullptr"
    "sq (uring w) = []" "room 1 w" using rp by (rule repeatingE)
  let ?k = "record_result c res k"
  let ?tk = "tk\<lparr>buffer := Some ?k\<rparr>"
  let ?tp = "SetTaskState StateSuccess ?tk"
  let ?w' = "(submitted E p ?tp ?k v)\<lparr>inflight := inflight v\<rparr>"
  have hr: "handler_run E (AddTask (Suc n) E) p tk k res w = Inr v" using run t(2-5) by (simp add: handler_run_def called_def)
  have tp: "tasks (store v) p = Some ?tk" using v(1) t(2-4) by (simp add: called_def recorded_def)
  have "DispatchCqe spins E (AddTask (Suc n) E) p EventNone res w = Inr ?w'"
    by (rule repeat_world [OF t(1) res t(10) hr tp]) (use t v fl in \<open>simp_all add: room_def\<close>)
  moreover have "repeating c h p ?k ?w'"
    using t v submitted_sq [OF fl]
    by (simp add: repeating_def room_def pending_def admitted_def Let_def task_setters)
  moreover have "store_inv out used (store ?w')" if "store_inv out used (store w)" for out used
    using submitted_inv [OF _ tp, of out used ?tp] called_repeating(2) [OF rp that] v(1) by (simp add: task_setters)
  moreover have "task_op ?tp ?k = OpRead c (KernelBuf_Data k) (kb_size k mod 2 ^ 32) (word_of_int (kb_offset k))"
    using t(4,8) by (simp add: task_op.simps task_setters)
  ultimately show thesis
    using that [of ?w'] v(3,4) submitted_fields(7) [of E p ?tp ?k v] by (simp del: submitted_fields(7))
qed

section \<open>Sequences of completions\<close>

text \<open>Completions, each with the task it is for and its result, dispatched one after the other.\<close>

fun dispatch_all :: "nat \<Rightarrow> io_env \<Rightarrow> add_fun \<Rightarrow> (ptr \<times> int) list \<Rightarrow> io_world \<Rightarrow> io_fault + io_world" where
  "dispatch_all spins E add [] w = Inr w"
| "dispatch_all spins E add ((p, r) # cs) w =
     and_then (DispatchCqe spins E add p EventNone r w) (\<lambda>w1. dispatch_all spins E add cs w1)"

lemma dispatch_all_append:
  "dispatch_all spins E add (cs @ ds) w = and_then (dispatch_all spins E add cs w) (dispatch_all spins E add ds)"
proof (induction cs arbitrary: w)
  case (Cons c cs)
  then show ?case by (cases c; cases "DispatchCqe spins E add (fst c) EventNone (snd c) w") simp_all
qed simp

section \<open>Memory of the example world\<close>

lemma Acquire_sizeof: "sizeof_T (snd (Acquire alloc t s)) = sizeof_T s"
  by (simp add: Acquire_def GrowPool_def pool_aligned_alloc_def Let_def split: prod.splits)

lemma demo_more_memory:
  assumes "buffer (f demo_task) = Some demo_buf"
  shows "fst (Acquire tight_alloc 0 (tpool (store (demo_world f lim n)))) \<noteq> nullptr"
proof -
  let ?tp = "tpool (store (demo_world f lim n))"
  obtain xs used where inv: "pool_inv xs used ?tp"
    using demo_inv [of f lim n] assms by (auto simp: store_inv_def)
  have "?tp = snd (Acquire tight_alloc 0 (tpool demo_store))"
    by (simp add: demo_world_def CreateTaskWithHandler_def AsyncTask_operator_new_def split_beta Let_def)
  moreover have "sizeof_T (tpool demo_store) = 96"
    by (simp add: demo_store_def empty_store_def ObjectPool_construct_def GrowPool_def pool_aligned_alloc_def Let_def
        split: prod.split)
  ultimately have "sizeof_T ?tp = 96" by (simp add: Acquire_sizeof)
  moreover have "tight_alloc 64 (slot_size 96) live \<noteq> nullptr" for live
    by (rule tight_alloc_nonnull) (simp add: slot_size_eq)
  ultimately show ?thesis using Acquire_null [OF tight_alloc_ok inv, of 0] by simp
qed

lemma demo_buf_storage: "storage_tag demo_buf \<noteq> TagNone \<and> kb_size demo_buf = 2048"
proof -
  obtain k v where c: "KernelBuf_construct tight_alloc 0 kDefaultBufferSize (kbw demo_store) = (k, v)" by fastforce
  have "storage_tag k \<noteq> TagNone \<and> kb_size k = 2048"
    using c by (auto simp: KernelBuf_construct_def AllocateStorage_def storage_heap_def Let_def size_consts
        split: prod.splits if_splits)
  then show ?thesis using c by (simp add: demo_buf_def MakeKernelBuffer_def)
qed

end
