(* ===== verification/Messages.thy ===== *)
theory Messages
  imports Programs
begin

text \<open>
  Tasks for messages of any length: a buffer of the message's size is made (in the object, in a
  block of the pool or in a vector), the message is copied into it, and it replaces the buffer a new task
  was created with. What other buffers hold is not touched by making and destroying buffers.
\<close>

section \<open>What a buffer holds while others come and go\<close>

lemma contents_same:
  assumes "kb_ok out l w" and "storage_tag l = TagPool \<Longrightarrow> bytes (buf_mem (bpool w')) (pool_data l) = bytes (buf_mem (bpool w)) (pool_data l)"
    and "\<And>b. heap_vec l = Some b \<Longrightarrow> vecs w' b = vecs w b"
  shows "kb_contents l w' = kb_contents l w"
  using assms by (cases "storage_tag l") (auto simp: kb_defs read_bytes_def split: option.splits)

lemma in_use:
  assumes "kb_ok out l w" and "storage_tag l = TagPool"
  shows "pool_data l \<in> out (ClassForSize (kb_size l))" "ClassForSize (kb_size l) < kBufferPoolNumClasses"
  using assms by (simp_all add: kb_ok_def ClassForSize_lt)

lemma construct_keeps:
  assumes ok: "allocator_ok alloc" and inv: "buf_inv xs out (bpool w)"
    and c: "KernelBuf_construct alloc t n w = (k, w')" and l: "kb_ok out l w"
  shows "kb_contents l w' = kb_contents l w"
proof -
  have al: "AllocateStorage alloc t n (kb_fresh\<lparr>kb_size := n\<rparr>, w) = (k, w')"
    and f: "heap_vec (kb_fresh\<lparr>kb_size := n\<rparr>) = None"
      "length (sbo_data (kb_fresh\<lparr>kb_size := n\<rparr>)) = kKernelBufSboSize"
    using c by (simp_all add: KernelBuf_construct_def kb_fresh_def)
  have k: "kept xs out (bpool w) (bpool w')" and v: "\<forall>b < vnext w. vecs w' b = vecs w b"
    using AllocateStorage_ok [OF ok inv f al] by blast+
  show ?thesis
  proof (rule contents_same [OF l])
    show "bytes (buf_mem (bpool w')) (pool_data l) = bytes (buf_mem (bpool w)) (pool_data l)" if "storage_tag l = TagPool"
      using keptD [OF k in_use(2) [OF l that]] all_nodesI(3) in_use(1) [OF l that] by blast
    show "vecs w' b = vecs w b" if "heap_vec l = Some b" for b
      using v l that by (auto simp: kb_ok_def split: StorageTag.splits)
  qed
qed

lemma Deallocate_keeps:
  assumes inv: "buf_inv xs out s" and i: "ClassForSize n < kBufferPoolNumClasses" and p: "p \<in> out (ClassForSize n)"
    and d: "Deallocate t p n s = Some s'" and q: "q \<in> out j" "j < kBufferPoolNumClasses"
  shows "bytes (buf_mem s') q = bytes (buf_mem s) q"
proof -
  let ?i = "ClassForSize n"
  have cap: "4 \<le> kBufferPoolTlsCacheSize" by (simp add: size_consts)
  obtain c fl m where r: "release_node kBufferPoolTlsCacheSize p (class_tls s ?i t) (free_lists s ?i)
      (buf_mem s) = Some (c, fl, m)" "same_outside (set (cached (class_tls s ?i t))) (buf_mem s) m"
    using bucket_release [OF buf_invD(1) [OF inv i] cap p, of t] by metis
  have m: "buf_mem s' = m"
    using d bucket_out_nonnull [OF buf_invD(1) [OF inv i] p] i r(1) by (auto simp: Deallocate_def Let_def)
  have "q \<notin> set (cached (class_tls s ?i t))"
  proof (cases "j = ?i")
    case True
    then show ?thesis
      using ownersD(6) [OF bucket_okD(2) [OF buf_invD(1) [OF inv i]], of t] q(1) unfolding caches_apply by blast
  next
    case False
    then show ?thesis
      using classes_disjoint [OF inv i q(2)] all_nodesI(2) [of q "caches (class_tls s ?i)" t] all_nodesI(3) q(1)
      unfolding caches_apply by blast
  qed
  then show ?thesis using r(2) m by (simp add: same_outside_def)
qed

lemma destroy_keeps:
  assumes inv: "buf_inv xs out (bpool w)" and k: "kb_ok out k w" and d: "KernelBuf_destroy t (k, w) = Inr w'"
    and l: "kb_ok out l w" "bufs_apart k l"
  shows "kb_contents l w' = kb_contents l w"
proof (cases "storage_tag k = TagPool")
  case True
  have hv: "heap_vec k = None" using k True by (simp add: kb_ok_def)
  obtain s' where s': "Deallocate t (pool_data k) (kb_size k) (bpool w) = Some s'" "w' = w\<lparr>bpool := s'\<rparr>"
  proof (cases rule: DestroyStorage_pool [OF inv k True refl, of t])
    case (1 s' xs')
    have "KernelBuf_destroy t (k, w) = Inr (w\<lparr>bpool := s'\<rparr>)"
      using hv by (simp add: KernelBuf_destroy_def 1(1) vec_destroy_def)
    then show ?thesis using that [of s'] 1(2) d by simp
  qed
  show ?thesis
    by (rule contents_same [OF l(1)])
      (use Deallocate_keeps [OF inv in_use(2,1) [OF k True] s'(1)] in_use [OF l(1)] s'(2) in simp_all)
next
  case False
  then have "w' = vec_destroy (heap_vec k) w"
    using d k by (cases "storage_tag k") (auto simp: KernelBuf_destroy_def DestroyStorage_def vec_destroy_def kb_ok_def)
  then show ?thesis
    using l by (intro contents_same [OF l(1)]) (auto simp: bufs_apart_def vec_destroy_def split: option.splits)
qed

section \<open>Filling a buffer\<close>

lemma store_world:
  assumes inv: "buf_inv xs out (bpool w)" and k: "kb_ok out k w" "storage_tag k \<noteq> TagNone" and n: "length bs = kb_size k"
  obtains k1 w1 where "store_bytes (KernelBuf_Data k) bs (k, w) = Inr (k1, w1)" "buf_inv xs out (bpool w1)" "kb_ok out k1 w1"
    "kb_contents k1 w1 = bs" "kb_size k1 = kb_size k" "kb_offset k1 = kb_offset k"
    "\<forall>l. kb_ok out l w \<longrightarrow> kb_ok out l w1" "\<forall>l. bufs_apart k1 l = bufs_apart k l"
proof (cases "storage_tag k")
  case TagSbo
  let ?k = "k\<lparr>sbo_data := bs @ drop (length bs) (sbo_data k)\<rparr>"
  show ?thesis
    by (rule that [of ?k w]) (use TagSbo inv k n in \<open>auto simp: kb_defs bufs_apart_def\<close>)
next
  case TagPool
  let ?m = "write_bytes (pool_data k) bs (buf_mem (bpool w))"
  let ?w = "w\<lparr>bpool := (bpool w)\<lparr>buf_mem := ?m\<rparr>\<rparr>"
  have "same_outside {pool_data k} (buf_mem (bpool w)) ?m" by (simp add: same_outside_def)
  from buf_write_inv [OF inv in_use(2,1) [OF k(1) TagPool] this] have "buf_inv xs out (bpool ?w)" by simp
  then show ?thesis
    by (intro that [of k ?w]) (use TagPool k n read_write_bytes [of "pool_data k" bs "buf_mem (bpool w)"] in \<open>auto simp: kb_defs split: StorageTag.splits option.splits\<close>)
next
  case TagHeap
  then obtain b where b: "heap_vec k = Some b" "b < vnext w" "map_option length (vecs w b) = Some (kb_size k)"
    using k by (auto simp: kb_ok_def split: option.splits)
  let ?w = "w\<lparr>vecs := (vecs w)(b \<mapsto> bs)\<rparr>"
  show ?thesis
    by (rule that [of k ?w]) (use TagHeap b inv k n in \<open>auto simp: kb_defs split: StorageTag.splits option.splits if_splits\<close>)
next
  case TagNone
  then show ?thesis using k(2) by simp
qed

section \<open>Tasks for messages of any length\<close>

text \<open>
  The buffers of all tasks and one buffer more, which no task has yet, in one world: they are well
  formed and own different storage.
\<close>

definition spare_buffer :: "(nat \<Rightarrow> ptr set) \<Rightarrow> KernelBuf \<Rightarrow> (ptr \<rightharpoonup> AsyncTask) \<Rightarrow> kb_world \<Rightarrow> bool" where
  "spare_buffer out k T v \<longleftrightarrow> (\<exists>xs. buf_inv xs out (bpool v)) \<and> kb_ok out k v \<and>
     (\<forall>r u l. T r = Some u \<longrightarrow> buffer u = Some l \<longrightarrow> kb_ok out l v \<and> bufs_apart k l)"

lemma fill_message:
  assumes ok: "allocator_ok alloc" and inv: "store_inv out used s"
  obtains k v k1 v1 out1 where "MakeKernelBuffer alloc t (length bs) (kbw s) = (k, v)"
    "store_bytes (KernelBuf_Data k) bs (k, v) = Inr (k1, v1)" "spare_buffer out1 k1 (tasks s) v1"
    "kb_contents k1 v1 = bs" "kb_size k1 = length bs" "kb_offset k1 = 0"
proof -
  obtain k v where m: "KernelBuf_construct alloc t (length bs) (kbw s) = (k, v)" by fastforce
  obtain xs where b: "buf_inv xs out (bpool (kbw s))" using inv by (auto simp: store_inv_def)
  obtain out1 xs1 where w: "buf_inv xs1 out1 (bpool v)" "kb_ok out1 k v" "kb_size k = length bs"
      "\<forall>l. kb_ok out l (kbw s) \<longrightarrow> kb_ok out1 l v \<and> bufs_apart k l"
    using construct_world [OF ok b m] by (elim exE conjE) (rule that)
  have k: "storage_tag k \<noteq> TagNone" "kb_offset k = 0"
    using m by (auto simp: KernelBuf_construct_def AllocateStorage_def storage_heap_def kb_fresh_def Let_def
        split: prod.splits if_splits)
  obtain k1 v1 where s: "store_bytes (KernelBuf_Data k) bs (k, v) = Inr (k1, v1)" "buf_inv xs1 out1 (bpool v1)" "kb_ok out1 k1 v1"
      "kb_contents k1 v1 = bs" "kb_size k1 = kb_size k" "kb_offset k1 = kb_offset k"
      "\<forall>l. kb_ok out1 l v \<longrightarrow> kb_ok out1 l v1" "\<forall>l. bufs_apart k1 l = bufs_apart k l"
    by (rule store_world [OF w(1,2) k(1) w(3) [symmetric]])
  have "kb_ok out l (kbw s)" if "tasks s r = Some u" "buffer u = Some l" for r u l
    using inv that by (auto simp: store_inv_def task_ok_def)
  then have "spare_buffer out1 k1 (tasks s) v1" using s(2,3,7,8) w(4) by (auto simp: spare_buffer_def)
  then show thesis using that [of k v k1 v1 out1] m s(1,4-6) w(3) k(2) by (simp add: MakeKernelBuffer_def)
qed

lemma create_and_replace:
  assumes ok: "allocator_ok alloc" and sp: "spare_buffer out1 k1 T v1"
    and c: "KernelBuf_construct alloc t n v1 = (kd, v2)"
  obtains v3 out3 where "KernelBuf_destroy t (kd, v2) = Inr v3" "spare_buffer out3 k1 T v3" "kb_contents k1 v3 = kb_contents k1 v1"
proof -
  obtain xs1 where b1: "buf_inv xs1 out1 (bpool v1)" and k1: "kb_ok out1 k1 v1"
    and T: "\<And>r u l. T r = Some u \<Longrightarrow> buffer u = Some l \<Longrightarrow> kb_ok out1 l v1 \<and> bufs_apart k1 l"
    using sp by (auto simp: spare_buffer_def)
  obtain out2 xs2 where w2: "buf_inv xs2 out2 (bpool v2)" "kb_ok out2 kd v2"
      "\<forall>l. kb_ok out1 l v1 \<longrightarrow> kb_ok out2 l v2 \<and> bufs_apart kd l"
    using construct_world [OF ok b1 c] by (elim exE conjE) (rule that)
  obtain v3 out3 xs3 where w3: "KernelBuf_destroy t (kd, v2) = Inr v3" "buf_inv xs3 out3 (bpool v3)"
      "\<forall>l. kb_ok out2 l v2 \<longrightarrow> bufs_apart kd l \<longrightarrow> kb_ok out3 l v3"
    using destroy_world [OF w2(1,2), of t] by (elim exE conjE) (rule that)
  have keep: "kb_ok out3 l v3" if "kb_ok out1 l v1" for l using that w2(3) w3(3) by blast
  have "kb_contents k1 v3 = kb_contents k1 v2"
    using destroy_keeps [OF w2(1,2) w3(1)] w2(3) k1 by blast
  then have "kb_contents k1 v3 = kb_contents k1 v1" using construct_keeps [OF ok b1 c k1] by simp
  moreover have "spare_buffer out3 k1 T v3" using w3(2) keep k1 T by (auto simp: spare_buffer_def)
  ultimately show thesis using that w3(1) by blast
qed

lemma create_filled_any:
  assumes ok: "allocator_ok (env_alloc E)" and inv: "store_inv out used (store w)"
    and mem: "fst (Acquire (env_alloc E) (env_tid E) (tpool (store w))) \<noteq> nullptr"
  obtains q s k1 out' where "create_filled E c h bs w = Inr (q, w\<lparr>store := s\<rparr>)" "q \<noteq> nullptr" "tasks (store w) q = None"
    "tasks s = (tasks (store w))(q \<mapsto> AsyncTask_construct c h k1)" "store_inv out' (insert q used) s"
    "kb_contents k1 (kbw s) = bs" "kb_size k1 = length bs" "kb_offset k1 = 0"
proof -
  let ?T = "tasks (store w)"
  obtain k v k1 v1 out1 where m: "MakeKernelBuffer (env_alloc E) (env_tid E) (length bs) (kbw (store w)) = (k, v)"
      "store_bytes (KernelBuf_Data k) bs (k, v) = Inr (k1, v1)" "spare_buffer out1 k1 ?T v1"
      "kb_contents k1 v1 = bs" "kb_size k1 = length bs" "kb_offset k1 = 0"
    by (rule fill_message [OF ok inv])
  obtain q tp where a: "Acquire (env_alloc E) (env_tid E) (tpool (store w)) = (q, tp)" by fastforce
  obtain kd v2 where kd: "KernelBuf_construct (env_alloc E) (env_tid E) kDefaultBufferSize v1 = (kd, v2)" by fastforce
  obtain v3 out3 where d: "KernelBuf_destroy (env_tid E) (kd, v2) = Inr v3" "spare_buffer out3 k1 ?T v3"
      "kb_contents k1 v3 = kb_contents k1 v1"
    by (rule create_and_replace [OF ok m(3) kd])
  obtain xs where p: "pool_inv xs used (tpool (store w))" using inv by (auto simp: store_inv_def)
  obtain xs' where q: "q \<notin> used" "pool_inv xs' (insert q used) tp" using Acquire_inv [OF ok p a] mem a by auto
  have fresh: "?T q = None" using inv q(1) by (cases "?T q") (auto simp: store_inv_def task_ok_def)
  let ?tk = "AsyncTask_construct c h k1"
  let ?s = "(store w)\<lparr>tpool := tp, kbw := v3, tasks := ?T(q \<mapsto> ?tk)\<rparr>"
  have "create_filled E c h bs w = Inr (q, w\<lparr>store := ?s\<rparr>)"
    using m(1,2) a kd d(1) mem
    by (simp add: create_filled_def create_task_def CreateTaskWithHandler_def AsyncTask_operator_new_def MakeKernelBuffer_def
        SetBuffer_def reset_buffer_def AsyncTask_construct_def set_task_def)
  moreover have "store_inv out3 (insert q used) ?s"
  proof -
    have sp: "\<exists>xs. buf_inv xs out3 (bpool v3)" "kb_ok out3 k1 v3"
      "\<And>r u l. ?T r = Some u \<Longrightarrow> buffer u = Some l \<Longrightarrow> kb_ok out3 l v3 \<and> bufs_apart k1 l"
      using d(2) by (auto simp: spare_buffer_def)
    have "tasks_apart (?T(q \<mapsto> ?tk))"
      by (rule tasks_apart_upd) (use inv sp(3) in \<open>auto simp: store_inv_def AsyncTask_construct_def\<close>)
    then show ?thesis
      using inv q(2) sp by (auto simp: store_inv_def task_ok_def AsyncTask_construct_def)
  qed
  moreover have "q \<noteq> nullptr" using mem a by simp
  ultimately show thesis using that [of q ?s k1 out3] fresh m(4-6) d(3) by simp
qed

end
