(* ===== verification/Echo_Server.thy ===== *)
theory Echo_Server
  imports Messages
begin

text \<open>
  \<^verbatim>\<open>examples/server_tcp_example.cc\<close>: the handlers of the echo server as programs over the
  library's calls, and what one completion of an accept or of a read leads to, through the
  pools, the buffers, the tasks and the ring.
\<close>

section \<open>The handlers\<close>

text \<open>Numbers for the handlers of the program.\<close>

definition AcceptId :: nat where "AcceptId = 1"
definition EchoId :: nat where "EchoId = 2"
definition NoHandlerId :: nat where "NoHandlerId = 0"

definition echo_response :: "int \<Rightarrow> byte list \<Rightarrow> byte list" where
  "echo_response c original =
     to_bytes (''echo fd['' @ to_string c @ '']: '') @ rev original @ [10]"

definition EchoHandler :: "KernelBuf \<Rightarrow> kb_world \<Rightarrow> cb_prog" where
  "EchoHandler buf v =
     (let n = io_value buf; c = io_fd buf
      in if n \<le> 0 then Call (CloseCall c) (\<lambda>_. Return)
         else case load_bytes (KernelBuf_Data buf) (nat n) (buf, v) of
                Inl e \<Rightarrow> Call (FaultCall e) (\<lambda>_. Return)
              | Inr original \<Rightarrow>
                  Call (CreateFilledCall c NoHandlerId (echo_response c original)) (\<lambda>wt.
                    set_all wt [TaskTypeIs TypeWrite] (add_then wt Return)))"

definition AcceptHandler :: "KernelBuf \<Rightarrow> cb_prog" where
  "AcceptHandler buf =
     (let client_fd = io_value buf
      in if client_fd < 0 then Return
         else Call (CreateCall client_fd EchoId) (\<lambda>rt.
           set_all rt [TaskTypeIs TypeRead, RepeatForeverIs True, DebugStrIs (''echo_read_fd='' @ to_string client_fd)]
             (add_then rt Return)))"

definition echo_program :: "nat \<Rightarrow> KernelBuf option \<times> kb_world \<Rightarrow> cb_prog" where
  "echo_program h kv =
     (case kv of
        (Some k, v) \<Rightarrow>
          (if h = AcceptId then AcceptHandler k else if h = EchoId then EchoHandler k v else Return)
      | (None, v) \<Rightarrow> Return)"

section \<open>Accepting a client\<close>

text \<open>The task that \<^verbatim>\<open>AcceptHandler\<close> makes for a client, before it is submitted.\<close>

definition reader_task :: "int \<Rightarrow> KernelBuf \<Rightarrow> AsyncTask" where
  "reader_task c k = (AsyncTask_construct c EchoId k)\<lparr>task_type := TypeRead, repeat_forever := True,
     debug_str := ''echo_read_fd='' @ to_string c\<rparr>"

lemma accept_handler_run:
  assumes E: "env_cb E = echo_program" "allocator_ok (env_alloc E)" "flushing E"
    and inv: "store_inv out used (store w)" and pen: "pending w p tk k" and h: "handler tk = AcceptId"
    and mem: "fst (Acquire (env_alloc E) (env_tid E) (tpool (store w))) \<noteq> nullptr"
    and res: "0 \<le> res" and sq: "sq (uring w) = []" and rm: "room 1 w"
  obtains q s kq where "handler_run E (AddTask (Suc n) E) p tk k res w =
      Inr (submitted E q (reader_task res kq) kq (w\<lparr>store := s, invoked := invoked w @ [(AcceptId, p, Some res)]\<rparr>))"
    "q \<noteq> p" "q \<noteq> nullptr" "tasks (store w) q = None" "kb_size kq = kDefaultBufferSize"
    "tasks s = (tasks (store w))(p \<mapsto> tk\<lparr>buffer := Some (record_result (fd tk) res k)\<rparr>, q \<mapsto> AsyncTask_construct res EchoId kq)"
    "\<exists>out'. store_inv out' (insert q used) s" "kb_offset kq = 0"
proof -
  let ?tk = "tk\<lparr>buffer := Some (record_result (fd tk) res k)\<rparr>"
  let ?w1 = "(recorded p tk k res w)\<lparr>invoked := invoked w @ [(AcceptId, p, Some res)]\<rparr>"
  let ?cs = "[TaskTypeIs TypeRead, RepeatForeverIs True, DebugStrIs (''echo_read_fd='' @ to_string res)]"
  have tk: "tasks (store w) p = Some tk" "buffer tk = Some k" using pen by (simp_all add: pending_def)
  have w1: "store_inv out used (store ?w1)" "fst (Acquire (env_alloc E) (env_tid E) (tpool (store ?w1))) \<noteq> nullptr"
      "sq (uring ?w1) = []" "room 1 ?w1"
    using store_inv_result [OF inv tk, of ?tk] mem sq rm by (simp_all add: recorded_def set_task_def room_def)
  have t: "fold apply_setting ?cs (AsyncTask_construct res EchoId kq) = reader_task res kq" for kq
    by (simp add: reader_task_def apply_setting_def task_setters AsyncTask_construct_def)
  have cs: "\<forall>d \<in> set ?cs. plain_setting d" "\<And>kq. ready (fold apply_setting ?cs (AsyncTask_construct res EchoId kq))"
    unfolding t by (simp_all add: ready_def reader_task_def AsyncTask_construct_def)
  obtain q s kq out' where c: "run_cb E (AddTask (Suc n) E) p (Call (CreateCall res EchoId) (\<lambda>q. set_all q ?cs (add_then q Return))) ?w1 =
      run_cb E (AddTask (Suc n) E) p Return (submitted E q (fold apply_setting ?cs (AsyncTask_construct res EchoId kq)) kq (?w1\<lparr>store := s\<rparr>))"
    "q \<noteq> nullptr" "tasks (store ?w1) q = None" "tasks s = (tasks (store ?w1))(q \<mapsto> AsyncTask_construct res EchoId kq)"
    "store_inv out' (insert q used) s" "kb_size kq = kDefaultBufferSize" "kb_offset kq = 0"
    by (rule reader_submitted [OF E(2,3) w1 cs])
  have "env_cb E (handler tk) (Some (record_result (fd tk) res k), kbw (store w)) =
      Call (CreateCall res EchoId) (\<lambda>q. set_all q ?cs (add_then q Return))"
    using res h by (simp add: E(1) echo_program_def AcceptHandler_def del: set_all.simps)
  then have "handler_run E (AddTask (Suc n) E) p tk k res w = Inr (submitted E q (reader_task res kq) kq (?w1\<lparr>store := s\<rparr>))"
    using h c(1) unfolding t by (simp add: handler_run_def del: set_all.simps run_cb.simps(2))
  moreover have "?w1\<lparr>store := s\<rparr> = w\<lparr>store := s, invoked := invoked w @ [(AcceptId, p, Some res)]\<rparr>" (is "_ = ?w2")
    by (simp add: recorded_def set_task_def)
  ultimately have "handler_run E (AddTask (Suc n) E) p tk k res w = Inr (submitted E q (reader_task res kq) kq ?w2)"
    by (simp only:)
  moreover have "q \<noteq> p" "tasks (store w) q = None" using c(3) tk(1) by (auto simp: recorded_def split: if_splits)
  ultimately show ?thesis
    using that [of q kq s] c(2,4-7) by (auto simp: recorded_def)
qed

text \<open>
  A client connects to the echo server. The completion of the accept with the client's
  descriptor makes \<^verbatim>\<open>AcceptHandler\<close> create a task that reads from the client and repeats; when the
  dispatch ends, exactly two entries are new in the ring, the read of 2048 bytes from the client
  and the next accept on the listening descriptor, one operation more is in flight, and every
  task owns its memory and its buffer alone.
\<close>

theorem accept_spawns_reader:
  assumes "env_cb E = echo_program" and "allocator_ok (env_alloc E)" and "flushing E"
    and "store_inv out used (store w)" and "pending w p tk k" and "handler tk = AcceptId"
    and "fst (Acquire (env_alloc E) (env_tid E) (tpool (store w))) \<noteq> nullptr"
    and "0 < res" and "sq (uring w) = []" and "room 2 w" and "p \<noteq> nullptr"
    and "task_type tk = TypeAccept" and "repeat_forever tk" and "next_task tk = nullptr" and "timeout_ms tk \<le> 0"
  shows "\<exists>w' q kq. DispatchCqe spins E (AddTask (Suc n) E) p EventNone res w = Inr w' \<and>
    tasks (store w) q = None \<and> kb_size kq = 2048 \<and>
    entries (uring w') = entries (uring w) @
      [\<lparr>sqe_op = OpRead res (KernelBuf_Data kq) 2048 0, sqe_user_data = task_word q, sqe_link = False\<rparr>,
       \<lparr>sqe_op = OpAccept (fd tk), sqe_user_data = task_word p, sqe_link = False\<rparr>] \<and>
    inflight w' = inflight w + 1 \<and> invoked w' = invoked w @ [(AcceptId, p, Some res)] \<and>
    dom (tasks (store w')) = insert q (dom (tasks (store w))) \<and>
    (\<exists>tq. tasks (store w') q = Some tq \<and> fd tq = res \<and> handler tq = EchoId \<and> repeat_forever tq \<and>
       task_state tq = StateSubmitted \<and> buffer tq = Some kq) \<and>
    (\<exists>out'. store_inv out' (insert q used) (store w'))"
proof -
  have rm: "room 1 w" and res: "0 \<le> res" using assms(8,10) by (auto simp: room_def)
  obtain q s kq where q: "handler_run E (AddTask (Suc n) E) p tk k res w =
      Inr (submitted E q (reader_task res kq) kq (w\<lparr>store := s, invoked := invoked w @ [(AcceptId, p, Some res)]\<rparr>))"
    "q \<noteq> p" "q \<noteq> nullptr" "tasks (store w) q = None" "kb_size kq = kDefaultBufferSize"
    "tasks s = (tasks (store w))(p \<mapsto> tk\<lparr>buffer := Some (record_result (fd tk) res k)\<rparr>, q \<mapsto> AsyncTask_construct res EchoId kq)"
    "\<exists>out'. store_inv out' (insert q used) s" "kb_offset kq = 0"
    by (rule accept_handler_run [OF assms(1-7) res assms(9) rm])
  obtain out' where inv: "store_inv out' (insert q used) s" using q(7) by blast
  have b: "buffer (reader_task res kq) = buffer (AsyncTask_construct res EchoId kq)" by (simp add: reader_task_def)
  have ty: "task_type tk \<in> {TypeRead, TypeWrite, TypeAccept}" using assms(12) by simp
  show ?thesis
  proof (rule submit_and_repeat [OF assms(5) res assms(11,3,10) q(1,2,6) b inv assms(13,14,15) ty, of spins])
    fix w'
    assume d: "DispatchCqe spins E (AddTask (Suc n) E) p EventNone res w = Inr w'"
      "inflight w' = inflight w + 1" "invoked w' = invoked w @ [(AcceptId, p, Some res)]"
      "tasks (store w') q = Some ((in_flight (reader_task res kq))\<lparr>user_data := task_word q\<rparr>)"
      "dom (tasks (store w')) = insert q (dom (tasks (store w)))" "store_inv out' (insert q used) (store w')"
      and e: "entries (uring w') = entries (uring w) @
        [\<lparr>sqe_op = task_op (reader_task res kq) kq, sqe_user_data = task_word q, sqe_link = False\<rparr>,
         \<lparr>sqe_op = task_op tk k, sqe_user_data = task_word p, sqe_link = False\<rparr>]"
    have "task_op (reader_task res kq) kq = OpRead res (KernelBuf_Data kq) 2048 0" "task_op tk k = OpAccept (fd tk)"
      using q(5,8) assms(12) by (simp_all add: task_op.simps reader_task_def AsyncTask_construct_def size_consts)
    then show ?thesis
      using d e q(4,5) by (intro exI [of _ w'] exI [of _ q] exI [of _ kq])
        (auto simp: reader_task_def AsyncTask_construct_def size_consts simp del: append.assoc)
  qed
qed

section \<open>Answering a client\<close>

text \<open>The task that \<^verbatim>\<open>EchoHandler\<close> makes for its answer, before it is submitted.\<close>

definition writer_task :: "int \<Rightarrow> KernelBuf \<Rightarrow> AsyncTask" where
  "writer_task c kq = (AsyncTask_construct c NoHandlerId kq)\<lparr>task_type := TypeWrite\<rparr>"

lemma echo_handler_run:
  assumes E: "env_cb E = echo_program" "allocator_ok (env_alloc E)" "flushing E"
    and inv: "store_inv out used (store w)" and pen: "pending w p tk k" and h: "handler tk = EchoId"
    and mem: "fst (Acquire (env_alloc E) (env_tid E) (tpool (store w))) \<noteq> nullptr"
    and res: "0 < res" and sq: "sq (uring w) = []" and rm: "room 1 w"
    and load: "load_bytes (KernelBuf_Data k) (nat res) (k, kbw (store w)) = Inr original"
  obtains q s kq where "handler_run E (AddTask (Suc n) E) p tk k res w =
      Inr (submitted E q (writer_task (fd tk) kq) kq (w\<lparr>store := s, invoked := invoked w @ [(EchoId, p, Some res)]\<rparr>))"
    "q \<noteq> p" "q \<noteq> nullptr" "tasks (store w) q = None"
    "tasks s = (tasks (store w))(p \<mapsto> tk\<lparr>buffer := Some (record_result (fd tk) res k)\<rparr>,
       q \<mapsto> AsyncTask_construct (fd tk) NoHandlerId kq)"
    "\<exists>out'. store_inv out' (insert q used) s" "kb_contents kq (kbw s) = echo_response (fd tk) original"
    "kb_size kq = length (echo_response (fd tk) original)" "kb_offset kq = 0"
proof -
  let ?tk = "tk\<lparr>buffer := Some (record_result (fd tk) res k)\<rparr>" and ?resp = "echo_response (fd tk) original"
  let ?w1 = "(recorded p tk k res w)\<lparr>invoked := invoked w @ [(EchoId, p, Some res)]\<rparr>"
  have tk: "tasks (store w) p = Some tk" "buffer tk = Some k" using pen by (simp_all add: pending_def)
  have w1: "store_inv out used (store ?w1)" "fst (Acquire (env_alloc E) (env_tid E) (tpool (store ?w1))) \<noteq> nullptr"
    using store_inv_result [OF inv tk, of ?tk] mem by (simp_all add: recorded_def set_task_def)
  obtain q s kq out' where c: "create_filled E (fd tk) NoHandlerId ?resp ?w1 = Inr (q, ?w1\<lparr>store := s\<rparr>)"
    "q \<noteq> nullptr" "tasks (store ?w1) q = None"
    "tasks s = (tasks (store ?w1))(q \<mapsto> AsyncTask_construct (fd tk) NoHandlerId kq)" "store_inv out' (insert q used) s"
    "kb_contents kq (kbw s) = ?resp" "kb_size kq = length ?resp" "kb_offset kq = 0"
    by (rule create_filled_any [OF E(2) w1])
  have w2: "?w1\<lparr>store := s\<rparr> = w\<lparr>store := s, invoked := invoked w @ [(EchoId, p, Some res)]\<rparr>" (is "_ = ?w2")
    by (simp add: recorded_def set_task_def)
  have s: "tasks s q = Some (AsyncTask_construct (fd tk) NoHandlerId kq)" using c(4) by simp
  have "AddTask (Suc n) E q (set_task q (writer_task (fd tk) kq) ?w2) =
      Inr (True, submitted E q (writer_task (fd tk) kq) kq (set_task q (writer_task (fd tk) kq) ?w2))"
    by (rule AddTask_submitted(1))
      (use c(2) rm E(3) sq in \<open>simp_all add: writer_task_def AsyncTask_construct_def room_def\<close>)
  moreover have "fold apply_setting [TaskTypeIs TypeWrite] (AsyncTask_construct (fd tk) NoHandlerId kq) = writer_task (fd tk) kq"
    by (simp add: writer_task_def apply_setting_def task_setters AsyncTask_construct_def)
  ultimately have "run_cb E (AddTask (Suc n) E) p (set_all q [TaskTypeIs TypeWrite] (add_then q Return)) ?w2 =
      Inr (submitted E q (writer_task (fd tk) kq) kq ?w2)"
    using run_set_all [of ?w2 q "AsyncTask_construct (fd tk) NoHandlerId kq"] s
    by (simp add: add_then_def del: set_all.simps)
  moreover have "env_cb E (handler tk) (Some (record_result (fd tk) res k), kbw (store w)) =
      Call (CreateFilledCall (fd tk) NoHandlerId ?resp) (\<lambda>wt. set_all wt [TaskTypeIs TypeWrite] (add_then wt Return))"
    using res h load by (simp add: E(1) echo_program_def EchoHandler_def EchoId_def AcceptId_def Let_def)
  ultimately have "handler_run E (AddTask (Suc n) E) p tk k res w = Inr (submitted E q (writer_task (fd tk) kq) kq ?w2)"
    using h c(1) by (simp add: handler_run_def w2 del: set_all.simps)
  moreover have "q \<noteq> p" "tasks (store w) q = None" using c(3) tk(1) by (auto simp: recorded_def split: if_splits)
  ultimately show ?thesis
    using that [of q kq s] c(2,4-8) by (auto simp: recorded_def)
qed

text \<open>
  C12: A client of the echo server sends bytes. The completion of the read makes \<^verbatim>\<open>EchoHandler\<close>
  create a task whose buffer (in the object, in a block of the pool or in a vector) holds
  the answer: the text with the descriptor, the bytes received in reverse order, and a newline.
  When the dispatch ends, exactly two entries are new in the ring, the write of the whole answer
  to the client and the next read into the same buffer, one operation more is in flight, and every
  task owns its memory and its buffer alone. The ring takes entries, the count is at least two
  below the limit, and the task pool has a slot for the answer's task.
\<close>

theorem echo_reply:
  assumes "env_cb E = echo_program" and "allocator_ok (env_alloc E)" and "flushing E"
    and "store_inv out used (store w)" and "pending w p tk k" and "handler tk = EchoId"
    and "fst (Acquire (env_alloc E) (env_tid E) (tpool (store w))) \<noteq> nullptr"
    and "0 < res" and "sq (uring w) = []" and "room 2 w" and "p \<noteq> nullptr"
    and "task_type tk = TypeRead" and "repeat_forever tk" and "next_task tk = nullptr" and "timeout_ms tk \<le> 0"
    and "storage_tag k \<noteq> TagNone" and "nat res \<le> kb_size k"
  shows "\<exists>w' q kq. DispatchCqe spins E (AddTask (Suc n) E) p EventNone res w = Inr w' \<and> tasks (store w) q = None \<and>
    kb_contents kq (kbw (store w')) = to_bytes (''echo fd['' @ to_string (fd tk) @ '']: '') @
      rev (take (nat res) (kb_contents k (kbw (store w)))) @ [10] \<and>
    kb_size kq = length (kb_contents kq (kbw (store w'))) \<and>
    (\<exists>tq. tasks (store w') q = Some tq \<and> fd tq = fd tk \<and> buffer tq = Some kq \<and> task_state tq = StateSubmitted) \<and>
    entries (uring w') = entries (uring w) @
      [\<lparr>sqe_op = OpWrite (fd tk) (KernelBuf_Data kq) (kb_size kq mod 2 ^ 32) 0, sqe_user_data = task_word q, sqe_link = False\<rparr>,
       \<lparr>sqe_op = task_op tk k, sqe_user_data = task_word p, sqe_link = False\<rparr>] \<and>
    inflight w' = inflight w + 1 \<and> invoked w' = invoked w @ [(EchoId, p, Some res)] \<and>
    (\<exists>out'. store_inv out' (insert q used) (store w'))"
proof -
  let ?original = "take (nat res) (kb_contents k (kbw (store w)))"
  let ?resp = "echo_response (fd tk) ?original"
  have rm: "room 1 w" using assms(10) by (auto simp: room_def)
  have "kb_ok out k (kbw (store w))" using assms(4,5) by (auto simp: store_inv_def task_ok_def pending_def)
  then have load: "load_bytes (KernelBuf_Data k) (nat res) (k, kbw (store w)) = Inr ?original"
    by (rule load_contents [OF _ assms(16,17)])
  obtain q s kq where q: "handler_run E (AddTask (Suc n) E) p tk k res w =
      Inr (submitted E q (writer_task (fd tk) kq) kq (w\<lparr>store := s, invoked := invoked w @ [(EchoId, p, Some res)]\<rparr>))"
    "q \<noteq> p" "q \<noteq> nullptr" "tasks (store w) q = None"
    "tasks s = (tasks (store w))(p \<mapsto> tk\<lparr>buffer := Some (record_result (fd tk) res k)\<rparr>,
       q \<mapsto> AsyncTask_construct (fd tk) NoHandlerId kq)"
    "\<exists>out'. store_inv out' (insert q used) s" "kb_contents kq (kbw s) = ?resp" "kb_size kq = length ?resp" "kb_offset kq = 0"
    by (rule echo_handler_run [OF assms(1-9) rm load])
  obtain out' where inv: "store_inv out' (insert q used) s" using q(6) by blast
  have b: "buffer (writer_task (fd tk) kq) = buffer (AsyncTask_construct (fd tk) NoHandlerId kq)"
    by (simp add: writer_task_def)
  have ty: "task_type tk \<in> {TypeRead, TypeWrite, TypeAccept}" and res: "0 \<le> res" using assms(8,12) by simp_all
  show ?thesis
  proof (rule submit_and_repeat [OF assms(5) res assms(11,3,10) q(1,2,5) b inv assms(13-15) ty, of spins])
    fix w'
    assume d: "DispatchCqe spins E (AddTask (Suc n) E) p EventNone res w = Inr w'"
      "inflight w' = inflight w + 1" "invoked w' = invoked w @ [(EchoId, p, Some res)]"
      "tasks (store w') q = Some ((in_flight (writer_task (fd tk) kq))\<lparr>user_data := task_word q\<rparr>)"
      "store_inv out' (insert q used) (store w')" "kbw (store w') = kbw s"
      and e: "entries (uring w') = entries (uring w) @
        [\<lparr>sqe_op = task_op (writer_task (fd tk) kq) kq, sqe_user_data = task_word q, sqe_link = False\<rparr>,
         \<lparr>sqe_op = task_op tk k, sqe_user_data = task_word p, sqe_link = False\<rparr>]"
    have "task_op (writer_task (fd tk) kq) kq = OpWrite (fd tk) (KernelBuf_Data kq) (kb_size kq mod 2 ^ 32) 0"
      using q(9) by (simp add: task_op.simps writer_task_def AsyncTask_construct_def)
    moreover have "kb_contents kq (kbw (store w')) = to_bytes (''echo fd['' @ to_string (fd tk) @ '']: '') @ rev ?original @ [10]"
      using q(7) d(6) by (simp add: echo_response_def)
    moreover have "kb_size kq = length (kb_contents kq (kbw (store w')))" using q(7,8) d(6) by simp
    ultimately show ?thesis
      using d e q(4)
      by (intro exI [of _ w'] exI [of _ q] exI [of _ kq])
        (auto simp: writer_task_def AsyncTask_construct_def simp del: append.assoc)
  qed
qed

text \<open>
  A client of the echo server disconnects: the read ends with 0. \<^verbatim>\<open>EchoHandler\<close> closes the
  descriptor, but the task repeats, so the dispatch submits the next read at once, on the
  descriptor that was just closed; the task and its buffer stay, and as many operations as before
  are in flight.
\<close>

theorem echo_disconnect:
  assumes "env_cb E = echo_program" and "flushing E" and "pending w p tk k" and "handler tk = EchoId"
    and "sq (uring w) = []" and "room 1 w" and "p \<noteq> nullptr" and "task_type tk = TypeRead" and "repeat_forever tk"
    and "next_task tk = nullptr" and "timeout_ms tk \<le> 0"
  shows "\<exists>w'. DispatchCqe spins E (AddTask (Suc n) E) p EventNone 0 w = Inr w' \<and>
    closed_fds w' = closed_fds w @ [fd tk] \<and>
    entries (uring w') = entries (uring w) @ [\<lparr>sqe_op = task_op tk k, sqe_user_data = task_word p, sqe_link = False\<rparr>] \<and>
    (\<exists>d n off. task_op tk k = OpRead (fd tk) d n off) \<and> inflight w' = inflight w \<and>
    (\<exists>tk'. tasks (store w') p = Some tk' \<and> fd tk' = fd tk \<and> task_state tk' = StateSubmitted)"
proof -
  let ?k2 = "record_result (fd tk) 0 k"
  let ?tk2 = "tk\<lparr>buffer := Some ?k2\<rparr>"
  let ?w2 = "close_fd (fd tk) ((recorded p tk k 0 w)\<lparr>invoked := invoked w @ [(EchoId, p, Some 0)]\<rparr>)"
  let ?tp = "SetTaskState StateSuccess ?tk2"
  have run: "handler_run E (AddTask (Suc n) E) p tk k 0 w = Inr ?w2"
    using assms(4) by (simp add: handler_run_def assms(1) echo_program_def EchoHandler_def EchoId_def AcceptId_def)
  have w2: "tasks (store ?w2) p = Some ?tk2" "config ?w2 = config w" "inflight ?w2 = inflight w" "uring ?w2 = uring w"
      "closed_fds ?w2 = closed_fds w @ [fd tk]"
    by (simp_all add: recorded_def close_fd_def)
  have "DispatchCqe spins E (AddTask (Suc n) E) p EventNone 0 w =
      Inr ((submitted E p ?tp ?k2 ?w2)\<lparr>inflight := inflight ?w2\<rparr>)"
    by (rule repeat_world [OF assms(3) order_refl assms(7) run w2(1)]) (use assms w2 in \<open>simp_all add: room_def\<close>)
  moreover have "task_op ?tp ?k2 = task_op tk k"
    by (simp add: task_op.simps task_setters split: TaskType.split)
  ultimately show ?thesis
    using w2(3-5) assms(8) submitted_fields(7) [of E p ?tp ?k2 ?w2]
    by (simp add: task_op.simps task_setters del: submitted_fields(7))
qed

section \<open>Example\<close>

definition echo_env :: io_env where
  "echo_env = demo_env\<lparr>env_cb := echo_program\<rparr>"

lemma echo_env_fields [simp]:
  "env_cb echo_env = echo_program" "env_alloc echo_env = tight_alloc" "env_tid echo_env = 0" "flushing echo_env"
  by (simp_all add: echo_env_def demo_env_def flushing_def)

theorem accept_spawns_reader_witness:
  "\<exists>w' q d. DispatchCqe 0 echo_env (AddTask 1 echo_env) 64 EventNone 9
      (demo_world (\<lambda>t. t\<lparr>task_state := StateSubmitted, task_type := TypeAccept, repeat_forever := True, handler := AcceptId\<rparr>) 0 1) =
      Inr w' \<and> inflight w' = 2 \<and>
    entries (uring w') =
      [\<lparr>sqe_op = OpRead 9 d 2048 0, sqe_user_data = task_word q, sqe_link = False\<rparr>,
       \<lparr>sqe_op = OpAccept 5, sqe_user_data = task_word 64, sqe_link = False\<rparr>]"
proof -
  let ?f = "\<lambda>t. t\<lparr>task_state := StateSubmitted, task_type := TypeAccept, repeat_forever := True, handler := AcceptId\<rparr>"
  obtain out used where inv: "store_inv out used (store (demo_world ?f 0 1))" using demo_inv [of ?f 0 1] by auto
  let ?w = "demo_world ?f 0 1" and ?tk = "?f demo_task"
  have p: "pending ?w 64 ?tk demo_buf" "room 2 ?w" by (simp_all add: pending_def room_def)
  have t: "handler ?tk = AcceptId" "sq (uring ?w) = []" "(64 :: nat) \<noteq> nullptr" "task_type ?tk = TypeAccept"
      "repeat_forever ?tk" "next_task ?tk = nullptr" "timeout_ms ?tk \<le> 0" "(0 :: int) < 9"
    by simp_all
  have E: "allocator_ok (env_alloc echo_env)" "fst (Acquire (env_alloc echo_env) (env_tid echo_env) (tpool (store ?w))) \<noteq> nullptr"
    using tight_alloc_ok demo_more_memory [of ?f 0 1] by simp_all
  obtain w' q kq where "DispatchCqe 0 echo_env (AddTask (Suc 0) echo_env) 64 EventNone 9 ?w = Inr w'"
      "entries (uring w') = entries (uring ?w) @
        [\<lparr>sqe_op = OpRead 9 (KernelBuf_Data kq) 2048 0, sqe_user_data = task_word q, sqe_link = False\<rparr>,
         \<lparr>sqe_op = OpAccept (fd ?tk), sqe_user_data = task_word 64, sqe_link = False\<rparr>]"
      "inflight w' = inflight ?w + 1"
    using accept_spawns_reader [OF echo_env_fields(1) E(1) echo_env_fields(4) inv p(1) t(1) E(2) t(8,2) p(2) t(3-7), of 0 0]
    by (elim exE conjE) (rule that)
  then show ?thesis by (intro exI [of _ w'] exI [of _ q] exI [of _ "KernelBuf_Data kq"]) simp
qed

theorem echo_reply_witness:
  "\<exists>w' q d n e. DispatchCqe 0 echo_env (AddTask 1 echo_env) 64 EventNone 2000
      (demo_world (\<lambda>t. t\<lparr>task_state := StateSubmitted, task_type := TypeRead, repeat_forever := True, handler := EchoId\<rparr>) 0 1) =
      Inr w' \<and> inflight w' = 2 \<and>
    entries (uring w') = [\<lparr>sqe_op = OpWrite 5 d n 0, sqe_user_data = task_word q, sqe_link = False\<rparr>, e] \<and>
    sqe_user_data e = task_word 64"
proof -
  let ?f = "\<lambda>t. t\<lparr>task_state := StateSubmitted, task_type := TypeRead, repeat_forever := True, handler := EchoId\<rparr>"
  obtain out used where inv: "store_inv out used (store (demo_world ?f 0 1))" using demo_inv [of ?f 0 1] by auto
  let ?w = "demo_world ?f 0 1" and ?tk = "?f demo_task"
  have p: "pending ?w 64 ?tk demo_buf" "room 2 ?w" by (simp_all add: pending_def room_def)
  have t: "handler ?tk = EchoId" "sq (uring ?w) = []" "(64 :: nat) \<noteq> nullptr" "task_type ?tk = TypeRead"
      "repeat_forever ?tk" "next_task ?tk = nullptr" "timeout_ms ?tk \<le> 0" "(0 :: int) < 2000"
    by simp_all
  have k: "storage_tag demo_buf \<noteq> TagNone" "nat 2000 \<le> kb_size demo_buf"
    using demo_buf_storage by simp_all
  have E: "allocator_ok (env_alloc echo_env)" "fst (Acquire (env_alloc echo_env) (env_tid echo_env) (tpool (store ?w))) \<noteq> nullptr"
    using tight_alloc_ok demo_more_memory [of ?f 0 1] by simp_all
  obtain w' q kq where "DispatchCqe 0 echo_env (AddTask (Suc 0) echo_env) 64 EventNone 2000 ?w = Inr w'"
      "entries (uring w') = entries (uring ?w) @
        [\<lparr>sqe_op = OpWrite (fd ?tk) (KernelBuf_Data kq) (kb_size kq mod 2 ^ 32) 0, sqe_user_data = task_word q, sqe_link = False\<rparr>,
         \<lparr>sqe_op = task_op ?tk demo_buf, sqe_user_data = task_word 64, sqe_link = False\<rparr>]"
      "inflight w' = inflight ?w + 1"
    using echo_reply [OF echo_env_fields(1) E(1) echo_env_fields(4) inv p(1) t(1) E(2) t(8,2) p(2) t(3-7) k, of 0 0]
    by (elim exE conjE) (rule that)
  then show ?thesis
    by (intro exI [of _ w'] exI [of _ q] exI [of _ "KernelBuf_Data kq"] exI [of _ "kb_size kq mod 2 ^ 32"]) auto
qed

theorem echo_disconnect_witness:
  "\<exists>w'. DispatchCqe 0 echo_env (AddTask 1 echo_env) 64 EventNone 0
      (demo_world (\<lambda>t. t\<lparr>task_state := StateSubmitted, task_type := TypeRead, repeat_forever := True, handler := EchoId\<rparr>) 0 1) =
      Inr w' \<and> closed_fds w' = [5] \<and> inflight w' = 1 \<and> (\<exists>e. entries (uring w') = [e] \<and> sqe_user_data e = task_word 64)"
proof -
  let ?f = "\<lambda>t. t\<lparr>task_state := StateSubmitted, task_type := TypeRead, repeat_forever := True, handler := EchoId\<rparr>"
  have p: "pending (demo_world ?f 0 1) 64 (?f demo_task) demo_buf" "room 1 (demo_world ?f 0 1)"
    by (simp_all add: pending_def room_def)
  show ?thesis
    using echo_disconnect [OF echo_env_fields(1,4) p(1) _ _ p(2), of 0 0] by auto
qed

end
