(* ===== verification/Chunk_Reader.thy ===== *)
theory Chunk_Reader
  imports Programs
begin

text \<open>
  \<^verbatim>\<open>examples/read_large_file_example.cc\<close>: a handler that reads a file in chunks, each completion
  submitting the read of the next chunk. A run over any sequence of results reads the file without
  gaps and without overlaps, and the end of the file closes the descriptor twice.
\<close>

section \<open>The handler\<close>

definition ChunkId :: nat where "ChunkId = 3"

definition ReadChunkHandler :: "KernelBuf \<Rightarrow> kb_world \<Rightarrow> cb_prog" where
  "ReadChunkHandler buf v =
     (let n = io_value buf; c = io_fd buf
      in if n < 0 then Call (CloseCall c) (\<lambda>_. Call ShutdownCall (\<lambda>_. Return))
         else if n = 0 then Call (CloseCall c) (\<lambda>_. Call ShutdownCall (\<lambda>_. Return))
         else case load_bytes (KernelBuf_Data buf) (nat n) (buf, v) of
                Inl e \<Rightarrow> Call (FaultCall e) (\<lambda>_. Return)
              | Inr _ \<Rightarrow>
                  let next_offset = kb_offset buf + n
                  in Call (CreateCall c ChunkId) (\<lambda>next.
                       set_all next [TaskTypeIs TypeRead]
                         (Call (ResizeCall next 32) (\<lambda>_.
                            set_all next [FdOffsetIs next_offset] (add_then next Return)))))"

definition chunk_program :: "nat \<Rightarrow> KernelBuf option \<times> kb_world \<Rightarrow> cb_prog" where
  "chunk_program h kv =
     (case kv of (Some k, v) \<Rightarrow> if h = ChunkId then ReadChunkHandler k v else Return | (None, v) \<Rightarrow> Return)"

section \<open>The next chunk\<close>

definition chunk_task :: "int \<Rightarrow> KernelBuf \<Rightarrow> AsyncTask" where
  "chunk_task c k = (AsyncTask_construct c ChunkId k)\<lparr>task_type := TypeRead\<rparr>"

text \<open>The calls of the handler up to the submission of the next read.\<close>

lemma next_chunk:
  assumes E: "allocator_ok (env_alloc E)" "abundant (env_alloc E)" "flushing E"
    and inv: "store_inv out used (store w)" and sq: "sq (uring w) = []" and rm: "room 1 w"
  obtains q s k out' where "run_cb E (AddTask (Suc n) E) p (Call (CreateCall c ChunkId) (\<lambda>next.
      set_all next [TaskTypeIs TypeRead] (Call (ResizeCall next 32) (\<lambda>_.
        set_all next [FdOffsetIs off] (add_then next Return))))) w = Inr (submitted E q (chunk_task c k) k (w\<lparr>store := s\<rparr>))"
    "q \<noteq> nullptr" "tasks (store w) q = None" "tasks s = (tasks (store w))(q \<mapsto> chunk_task c k)"
    "store_inv out' (insert q used) s" "in_object k" "kb_size k = 32" "kb_offset k = off"
proof -
  let ?rest = "\<lambda>next. set_all next [FdOffsetIs off] (add_then next Return)"
  have cs: "\<forall>d \<in> set [TaskTypeIs TypeRead]. plain_setting d" and l: "(32 :: nat) \<le> kKernelBufSboSize"
    by (simp_all add: size_consts)
  obtain q s k out' where r: "run_cb E (AddTask (Suc n) E) p (Call (CreateCall c ChunkId) (\<lambda>next.
      set_all next [TaskTypeIs TypeRead] (Call (ResizeCall next 32) (\<lambda>_. ?rest next)))) w =
      run_cb E (AddTask (Suc n) E) p (?rest q) (w\<lparr>store := s\<rparr>)"
    "q \<noteq> nullptr" "tasks (store w) q = None"
    "tasks s = (tasks (store w))(q \<mapsto> fold apply_setting [TaskTypeIs TypeRead] (AsyncTask_construct c ChunkId k))"
    "store_inv out' (insert q used) s" "in_object k" "kb_size k = 32"
    by (rule create_resized [OF E(1,2) inv cs l])
  have t: "tasks s = (tasks (store w))(q \<mapsto> chunk_task c k)"
    using r(4) by (simp add: apply_setting_def task_setters chunk_task_def AsyncTask_construct_def)
  let ?k = "SetFdOffset off k"
  let ?s = "s\<lparr>tasks := (tasks s)(q \<mapsto> chunk_task c ?k)\<rparr>"
  have k: "in_object ?k" "kb_size ?k = 32" "kb_offset ?k = off"
    using r(6,7) by (simp_all add: in_object_def SetFdOffset_def)
  have o: "modify_task q (apply_setting (FdOffsetIs off)) (w\<lparr>store := s\<rparr>) = Inr (w\<lparr>store := ?s\<rparr>)"
    using t by (simp add: modify_task_def apply_setting_def set_task_def chunk_task_def AsyncTask_construct_def)
  have a: "AddTask (Suc n) E q (w\<lparr>store := ?s\<rparr>) = Inr (True, submitted E q (chunk_task c ?k) ?k (w\<lparr>store := ?s\<rparr>))"
    by (rule AddTask_submitted(1))
      (use r(2) rm E(3) sq in \<open>simp_all add: chunk_task_def AsyncTask_construct_def room_def\<close>)
  have "store_inv out' (insert q used) ?s"
    by (rule store_inv_in_object [OF r(5), of q "chunk_task c k" _ ?k])
      (use t k(1) in \<open>simp_all add: chunk_task_def AsyncTask_construct_def\<close>)
  then show thesis using that [of q ?k ?s out'] r(1-3) o a t k by (simp add: add_then_def)
qed

section \<open>One completion\<close>

text \<open>The read of the chunk at offset \<^verbatim>\<open>off\<close> is in flight, for the task at \<^verbatim>\<open>p\<close>.\<close>

definition reading_task :: "int \<Rightarrow> int \<Rightarrow> AsyncTask \<Rightarrow> KernelBuf \<Rightarrow> bool" where
  "reading_task c off tk k \<longleftrightarrow> handler tk = ChunkId \<and> fd tk = c \<and> \<not> repeat_forever tk \<and> next_task tk = nullptr \<and>
     in_object k \<and> kb_size k = 32 \<and> kb_offset k = off"

definition reading :: "int \<Rightarrow> int \<Rightarrow> ptr \<Rightarrow> io_world \<Rightarrow> bool" where
  "reading c off p w \<longleftrightarrow> p \<noteq> nullptr \<and> sq (uring w) = [] \<and> (\<exists>tk k. pending w p tk k \<and> reading_task c off tk k)"

definition chunk_entry :: "int \<Rightarrow> ptr \<Rightarrow> int \<Rightarrow> sqe" where
  "chunk_entry c q off =
     \<lparr>sqe_op = OpRead c DSbo 32 (word_of_int off), sqe_user_data = task_word q, sqe_link = False\<rparr>"

lemma chunk_step:
  assumes E: "env_cb E = chunk_program" "allocator_ok (env_alloc E)" "abundant (env_alloc E)" "flushing E"
    and inv: "store_inv out used (store w)" and rd: "reading c off p w" and rm: "room 1 w"
    and res: "0 < res" "res \<le> 32"
  obtains q w' out' where "DispatchCqe spins E (AddTask (Suc n) E) p EventNone res w = Inr w'"
    "entries (uring w') = entries (uring w) @ [chunk_entry c q (off + res)]" "reading c (off + res) q w'"
    "store_inv out' (insert q used) (store w')" "tasks (store w) q = None"
    "inflight w' = inflight w" "config w' = config w" "closed_fds w' = closed_fds w"
proof -
  obtain tk k where pen: "pending w p tk k" and tk: "reading_task c off tk k" and p: "sq (uring w) = []"
    using rd by (auto simp: reading_def)
  let ?tk = "tk\<lparr>buffer := Some (record_result c res k)\<rparr>"
  let ?w1 = "(recorded p tk k res w)\<lparr>invoked := invoked w @ [(ChunkId, p, Some res)]\<rparr>"
  have t: "tasks (store w) p = Some tk" "buffer tk = Some k" "fd tk = c" "handler tk = ChunkId"
    using pen tk by (simp_all add: pending_def reading_task_def)
  have k: "in_object k" "kb_size k = 32" "kb_offset k = off" using tk by (simp_all add: reading_task_def)
  have w1: "store_inv out used (store ?w1)" "sq (uring ?w1) = []" "room 1 ?w1"
    using store_inv_result [OF inv t(1,2), of ?tk] p rm t(3) by (simp_all add: recorded_def set_task_def room_def)
  obtain q s k1 out' where q: "run_cb E (AddTask (Suc n) E) p (Call (CreateCall c ChunkId) (\<lambda>next.
      set_all next [TaskTypeIs TypeRead] (Call (ResizeCall next 32) (\<lambda>_.
        set_all next [FdOffsetIs (off + res)] (add_then next Return))))) ?w1 =
        Inr (submitted E q (chunk_task c k1) k1 (?w1\<lparr>store := s\<rparr>))"
    "q \<noteq> nullptr" "tasks (store ?w1) q = None" "tasks s = (tasks (store ?w1))(q \<mapsto> chunk_task c k1)"
    "store_inv out' (insert q used) s" "in_object k1" "kb_size k1 = 32" "kb_offset k1 = off + res"
    by (rule next_chunk [OF E(2-4) w1, of n p c "off + res"])
  let ?w2 = "submitted E q (chunk_task c k1) k1 (?w1\<lparr>store := s\<rparr>)"
  have "\<exists>bs. load_bytes (KernelBuf_Data k) (nat res) (k, kbw (store w)) = Inr bs"
    using load_contents [OF in_object_ok(1,4) [OF k(1)], of "nat res"] res k(2) by auto
  then have "env_cb E (handler tk) (Some (record_result c res k), kbw (store w)) = Call (CreateCall c ChunkId) (\<lambda>next.
      set_all next [TaskTypeIs TypeRead] (Call (ResizeCall next 32) (\<lambda>_.
        set_all next [FdOffsetIs (off + res)] (add_then next Return))))"
    using res k(3) by (auto simp: E(1) t(4) chunk_program_def ReadChunkHandler_def Let_def)
  then have run: "handler_run E (AddTask (Suc n) E) p tk k res w = Inr ?w2"
    using q(1) t(3,4) by (simp add: handler_run_def del: set_all.simps run_cb.simps)
  have qp: "q \<noteq> p" "tasks (store w) q = None" using q(3) t(1) by (auto simp: recorded_def split: if_splits)
  have ts: "tasks (store (?w1\<lparr>store := s\<rparr>)) =
      (tasks (store w))(p \<mapsto> tk\<lparr>buffer := Some (record_result (fd tk) res k)\<rparr>, q \<mapsto> chunk_task c k1)"
    using q(4) by (simp add: recorded_def)
  have op: "task_op (chunk_task c k1) k1 = OpRead c DSbo 32 (word_of_int (off + res))"
    using q(7,8) in_object_ok(3) [OF q(6)] by (simp add: task_op.simps chunk_task_def AsyncTask_construct_def)
  show thesis
  proof (rule one_shot_submits [OF pen res(1) E(4) run qp(1) ts refl _ _ _, of out' "insert q used" spins])
    fix w'
    assume d: "DispatchCqe spins E (AddTask (Suc n) E) p EventNone res w = Inr w'"
      "tasks (store w') q = Some ((in_flight (chunk_task c k1))\<lparr>user_data := task_word q\<rparr>)"
      "store_inv out' (insert q used) (store w')" "sq (uring w') = []" "inflight w' = inflight w"
      "config w' = config (?w1\<lparr>store := s\<rparr>)" "closed_fds w' = closed_fds (?w1\<lparr>store := s\<rparr>)"
      and e: "entries (uring w') = entries (uring w) @
        [\<lparr>sqe_op = task_op (chunk_task c k1) k1, sqe_user_data = task_word q, sqe_link = False\<rparr>]"
    have "reading c (off + res) q w'"
      using d(2,4) q(2,6-8)
      by (auto simp: reading_def pending_def reading_task_def chunk_task_def AsyncTask_construct_def admitted_def
          Let_def task_setters)
    then show thesis
      using that [of w' q out'] d e op qp(2) by (simp add: recorded_def chunk_entry_def)
  qed (use q(5) tk in \<open>simp_all add: recorded_def reading_task_def\<close>)
qed

section \<open>A whole file\<close>

text \<open>The offsets of the chunks after the first one, at \<^verbatim>\<open>off\<close>, when the reads give \<^verbatim>\<open>rs\<close> bytes.\<close>

fun offsets :: "int \<Rightarrow> int list \<Rightarrow> int list" where
  "offsets off [] = []"
| "offsets off (r # rs) = (off + r) # offsets (off + r) rs"

lemma chunk_run:
  assumes E: "env_cb E = chunk_program" "allocator_ok (env_alloc E)" "abundant (env_alloc E)" "flushing E"
    and "store_inv out used (store w)" and "reading c off p w" and "room 1 w" and "\<forall>r \<in> set rs. 0 < r \<and> r \<le> 32"
  shows "\<exists>qs w' out' used'. length qs = length rs \<and> dispatch_all spins E (AddTask (Suc n) E) (zip (p # qs) rs) w = Inr w' \<and>
    entries (uring w') = entries (uring w) @ map2 (chunk_entry c) qs (offsets off rs) \<and>
    reading c (off + sum_list rs) (last (p # qs)) w' \<and> store_inv out' used' (store w') \<and>
    inflight w' = inflight w \<and> config w' = config w \<and> closed_fds w' = closed_fds w"
  using assms(5-8)
proof (induction rs arbitrary: w p off out used)
  case Nil
  show ?case by (intro exI [of _ "[]"] exI [of _ w] exI [of _ out] exI [of _ used]) (use Nil in simp)
next
  case (Cons r rs)
  obtain q w1 out1 where s: "DispatchCqe spins E (AddTask (Suc n) E) p EventNone r w = Inr w1"
    "entries (uring w1) = entries (uring w) @ [chunk_entry c q (off + r)]" "reading c (off + r) q w1"
    "store_inv out1 (insert q used) (store w1)" "inflight w1 = inflight w" "config w1 = config w" "closed_fds w1 = closed_fds w"
    by (rule chunk_step [OF E Cons.prems(1-3), of r spins n]) (use Cons.prems(4) in auto)
  have rm: "room 1 w1" and rs: "\<forall>r \<in> set rs. 0 < r \<and> r \<le> 32"
    using Cons.prems(3,4) s(5,6) by (simp_all add: room_def)
  obtain qs w' out' used' where h: "length qs = length rs"
    "dispatch_all spins E (AddTask (Suc n) E) (zip (q # qs) rs) w1 = Inr w'"
    "entries (uring w') = entries (uring w1) @ map2 (chunk_entry c) qs (offsets (off + r) rs)"
    "reading c (off + r + sum_list rs) (last (q # qs)) w'" "store_inv out' used' (store w')"
    "inflight w' = inflight w1" "config w' = config w1" "closed_fds w' = closed_fds w1"
    using Cons.IH [OF s(4,3) rm rs] by (elim exE conjE) (rule that)
  then show ?case
    using s by (intro exI [of _ "q # qs"] exI [of _ w'] exI [of _ out'] exI [of _ used']) (simp add: add.assoc)
qed

text \<open>
  C11: The chunk reader reads a file without gaps and without overlaps. Whatever number of bytes,
  from 1 to 32, each read gives, the completions lead to one new read each, on the same
  descriptor, at the offset where the last one ended; after them exactly one read is in flight, at
  the offset that is the number of bytes read so far.
\<close>

theorem chunked_read:
  assumes "env_cb E = chunk_program" and "allocator_ok (env_alloc E)" and "abundant (env_alloc E)" and "flushing E"
    and "store_inv out used (store w)" and "reading c off p w" and "room 1 w" and "\<forall>r \<in> set rs. 0 < r \<and> r \<le> 32"
  shows "\<exists>qs w'. length qs = length rs \<and> dispatch_all spins E (AddTask (Suc n) E) (zip (p # qs) rs) w = Inr w' \<and>
    entries (uring w') = entries (uring w) @ map2 (chunk_entry c) qs (offsets off rs) \<and>
    reading c (off + sum_list rs) (last (p # qs)) w' \<and> inflight w' = inflight w \<and> closed_fds w' = closed_fds w"
  using chunk_run [OF assms, of spins n] by (elim exE conjE) (intro exI conjI)

text \<open>
  At the end of the file the descriptor is closed twice. The handler closes it, and for a
  one-shot task whose result is 0 so does the event loop afterwards; the shutdown is
  requested, the task deleted and one operation less in flight.
\<close>

theorem chunk_end_closes_twice:
  assumes "env_cb E = chunk_program" and "store_inv out used (store w)" and "reading c off p w" and "0 < c"
    and "0 < env_chain E"
  shows "\<exists>w'. DispatchCqe spins E add p EventNone 0 w = Inr w' \<and> closed_fds w' = closed_fds w @ [c, c] \<and>
    shutdown_requested w' \<and> deleted p used w w' \<and> inflight w' = inflight w - 1"
proof -
  obtain tk k where tk: "pending w p tk k" "reading_task c off tk k" and p: "p \<noteq> nullptr" "sq (uring w) = []"
    using assms(3) by (auto simp: reading_def)
  then have aw: "awaiting c ChunkId p k w" by (auto simp: awaiting_def pending_def reading_task_def)
  let ?u = "close_fd c (called ChunkId p 0 w)"
  let ?v = "RequestShutdown E ?u"
  have run: "run_cb E add p (env_cb E ChunkId (Some (record_result c 0 k), kbw (store w))) (called ChunkId p 0 w) = Inr ?v"
    by (simp add: assms(1) chunk_program_def ReadChunkHandler_def)
  have st: "store ?v = store (called ChunkId p 0 w)" "shutdown_requested ?v"
    using shutdown_flag [of E ?u] by (simp_all add: close_fd_def)
  have fr: "closed_fds ?v = closed_fds w @ [c]" "inflight ?v = inflight w"
    using shutdown_frame [of E ?u] by (simp_all add: close_fd_def)
  have inv: "store_inv out used (store ?v)" and ts: "tasks (store ?v) p = tasks (store (called ChunkId p 0 w)) p"
    using called_awaiting(2) [OF aw assms(2)] st(1) by simp_all
  obtain w' where "DispatchCqe spins E add p EventNone 0 w = Inr w'" "deleted p used ?v w'" "inflight w' = inflight ?v - 1"
      "closed_fds w' = closed_fds ?v @ [c]" "shutdown_requested w'"
    using awaited_zero [OF aw assms(4,5) run ts inv, of spins] st(2) by auto
  moreover have "deleted p used w w'"
    using \<open>deleted p used ?v w'\<close> st(1) tk(1) by (simp add: deleted_def called_def recorded_def pending_def)
  ultimately show ?thesis using fr by (intro exI [of _ w']) simp
qed

section \<open>Example\<close>

definition chunk_env :: io_env where
  "chunk_env = demo_env\<lparr>env_cb := chunk_program, env_alloc := bump_alloc\<rparr>"

lemma chunk_env_fields [simp]:
  "env_cb chunk_env = chunk_program" "env_alloc chunk_env = bump_alloc" "flushing chunk_env" "env_chain chunk_env = 4"
  by (simp_all add: chunk_env_def demo_env_def flushing_def)

text \<open>A read of 32 bytes into the task's own buffer is in flight.\<close>

definition small_buf :: KernelBuf where
  "small_buf = (message_buf (replicate 32 0))"

lemma small_buf_facts [simp]: "in_object small_buf" "kb_size small_buf = 32" "kb_offset small_buf = 0"
  using message_buf_facts [of "replicate 32 0"] by (simp_all add: small_buf_def size_consts)

abbreviation chunk_world :: io_world where
  "chunk_world \<equiv> demo_world (\<lambda>t. t\<lparr>task_state := StateSubmitted, task_type := TypeRead, handler := ChunkId,
     buffer := Some small_buf\<rparr>) 0 1"

lemma chunk_world_reading: "reading 5 0 64 chunk_world" "room 1 chunk_world"
  by (simp_all add: reading_def reading_task_def pending_def room_def)

lemma chunk_world_inv: "\<exists>out used. store_inv out used (store chunk_world)"
proof -
  obtain out used where "store_inv out used (store (demo_world id 0 1))" using demo_inv [of id 0 1] by auto
  then show ?thesis
    using in_object_ok(1) [of small_buf] 
    by (intro exI [of _ out] exI [of _ used])
      (auto simp: store_inv_def task_ok_def demo_world_def tasks_apart_def)
qed

theorem chunked_read_witness:
  "\<exists>qs w'. dispatch_all 0 chunk_env (AddTask 1 chunk_env) (zip (64 # qs) [32, 32, 7]) chunk_world = Inr w' \<and>
     length qs = 3 \<and> entries (uring w') = map2 (chunk_entry 5) qs [32, 64, 71]"
proof -
  obtain out used where inv: "store_inv out used (store chunk_world)" using chunk_world_inv by blast
  have E: "env_cb chunk_env = chunk_program" "allocator_ok (env_alloc chunk_env)" "abundant (env_alloc chunk_env)"
      "flushing chunk_env" "\<forall>r \<in> set [32, 32, 7 :: int]. 0 < r \<and> r \<le> 32"
    using abundant_bump bump_alloc_ok by simp_all
  obtain qs w' where "length qs = length [32, 32, 7 :: int]"
      "dispatch_all 0 chunk_env (AddTask (Suc 0) chunk_env) (zip (64 # qs) [32, 32, 7]) chunk_world = Inr w'"
      "entries (uring w') = entries (uring chunk_world) @ map2 (chunk_entry 5) qs (offsets 0 [32, 32, 7])"
    using chunked_read [OF E(1-4) inv chunk_world_reading E(5), of 0 0] by (elim exE conjE) (rule that)
  then show ?thesis by (intro exI [of _ qs] exI [of _ w']) (simp del: dispatch_all.simps zip_Cons_Cons)
qed

theorem chunk_end_closes_twice_witness:
  "\<exists>w'. DispatchCqe 0 chunk_env (AddTask 1 chunk_env) 64 EventNone 0 chunk_world = Inr w' \<and> closed_fds w' = [5, 5]"
proof -
  obtain out used where inv: "store_inv out used (store chunk_world)" using chunk_world_inv by blast
  show ?thesis
    using chunk_end_closes_twice [OF _ inv chunk_world_reading(1), of chunk_env 0 "AddTask 1 chunk_env"] by auto
qed

end
