(* ===== verification/File_Programs.thy ===== *)
theory File_Programs
  imports Programs
begin

text \<open>
  \<^verbatim>\<open>examples/file_write_example.cc\<close>, \<^verbatim>\<open>examples/task_chain_example.cc\<close> and
  \<^verbatim>\<open>examples/custom_handler_example.cc\<close>: programs that write a file and read it back, or read one. The
  descriptors that \<^verbatim>\<open>open\<close> returns are parameters.
\<close>

section \<open>Common parts\<close>

text \<open>Printing the first \<^verbatim>\<open>n\<close> bytes of a buffer.\<close>

definition show_data :: "KernelBuf \<Rightarrow> kb_world \<Rightarrow> nat \<Rightarrow> cb_prog \<Rightarrow> cb_prog" where
  "show_data buf v n prog =
     (case load_bytes (KernelBuf_Data buf) n (buf, v) of
        Inl e \<Rightarrow> Call (FaultCall e) (\<lambda>_. Return)
      | Inr _ \<Rightarrow> prog)"

definition close_then :: "int \<Rightarrow> cb_prog \<Rightarrow> cb_prog" where
  "close_then c prog = Call (CloseCall c) (\<lambda>_. prog)"

definition unlink_then :: "string \<Rightarrow> cb_prog \<Rightarrow> cb_prog" where
  "unlink_then name prog = Call (UnlinkCall name) (\<lambda>_. prog)"

definition shutdown_now :: cb_prog where
  "shutdown_now = Call ShutdownCall (\<lambda>_. Return)"

lemma show_data_ok:
  assumes "load_bytes (KernelBuf_Data k) n (k, v) = Inr bs"
  shows "show_data (record_result c res k) v n prog = prog"
  using assms by (simp add: show_data_def)

section \<open>Writing a file and reading it back\<close>

definition WriteDoneId :: nat where "WriteDoneId = 4"
definition VerifyId :: nat where "VerifyId = 5"

definition write_demo_file :: string where "write_demo_file = ''/tmp/async_io_write_demo.txt''"

definition VerifyReadHandler :: "KernelBuf \<Rightarrow> kb_world \<Rightarrow> cb_prog" where
  "VerifyReadHandler buf v =
     (let n = io_value buf; c = io_fd buf;
          rest = close_then c (unlink_then write_demo_file shutdown_now)
      in if n < 0 then rest else show_data buf v (nat n) rest)"

text \<open>\<^verbatim>\<open>rfd\<close> is what \<^verbatim>\<open>open(kTmpFile, O_RDONLY)\<close> returns.\<close>

definition WriteCompleteHandler :: "int \<Rightarrow> KernelBuf \<Rightarrow> cb_prog" where
  "WriteCompleteHandler rfd buf =
     (let n = io_value buf; c = io_fd buf
      in if n < 0 then close_then c (unlink_then write_demo_file shutdown_now)
         else close_then c
           (if rfd < 0 then shutdown_now
            else Call (CreateCall rfd VerifyId) (\<lambda>rt. set_all rt [TaskTypeIs TypeRead] (add_then rt Return))))"

definition write_demo_content :: "byte list" where
  "write_demo_content = to_bytes ''Hello, async I/O world!'' @ [10] @ to_bytes ''This is a write demo.'' @ [10]"

text \<open>\<^verbatim>\<open>main\<close> up to \<^verbatim>\<open>Join\<close>, on a handler that is initialised; \<^verbatim>\<open>wfd\<close> is what \<^verbatim>\<open>open\<close> returns for writing.\<close>

definition file_write_main :: "int \<Rightarrow> cb_prog" where
  "file_write_main wfd =
     (if wfd < 0 then Return
      else Call (CreateCall wfd WriteDoneId) (\<lambda>t.
        set_all t [TaskTypeIs TypeWrite, DebugStrIs ''file_write_demo'']
          (Call (ResizeCall t (length write_demo_content)) (\<lambda>_.
             Call (StoreCall t write_demo_content) (\<lambda>_. add_then t Return)))))"

definition file_write_program :: "int \<Rightarrow> nat \<Rightarrow> KernelBuf option \<times> kb_world \<Rightarrow> cb_prog" where
  "file_write_program rfd h kv =
     (case kv of
        (Some k, v) \<Rightarrow>
          (if h = WriteDoneId then WriteCompleteHandler rfd k else if h = VerifyId then VerifyReadHandler k v else Return)
      | (None, v) \<Rightarrow> Return)"

section \<open>The start of a program that writes\<close>

text \<open>A program that creates a write task for a short message and submits it: the write is awaited.\<close>

lemma write_started:
  assumes E: "allocator_ok (env_alloc E)" "abundant (env_alloc E)" "flushing E"
    and inv: "store_inv out used (store w)" and w: "sq (uring w) = []" "room 1 w" and len: "length bs \<le> kKernelBufSboSize"
  obtains q k w' out' where "run_cb E (AddTask (Suc n) E) p (Call (CreateCall c h) (\<lambda>t.
      set_all t [TaskTypeIs TypeWrite, DebugStrIs str] (Call (ResizeCall t (length bs)) (\<lambda>_.
        Call (StoreCall t bs) (\<lambda>_. add_then t Return))))) w = Inr w'"
    "entries (uring w') = entries (uring w) @
      [\<lparr>sqe_op = OpWrite c DSbo (length bs) 0, sqe_user_data = task_word q, sqe_link = False\<rparr>]"
    "awaiting c h q k w'" "kb_contents k (kbw (store w')) = bs" "store_inv out' (insert q used) (store w')"
    "inflight w' = inflight w + 1" "config w' = config w" "invoked w' = invoked w" "closed_fds w' = closed_fds w"
    "removed w' = removed w" "shutdown_requested w' = shutdown_requested w"
proof -
  let ?cs = "[TaskTypeIs TypeWrite, DebugStrIs str]"
  have cs: "\<forall>e \<in> set ?cs. plain_setting e" by simp
  obtain q s k out' where m: "run_cb E (AddTask (Suc n) E) p (Call (CreateCall c h) (\<lambda>t.
      set_all t ?cs (Call (ResizeCall t (length bs)) (\<lambda>_. Call (StoreCall t bs) (\<lambda>_. add_then t Return))))) w =
      run_cb E (AddTask (Suc n) E) p (add_then q Return) (w\<lparr>store := s\<rparr>)"
    "q \<noteq> nullptr" "tasks (store w) q = None"
    "tasks s = (tasks (store w))(q \<mapsto> fold apply_setting ?cs (AsyncTask_construct c h k))"
    "store_inv out' (insert q used) s" "in_object k" "kb_size k = length bs" "kb_offset k = 0" "\<forall>v. kb_contents k v = bs"
    by (rule message_created [OF E(1,2) inv cs len])
  let ?t = "fold apply_setting ?cs (AsyncTask_construct c h k)"
  have t: "buffer ?t = Some k" "ready ?t" "fd ?t = c" "handler ?t = h" "\<not> repeat_forever ?t" "next_task ?t = nullptr"
    by (simp_all add: apply_setting_def task_setters AsyncTask_construct_def ready_def)
  have o: "task_op ?t k = OpWrite c DSbo (length bs) 0"
    using m(7,8) in_object_ok(3) [OF m(6)] len
    by (simp add: apply_setting_def task_setters AsyncTask_construct_def task_op.simps size_consts)
  let ?w = "w\<lparr>store := s\<rparr>"
  let ?w' = "submitted E q ?t k ?w"
  have tq: "tasks (store ?w) q = Some ?t" using m(4) by simp
  have "run_cb E (AddTask (Suc n) E) p (add_then q Return) ?w = run_cb E (AddTask (Suc n) E) p Return ?w'"
    by (rule add_created(1) [OF tq t(1,2) m(2)]) (use w E(3) in \<open>simp_all add: room_def\<close>)
  then have r: "run_cb E (AddTask (Suc n) E) p (Call (CreateCall c h) (\<lambda>t.
      set_all t ?cs (Call (ResizeCall t (length bs)) (\<lambda>_. Call (StoreCall t bs) (\<lambda>_. add_then t Return))))) w = Inr ?w'"
    using m(1) by simp
  have "tasks (store ?w') q = Some ((in_flight ?t)\<lparr>user_data := task_word q\<rparr>)" by simp
  from submitted_awaits [OF this t(1) m(2) submitted_sq [OF E(3)] t(5,6)]
  have a: "awaiting c h q k ?w'" unfolding t(3,4) .
  have i: "store_inv out' (insert q used) (store ?w')" using submitted_inv [of _ _ ?w q ?t ?t] m(4,5) by simp
  have e: "entries (uring ?w') = entries (uring w) @
      [\<lparr>sqe_op = OpWrite c DSbo (length bs) 0, sqe_user_data = task_word q, sqe_link = False\<rparr>]"
    using submitted_fields(7) [of E q ?t k ?w] o by (simp del: submitted_fields(7))
  show thesis by (rule that [OF r e a _ i]) (simp_all add: m(9))
qed

lemma awaiting_load:
  assumes "awaiting c h p k w" and "store_inv out used (store w)" and "storage_tag k \<noteq> TagNone" and "n \<le> kb_size k"
  shows "load_bytes (KernelBuf_Data k) n (k, kbw (store w)) = Inr (take n (kb_contents k (kbw (store w))))"
proof -
  have "kb_ok out k (kbw (store w))"
    using assms(1,2) by (auto elim!: awaitingE simp: store_inv_def task_ok_def)
  then show ?thesis using load_contents assms(3,4) by blast
qed

section \<open>The whole run\<close>

lemma run_closes: "run_cb E add p (foldr close_then cs prog) w = run_cb E add p prog (w\<lparr>closed_fds := closed_fds w @ cs\<rparr>)"
  by (induction cs arbitrary: w) (simp_all add: close_then_def close_fd_def)

lemma run_unlinks: "run_cb E add p (foldr unlink_then names prog) w = run_cb E add p prog (w\<lparr>removed := removed w @ names\<rparr>)"
  by (induction names arbitrary: w) (simp_all add: unlink_then_def)

text \<open>
  The run shared by programs of this kind: an operation is awaited, its handler closes some
  descriptors and submits a read on \<^verbatim>\<open>rfd\<close>, and the read's handler closes \<^verbatim>\<open>rfd\<close>, removes some files
  and requests the shutdown.
\<close>

lemma write_read_run:
  assumes E: "allocator_ok (env_alloc E)" "abundant (env_alloc E)" "flushing E"
    and inv: "store_inv out used (store w)" and aw: "awaiting c g p k w" and rm: "room 1 w"
    and r: "0 < r1" "0 < r2" "r2 \<le> 2048"
    and cb: "env_cb E g (Some (record_result c r1 k), kbw (store w)) =
        foldr close_then cs (Call (CreateCall rfd h) (\<lambda>rt. set_all rt [TaskTypeIs TypeRead] (add_then rt Return)))"
      "\<forall>k v. (\<exists>bs. load_bytes (KernelBuf_Data k) (nat r2) (k, v) = Inr bs) \<longrightarrow>
        env_cb E h (Some (record_result rfd r2 k), v) = close_then rfd (foldr unlink_then names shutdown_now)"
  shows "\<exists>q d w'. dispatch_all spins E (AddTask (Suc n) E) [(p, r1), (q, r2)] w = Inr w' \<and>
    entries (uring w') = entries (uring w) @
      [\<lparr>sqe_op = OpRead rfd d 2048 0, sqe_user_data = task_word q, sqe_link = False\<rparr>,
       \<lparr>sqe_op = OpNop, sqe_user_data = 0, sqe_link = False\<rparr>] \<and>
    closed_fds w' = closed_fds w @ cs @ [rfd] \<and> removed w' = removed w @ names \<and> shutdown_requested w' \<and>
    invoked w' = invoked w @ [(g, p, Some r1), (h, q, Some r2)] \<and> inflight w' = inflight w - 1"
proof -
  let ?v = "(called g p r1 w)\<lparr>closed_fds := closed_fds w @ cs\<rparr>"
  have run: "run_cb E (AddTask (Suc n) E) p (env_cb E g (Some (record_result c r1 k), kbw (store w))) (called g p r1 w) =
      run_cb E (AddTask (Suc n) E) p (Call (CreateCall rfd h) (\<lambda>rt. set_all rt [TaskTypeIs TypeRead] (add_then rt Return))) ?v"
    unfolding cb(1) run_closes by simp
  obtain q kq w1 out1 where s: "DispatchCqe spins E (AddTask (Suc n) E) p EventNone r1 w = Inr w1"
    "entries (uring w1) = entries (uring w) @
      [\<lparr>sqe_op = OpRead rfd (KernelBuf_Data kq) 2048 0, sqe_user_data = task_word q, sqe_link = False\<rparr>]"
    "awaiting rfd h q kq w1" "kb_size kq = 2048" "storage_tag kq \<noteq> TagNone" "store_inv out1 (insert q used) (store w1)"
    "inflight w1 = inflight w" "config w1 = config w" "invoked w1 = invoked ?v" "closed_fds w1 = closed_fds ?v"
    "removed w1 = removed ?v" "shutdown_requested w1 = shutdown_requested ?v"
    by (rule awaited_reader [OF E inv aw rm r(1) run]) simp_all
  have ld: "load_bytes (KernelBuf_Data kq) (nat r2) (kq, kbw (store w1)) = Inr (take (nat r2) (kb_contents kq (kbw (store w1))))"
    by (rule awaiting_load [OF s(3,6,5)]) (use s(4) r(3) in simp)
  let ?u = "(close_fd rfd (called h q r2 w1))\<lparr>removed := removed w1 @ names\<rparr>"
  have end_run: "run_cb E (AddTask (Suc n) E) q (env_cb E h (Some (record_result rfd r2 kq), kbw (store w1))) (called h q r2 w1) =
      Inr (RequestShutdown E ?u)"
    using cb(2) ld by (simp add: close_then_def run_unlinks shutdown_now_def close_fd_def)
  have sh: "store (RequestShutdown E ?u) = store (called h q r2 w1)" "shutdown_requested (RequestShutdown E ?u)"
    using shutdown_flag [of E ?u] by (simp_all add: close_fd_def)
  have fr: "closed_fds (RequestShutdown E ?u) = closed_fds w1 @ [rfd]" "inflight (RequestShutdown E ?u) = inflight w1"
      "invoked (RequestShutdown E ?u) = invoked w1 @ [(h, q, Some r2)]" "removed (RequestShutdown E ?u) = removed w1 @ names"
    using shutdown_frame [of E ?u] called_awaiting(1) [OF s(3)] by (simp_all add: close_fd_def)
  have "has_entry E (uring ?u)" using E(3) s(3) by (simp add: close_fd_def flushing_def awaiting_def)
  then have en: "entries (uring (RequestShutdown E ?u)) = entries (uring w1) @ [\<lparr>sqe_op = OpNop, sqe_user_data = 0, sqe_link = False\<rparr>]"
    using shutdown_entry(2) [of E ?u] by (simp add: close_fd_def)
  have ts: "tasks (store (RequestShutdown E ?u)) = tasks (store (called h q r2 w1))" using sh(1) by simp
  obtain w' where d: "DispatchCqe spins E (AddTask (Suc n) E) q EventNone r2 w1 = Inr w'" "uring w' = uring (RequestShutdown E ?u)"
    "inflight w' = inflight w1 - 1" "invoked w' = invoked w1 @ [(h, q, Some r2)]" "closed_fds w' = closed_fds w1 @ [rfd]"
    "removed w' = removed w1 @ names" "shutdown_requested w'"
    using awaited_last [OF s(3) r(2) end_run ts, of spins] sh fr by auto
  have "dispatch_all spins E (AddTask (Suc n) E) [(p, r1), (q, r2)] w = Inr w'" using s(1) d(1) by simp
  moreover have "entries (uring w') = entries (uring w) @
      [\<lparr>sqe_op = OpRead rfd (KernelBuf_Data kq) 2048 0, sqe_user_data = task_word q, sqe_link = False\<rparr>,
       \<lparr>sqe_op = OpNop, sqe_user_data = 0, sqe_link = False\<rparr>]"
    using en s(2) d(2) by simp
  moreover have "invoked ?v = invoked w @ [(g, p, Some r1)]" "closed_fds ?v = closed_fds w @ cs" "removed ?v = removed w"
    using called_awaiting(1) [OF aw] by simp_all
  ultimately show ?thesis
    using d s by (intro exI [of _ q] exI [of _ "KernelBuf_Data kq"] exI [of _ w']) simp
qed

text \<open>
  C13: The program that writes a file and reads it back, from \<^verbatim>\<open>main\<close> to its end. It submits one
  write of the 46 bytes of its text; when the write completes, its handler closes the descriptor
  and submits one read of the file; when that completes, its handler closes the second
  descriptor, removes the file and requests the shutdown, which stops the event loop. Each
  descriptor is closed once, each handler runs once, in this order, with the result of its
  operation, and no operation stays in flight.
\<close>

theorem write_then_verify:
  assumes "env_cb E = file_write_program rfd" and "allocator_ok (env_alloc E)" and "abundant (env_alloc E)" and "flushing E"
    and "store_inv out used (store w)" and "sq (uring w) = []" and "room 2 w"
    and "0 \<le> wfd" and "0 \<le> rfd" and "0 < r1" and "0 < r2" and "r2 \<le> 2048"
  shows "\<exists>p q k d w1 w'. run_cb E (AddTask (Suc n) E) nullptr (file_write_main wfd) w = Inr w1 \<and>
    awaiting wfd WriteDoneId p k w1 \<and> kb_contents k (kbw (store w1)) = write_demo_content \<and>
    dispatch_all spins E (AddTask (Suc n) E) [(p, r1), (q, r2)] w1 = Inr w' \<and>
    entries (uring w') = entries (uring w) @
      [\<lparr>sqe_op = OpWrite wfd DSbo 46 0, sqe_user_data = task_word p, sqe_link = False\<rparr>,
       \<lparr>sqe_op = OpRead rfd d 2048 0, sqe_user_data = task_word q, sqe_link = False\<rparr>,
       \<lparr>sqe_op = OpNop, sqe_user_data = 0, sqe_link = False\<rparr>] \<and>
    closed_fds w' = closed_fds w @ [wfd, rfd] \<and> removed w' = removed w @ [''/tmp/async_io_write_demo.txt''] \<and>
    invoked w' = invoked w @ [(WriteDoneId, p, Some r1), (VerifyId, q, Some r2)] \<and> inflight w' = inflight w \<and>
    (\<forall>qs. RunEventLoop spins E (AddTask (Suc n) E) qs w' = Inr (True, w'))"
proof -
  have len: "length write_demo_content = 46" by (simp add: write_demo_content_def to_bytes_def)
  have l: "length write_demo_content \<le> kKernelBufSboSize" by (simp add: len size_consts)
  have rm: "room 1 w" using assms(7) by (auto simp: room_def)
  obtain p k w1 out1 where m: "run_cb E (AddTask (Suc n) E) nullptr (Call (CreateCall wfd WriteDoneId) (\<lambda>t.
      set_all t [TaskTypeIs TypeWrite, DebugStrIs ''file_write_demo''] (Call (ResizeCall t (length write_demo_content)) (\<lambda>_.
        Call (StoreCall t write_demo_content) (\<lambda>_. add_then t Return))))) w = Inr w1"
    "entries (uring w1) = entries (uring w) @
      [\<lparr>sqe_op = OpWrite wfd DSbo (length write_demo_content) 0, sqe_user_data = task_word p, sqe_link = False\<rparr>]"
    "awaiting wfd WriteDoneId p k w1" "kb_contents k (kbw (store w1)) = write_demo_content"
    "store_inv out1 (insert p used) (store w1)" "inflight w1 = inflight w + 1" "config w1 = config w"
    "invoked w1 = invoked w" "closed_fds w1 = closed_fds w" "removed w1 = removed w"
    by (rule write_started [OF assms(2-6) rm l])
  have rm1: "room 1 w1" using assms(7) m(6,7) by (auto simp: room_def)
  have cb: "env_cb E WriteDoneId (Some (record_result wfd r1 k), kbw (store w1)) = foldr close_then [wfd] (Call (CreateCall rfd VerifyId)
      (\<lambda>rt. set_all rt [TaskTypeIs TypeRead] (add_then rt Return)))"
    "\<forall>k v. (\<exists>bs. load_bytes (KernelBuf_Data k) (nat r2) (k, v) = Inr bs) \<longrightarrow>
      env_cb E VerifyId (Some (record_result rfd r2 k), v) = close_then rfd (foldr unlink_then [write_demo_file] shutdown_now)"
    using assms(9-11)
    by (auto simp add: assms(1) file_write_program_def WriteDoneId_def VerifyId_def WriteCompleteHandler_def
        VerifyReadHandler_def show_data_ok Let_def del: set_all.simps)
  obtain q d w' where f: "dispatch_all spins E (AddTask (Suc n) E) [(p, r1), (q, r2)] w1 = Inr w'"
    "entries (uring w') = entries (uring w1) @
      [\<lparr>sqe_op = OpRead rfd d 2048 0, sqe_user_data = task_word q, sqe_link = False\<rparr>,
       \<lparr>sqe_op = OpNop, sqe_user_data = 0, sqe_link = False\<rparr>]"
    "closed_fds w' = closed_fds w1 @ [wfd] @ [rfd]" "removed w' = removed w1 @ [write_demo_file]" "shutdown_requested w'"
    "invoked w' = invoked w1 @ [(WriteDoneId, p, Some r1), (VerifyId, q, Some r2)]" "inflight w' = inflight w1 - 1"
    using write_read_run [OF assms(2-4) m(5,3) rm1 assms(10-12) cb, where spins = spins and n = n] by (elim exE conjE) (rule that)
  then show ?thesis
    using m assms(8) len
    by (intro exI [of _ p] exI [of _ q] exI [of _ k] exI [of _ d] exI [of _ w1] exI [of _ w'])
      (simp add: file_write_main_def write_demo_file_def RunEventLoop.simps del: set_all.simps dispatch_all.simps run_cb.simps)
qed

section \<open>A chain of two handlers\<close>

definition ChainWriteId :: nat where "ChainWriteId = 6"
definition ReadBackId :: nat where "ReadBackId = 7"

definition chain_demo_file :: string where "chain_demo_file = ''/tmp/async_io_chain_demo.txt''"

definition ReadBackHandler :: "KernelBuf \<Rightarrow> kb_world \<Rightarrow> cb_prog" where
  "ReadBackHandler buf v =
     (let n = io_value buf; c = io_fd buf;
          rest = close_then c (unlink_then chain_demo_file shutdown_now)
      in if 0 \<le> n then show_data buf v (nat n) rest else rest)"

definition WriteHandler :: "int \<Rightarrow> KernelBuf \<Rightarrow> cb_prog" where
  "WriteHandler rfd buf =
     (let n = io_value buf; c = io_fd buf
      in if n < 0 then close_then c shutdown_now
         else close_then c
           (Call (CreateCall rfd ReadBackId) (\<lambda>rtask. set_all rtask [TaskTypeIs TypeRead] (add_then rtask Return))))"

definition chain_demo_content :: "byte list" where
  "chain_demo_content = to_bytes ''Hello, Task Chain!''"

definition task_chain_main :: "int \<Rightarrow> cb_prog" where
  "task_chain_main wfd =
     (if wfd < 0 then Return
      else Call (CreateCall wfd ChainWriteId) (\<lambda>wtask.
        set_all wtask [TaskTypeIs TypeWrite]
          (Call (ResizeCall wtask (length chain_demo_content)) (\<lambda>_.
             Call (StoreCall wtask chain_demo_content) (\<lambda>_.
               set_all wtask [DebugStrIs ''chain_step1_write''] (add_then wtask Return))))))"

definition task_chain_program :: "int \<Rightarrow> nat \<Rightarrow> KernelBuf option \<times> kb_world \<Rightarrow> cb_prog" where
  "task_chain_program rfd h kv =
     (case kv of
        (Some k, v) \<Rightarrow>
          (if h = ChainWriteId then WriteHandler rfd k else if h = ReadBackId then ReadBackHandler k v else Return)
      | (None, v) \<Rightarrow> Return)"

text \<open>
  The chain from the completion of its write, whatever \<^verbatim>\<open>open\<close> returns: also a negative
  descriptor goes into a task.
\<close>

theorem chain_reads_back:
  assumes "env_cb E = task_chain_program rfd" and "allocator_ok (env_alloc E)" and "abundant (env_alloc E)" and "flushing E"
    and "store_inv out used (store w)" and "awaiting wfd ChainWriteId p k w" and "room 1 w"
    and "0 < r1" and "0 < r2" and "r2 \<le> 2048"
  shows "\<exists>q d w'. dispatch_all spins E (AddTask (Suc n) E) [(p, r1), (q, r2)] w = Inr w' \<and>
    entries (uring w') = entries (uring w) @
      [\<lparr>sqe_op = OpRead rfd d 2048 0, sqe_user_data = task_word q, sqe_link = False\<rparr>,
       \<lparr>sqe_op = OpNop, sqe_user_data = 0, sqe_link = False\<rparr>] \<and>
    closed_fds w' = closed_fds w @ [wfd, rfd] \<and> removed w' = removed w @ [chain_demo_file] \<and> shutdown_requested w' \<and>
    invoked w' = invoked w @ [(ChainWriteId, p, Some r1), (ReadBackId, q, Some r2)] \<and> inflight w' = inflight w - 1"
proof -
  have cb: "env_cb E ChainWriteId (Some (record_result wfd r1 k), kbw (store w)) = foldr close_then [wfd]
      (Call (CreateCall rfd ReadBackId) (\<lambda>rt. set_all rt [TaskTypeIs TypeRead] (add_then rt Return)))"
    "\<forall>k v. (\<exists>bs. load_bytes (KernelBuf_Data k) (nat r2) (k, v) = Inr bs) \<longrightarrow>
      env_cb E ReadBackId (Some (record_result rfd r2 k), v) = close_then rfd (foldr unlink_then [chain_demo_file] shutdown_now)"
    using assms(8,9)
    by (auto simp add: assms(1) task_chain_program_def ChainWriteId_def ReadBackId_def WriteHandler_def
        ReadBackHandler_def show_data_ok Let_def simp del: set_all.simps)
  show ?thesis using write_read_run [OF assms(2-10) cb, where spins = spins and n = n] by simp
qed

section \<open>A handler with user arguments\<close>

text \<open>
  \<^verbatim>\<open>AnnotatedReadHandler\<close>: the bound arguments are only printed.
\<close>

definition AnnotatedId :: nat where "AnnotatedId = 8"

definition AnnotatedReadHandler :: "string \<Rightarrow> int \<Rightarrow> KernelBuf \<Rightarrow> kb_world \<Rightarrow> cb_prog" where
  "AnnotatedReadHandler file_id chunk_number buf v =
     (let n = io_value buf; c = io_fd buf
      in if n \<le> 0 then close_then c shutdown_now
         else show_data buf v (nat n) (close_then c shutdown_now))"

definition custom_handler_main :: "int \<Rightarrow> cb_prog" where
  "custom_handler_main c =
     (if c < 0 then Return
      else Call (CreateCall c AnnotatedId) (\<lambda>t.
        set_all t [TaskTypeIs TypeRead, DebugStrIs ''custom_handler_demo''] (add_then t Return)))"

text \<open>
  The whole program: one read, its handler once, the descriptor closed once, the shutdown
  requested.
\<close>

theorem annotated_read:
  assumes cb: "\<forall>k v. env_cb E AnnotatedId (Some k, v) = AnnotatedReadHandler ''source_file'' 1 k v"
    and E: "allocator_ok (env_alloc E)" "abundant (env_alloc E)" "flushing E"
    and inv: "store_inv out used (store w)" and w: "sq (uring w) = []" "room 1 w" and r: "0 \<le> c" "0 < r" "r \<le> 2048"
  shows "\<exists>q w1 w'. run_cb E (AddTask (Suc n) E) nullptr (custom_handler_main c) w = Inr w1 \<and>
    DispatchCqe spins E (AddTask (Suc n) E) q EventNone r w1 = Inr w' \<and> closed_fds w' = closed_fds w @ [c] \<and>
    invoked w' = invoked w @ [(AnnotatedId, q, Some r)] \<and> inflight w' = inflight w \<and> shutdown_requested w'"
proof -
  let ?cs = "[TaskTypeIs TypeRead, DebugStrIs ''custom_handler_demo'']"
  have cs: "\<forall>e \<in> set ?cs. plain_setting e" "\<And>kq. ready (fold apply_setting ?cs (AsyncTask_construct c AnnotatedId kq))"
    by (simp_all add: ready_def apply_setting_def task_setters AsyncTask_construct_def)
  obtain q s k out' where m: "run_cb E (AddTask (Suc n) E) nullptr (Call (CreateCall c AnnotatedId) (\<lambda>q. set_all q ?cs (add_then q Return))) w =
      run_cb E (AddTask (Suc n) E) nullptr Return (submitted E q (fold apply_setting ?cs (AsyncTask_construct c AnnotatedId k)) k (w\<lparr>store := s\<rparr>))"
    "q \<noteq> nullptr" "tasks (store w) q = None" "tasks s = (tasks (store w))(q \<mapsto> AsyncTask_construct c AnnotatedId k)"
    "store_inv out' (insert q used) s" "kb_size k = kDefaultBufferSize" "kb_offset k = 0" "storage_tag k \<noteq> TagNone"
    by (rule reader_submitted [OF E(1,3) inv abundant_task [OF E(2,1) inv] w cs])
  let ?t = "fold apply_setting ?cs (AsyncTask_construct c AnnotatedId k)"
  let ?w1 = "submitted E q ?t k (w\<lparr>store := s\<rparr>)"
  have t: "buffer ?t = Some k" "fd ?t = c" "handler ?t = AnnotatedId" "\<not> repeat_forever ?t" "next_task ?t = nullptr"
    by (simp_all add: apply_setting_def task_setters AsyncTask_construct_def)
  have "tasks (store ?w1) q = Some ((in_flight ?t)\<lparr>user_data := task_word q\<rparr>)" by simp
  from submitted_awaits [OF this t(1) m(2) submitted_sq [OF E(3)] t(4,5)]
  have aw: "awaiting c AnnotatedId q k ?w1" unfolding t(2,3) .
  have i: "store_inv out' (insert q used) (store ?w1)"
    using submitted_inv [of _ _ "w\<lparr>store := s\<rparr>" q "AsyncTask_construct c AnnotatedId k" ?t] m(4,5) t(1)
    by (simp add: AsyncTask_construct_def)
  have ld: "load_bytes (KernelBuf_Data k) (nat r) (k, kbw (store ?w1)) = Inr (take (nat r) (kb_contents k (kbw (store ?w1))))"
    by (rule awaiting_load [OF aw i m(8)]) (use m(6) r(3) in \<open>simp add: size_consts\<close>)
  let ?u = "close_fd c (called AnnotatedId q r ?w1)"
  have run: "run_cb E (AddTask (Suc n) E) q (env_cb E AnnotatedId (Some (record_result c r k), kbw (store ?w1))) (called AnnotatedId q r ?w1) =
      Inr (RequestShutdown E ?u)"
    using cb r(2) show_data_ok [OF ld] by (simp add: AnnotatedReadHandler_def close_then_def shutdown_now_def)
  have ts: "tasks (store (RequestShutdown E ?u)) = tasks (store (called AnnotatedId q r ?w1))"
    using shutdown_flag [of E ?u] by (simp add: close_fd_def)
  have "run_cb E (AddTask (Suc n) E) nullptr (custom_handler_main c) w = Inr ?w1"
    using m(1) r(1) by (simp add: custom_handler_main_def del: set_all.simps run_cb.simps(2))
  moreover obtain w' where "DispatchCqe spins E (AddTask (Suc n) E) q EventNone r ?w1 = Inr w'"
      "closed_fds w' = closed_fds w @ [c]" "invoked w' = invoked w @ [(AnnotatedId, q, Some r)]" "inflight w' = inflight w"
      "shutdown_requested w'"
    using awaited_last [OF aw r(2) run ts, of spins] shutdown_flag [of E ?u] shutdown_frame [of E ?u]
      called_awaiting(1) [OF aw, of r] by (auto simp: close_fd_def)
  ultimately show ?thesis by blast
qed

section \<open>Example\<close>

definition file_env :: "int \<Rightarrow> io_env" where
  "file_env rfd = demo_env\<lparr>env_cb := file_write_program rfd, env_alloc := bump_alloc\<rparr>"

lemma file_env_fields [simp]:
  "env_cb (file_env rfd) = file_write_program rfd" "env_alloc (file_env rfd) = bump_alloc" "flushing (file_env rfd)"
  by (simp_all add: file_env_def demo_env_def flushing_def)

theorem write_then_verify_witness:
  "\<exists>p q w1 w'. run_cb (file_env 9) (AddTask 1 (file_env 9)) nullptr (file_write_main 8) (demo_world id 0 0) = Inr w1 \<and>
     dispatch_all 0 (file_env 9) (AddTask 1 (file_env 9)) [(p, 46), (q, 46)] w1 = Inr w' \<and>
     closed_fds w' = [8, 9] \<and> inflight w' = 0"
proof -
  obtain out used where inv: "store_inv out used (store (demo_world id 0 0))" using demo_inv [of id 0 0] by auto
  have E: "env_cb (file_env 9) = file_write_program 9" "allocator_ok (env_alloc (file_env 9))"
      "abundant (env_alloc (file_env 9))" "flushing (file_env 9)"
    using abundant_bump bump_alloc_ok by simp_all
  have w: "sq (uring (demo_world id 0 0)) = []" "room 2 (demo_world id 0 0)" "(0 :: int) \<le> 8" "(0 :: int) \<le> 9"
      "(0 :: int) < 46" "(46 :: int) \<le> 2048"
    by (simp_all add: room_def)
  obtain p q w1 w' where "run_cb (file_env 9) (AddTask (Suc 0) (file_env 9)) nullptr (file_write_main 8) (demo_world id 0 0) = Inr w1"
      "dispatch_all 0 (file_env 9) (AddTask (Suc 0) (file_env 9)) [(p, 46), (q, 46)] w1 = Inr w'"
      "closed_fds w' = closed_fds (demo_world id 0 0) @ [8, 9]" "inflight w' = inflight (demo_world id 0 0)"
    using write_then_verify [OF E inv w(1-5) w(5,6), of 0 0] by (elim exE conjE) (rule that)
  then show ?thesis
    by (intro exI [of _ p] exI [of _ q] exI [of _ w1] exI [of _ w']) (simp del: dispatch_all.simps run_cb.simps)
qed

end
