(* ===== verification/Net_Programs.thy ===== *)
theory Net_Programs
  imports File_Programs
begin

text \<open>
  \<^verbatim>\<open>examples/tcp_client_example.cc\<close> and \<^verbatim>\<open>examples/tcp_wr_example.cc\<close>: clients that connect, send and
  receive, one with a chained task, one from the handler of the connection.
\<close>

section \<open>The client with a chained write\<close>

definition ClientWriteId :: nat where "ClientWriteId = 9"
definition ResponseId :: nat where "ResponseId = 10"

definition ResponseHandler :: "KernelBuf \<Rightarrow> kb_world \<Rightarrow> cb_prog" where
  "ResponseHandler buf v =
     (let n = io_value buf; c = io_fd buf
      in if n \<le> 0 then close_then c shutdown_now
         else show_data buf v (nat n) (close_then c shutdown_now))"

definition WriteDoneHandler :: "KernelBuf \<Rightarrow> cb_prog" where
  "WriteDoneHandler buf =
     (let n = io_value buf; c = io_fd buf
      in if n < 0 then close_then c shutdown_now
         else Call (CreateCall c ResponseId) (\<lambda>rt. set_all rt [TaskTypeIs TypeRead] (add_then rt Return)))"

definition client_message :: "byte list" where
  "client_message = to_bytes ''Hello from async_io client!'' @ [10]"

text \<open>\<^verbatim>\<open>main\<close> after \<^verbatim>\<open>Connect\<close> has returned the task \<^verbatim>\<open>ct\<close> for the socket \<^verbatim>\<open>c\<close>, up to \<^verbatim>\<open>Join\<close>.\<close>

definition client_main :: "ptr \<Rightarrow> int \<Rightarrow> cb_prog" where
  "client_main ct c =
     (if ct = nullptr then Return
      else set_all ct [DebugStrIs ''tcp_connect'']
        (Call (CreateCall c ClientWriteId) (\<lambda>wt.
           set_all wt [TaskTypeIs TypeWrite]
             (Call (ResizeCall wt (length client_message)) (\<lambda>_.
                Call (StoreCall wt client_message) (\<lambda>_.
                  Call (NextCall ct wt) (\<lambda>_. add_then ct Return)))))))"

text \<open>The handler that \<^verbatim>\<open>Connect\<close> passes by itself only logs.\<close>

definition client_program :: "nat \<Rightarrow> KernelBuf option \<times> kb_world \<Rightarrow> cb_prog" where
  "client_program h kv =
     (case kv of
        (Some k, v) \<Rightarrow>
          (if h = ClientWriteId then WriteDoneHandler k else if h = ResponseId then ResponseHandler k v else Return)
      | (None, v) \<Rightarrow> Return)"

text \<open>
  The client from the completion of its write: one read of the response, the socket closed once,
  the shutdown requested.
\<close>

theorem client_gets_response:
  assumes "env_cb E = client_program" and "allocator_ok (env_alloc E)" and "abundant (env_alloc E)" and "flushing E"
    and "store_inv out used (store w)" and "awaiting c ClientWriteId p k w" and "room 1 w"
    and "0 < r1" and "0 < r2" and "r2 \<le> 2048"
  shows "\<exists>q d w'. dispatch_all spins E (AddTask (Suc n) E) [(p, r1), (q, r2)] w = Inr w' \<and>
    entries (uring w') = entries (uring w) @
      [\<lparr>sqe_op = OpRead c d 2048 0, sqe_user_data = task_word q, sqe_link = False\<rparr>,
       \<lparr>sqe_op = OpNop, sqe_user_data = 0, sqe_link = False\<rparr>] \<and>
    closed_fds w' = closed_fds w @ [c] \<and> shutdown_requested w' \<and>
    invoked w' = invoked w @ [(ClientWriteId, p, Some r1), (ResponseId, q, Some r2)] \<and> inflight w' = inflight w - 1"
proof -
  have cb: "env_cb E ClientWriteId (Some (record_result c r1 k), kbw (store w)) = foldr close_then []
      (Call (CreateCall c ResponseId) (\<lambda>rt. set_all rt [TaskTypeIs TypeRead] (add_then rt Return)))"
    "\<forall>k v. (\<exists>bs. load_bytes (KernelBuf_Data k) (nat r2) (k, v) = Inr bs) \<longrightarrow>
      env_cb E ResponseId (Some (record_result c r2 k), v) = close_then c (foldr unlink_then [] shutdown_now)"
    using assms(8,9)
    by (auto simp add: assms(1) client_program_def ClientWriteId_def ResponseId_def WriteDoneHandler_def
        ResponseHandler_def show_data_ok Let_def simp del: set_all.simps)
  show ?thesis using write_read_run [OF assms(2-10) cb, where spins = spins and n = n] by auto
qed

section \<open>The client that sends from its handler\<close>

definition ConnectedId :: nat where "ConnectedId = 11"
definition ClientReadId :: nat where "ClientReadId = 12"
definition SilentId :: nat where "SilentId = 0"

text \<open>Counter 0 is \<^verbatim>\<open>g_responses_seen\<close>; \<^verbatim>\<open>g_responses_needed\<close> is 3 and never changes.\<close>

definition responses_needed :: nat where "responses_needed = 3"

definition ClientReadHandler :: "KernelBuf \<Rightarrow> kb_world \<Rightarrow> cb_prog" where
  "ClientReadHandler buf v =
     (let n = io_value buf; c = io_fd buf
      in if n \<le> 0 then close_then c Return
         else Call (CountCall 0) (\<lambda>seen. show_data buf v (nat n)
                (if responses_needed \<le> seen then close_then c shutdown_now else Return)))"

primrec send_messages :: "int \<Rightarrow> nat \<Rightarrow> byte list list \<Rightarrow> cb_prog \<Rightarrow> cb_prog" where
  "send_messages c i [] prog = prog"
| "send_messages c i (m # ms) prog =
     Call (CreateCall c SilentId) (\<lambda>wt.
       set_all wt [TaskTypeIs TypeWrite]
         (Call (ResizeCall wt (length m)) (\<lambda>_.
            Call (StoreCall wt m) (\<lambda>_.
              set_all wt [DebugStrIs (''client_write_'' @ to_string (int i))]
                (add_then wt (send_messages c (Suc i) ms prog))))))"

definition client_messages :: "byte list list" where
  "client_messages = [to_bytes ''Hello server!'' @ [10], to_bytes ''How are you?'' @ [10], to_bytes ''Goodbye!'' @ [10]]"

definition ConnectCompleteHandler :: "KernelBuf \<Rightarrow> cb_prog" where
  "ConnectCompleteHandler buf =
     (let ret = io_value buf; c = io_fd buf
      in if ret < 0 then close_then c shutdown_now
         else Call (CreateCall c ClientReadId) (\<lambda>rt.
           set_all rt [TaskTypeIs TypeRead, RepeatForeverIs True, DebugStrIs ''client_repeat_read'']
             (add_then rt (send_messages c 0 client_messages Return))))"

definition tcp_wr_program :: "nat \<Rightarrow> KernelBuf option \<times> kb_world \<Rightarrow> cb_prog" where
  "tcp_wr_program h kv =
     (case kv of
        (Some k, v) \<Rightarrow>
          (if h = ConnectedId then ConnectCompleteHandler k else if h = ClientReadId then ClientReadHandler k v else Return)
      | (None, v) \<Rightarrow> Return)"

section \<open>Messages in order\<close>

definition write_entry :: "int \<Rightarrow> ptr \<Rightarrow> byte list \<Rightarrow> sqe" where
  "write_entry c q m = \<lparr>sqe_op = OpWrite c DSbo (length m) 0, sqe_user_data = task_word q, sqe_link = False\<rparr>"

text \<open>
  One message: the task is new, holds the message, is in flight, and nothing but the ring, the
  store and the count changes.
\<close>

definition holds_message :: "io_world \<Rightarrow> ptr \<Rightarrow> byte list \<Rightarrow> bool" where
  "holds_message w q m \<longleftrightarrow> (case tasks (store w) q of None \<Rightarrow> False | Some tk \<Rightarrow> task_state tk = StateSubmitted \<and>
     (case buffer tk of None \<Rightarrow> False | Some k \<Rightarrow> in_object k \<and> kb_contents k (kbw (store w)) = m))"

lemma send_one:
  assumes E: "allocator_ok (env_alloc E)" "abundant (env_alloc E)" "flushing E"
    and inv: "store_inv out used (store w)" and w: "sq (uring w) = []" "room 1 w" and len: "length m \<le> kKernelBufSboSize"
  obtains q w' out' where "run_cb E (AddTask (Suc n) E) p (send_messages c i (m # ms) prog) w =
      run_cb E (AddTask (Suc n) E) p (send_messages c (Suc i) ms prog) w'"
    "entries (uring w') = entries (uring w) @ [write_entry c q m]" "tasks (store w) q = None"
    "holds_message w' q m" "\<forall>r. r \<noteq> q \<longrightarrow> tasks (store w') r = tasks (store w) r"
    "store_inv out' (insert q used) (store w')" "sq (uring w') = []" "inflight w' = inflight w + 1" "config w' = config w"
    "invoked w' = invoked w" "closed_fds w' = closed_fds w" "shutdown_requested w' = shutdown_requested w"
proof -
  let ?cs = "[TaskTypeIs TypeWrite]" and ?d = "DebugStrIs (''client_write_'' @ to_string (int i))"
  let ?rest = "\<lambda>q. set_all q [?d] (add_then q (send_messages c (Suc i) ms prog))"
  have cs: "\<forall>e \<in> set ?cs. plain_setting e" by simp
  obtain q s k out' where r: "run_cb E (AddTask (Suc n) E) p (Call (CreateCall c SilentId) (\<lambda>q. set_all q ?cs
      (Call (ResizeCall q (length m)) (\<lambda>_. Call (StoreCall q m) (\<lambda>_. ?rest q))))) w =
      run_cb E (AddTask (Suc n) E) p (?rest q) (w\<lparr>store := s\<rparr>)"
    "q \<noteq> nullptr" "tasks (store w) q = None"
    "tasks s = (tasks (store w))(q \<mapsto> fold apply_setting ?cs (AsyncTask_construct c SilentId k))"
    "store_inv out' (insert q used) s" "in_object k" "kb_size k = length m" "kb_offset k = 0" "\<forall>v. kb_contents k v = m"
    by (rule message_created [OF E(1,2) inv cs len])
  let ?b = "fold apply_setting ?cs (AsyncTask_construct c SilentId k)"
  let ?t = "fold apply_setting [?d] ?b"
  have t: "buffer ?t = Some k" "ready ?t" "buffer ?t = buffer ?b"
    by (simp_all add: apply_setting_def task_setters AsyncTask_construct_def ready_def)
  have o: "task_op ?t k = OpWrite c DSbo (length m) 0"
    using r(7,8) in_object_ok(3) [OF r(6)] len
    by (simp add: apply_setting_def task_setters AsyncTask_construct_def task_op.simps size_consts)
  let ?w = "w\<lparr>store := s\<rparr>"
  let ?w' = "submitted E q ?t k ?w"
  have t0: "tasks (store ?w) q = Some ?b" using r(4) by simp
  have "run_cb E (AddTask (Suc n) E) p (add_then q (send_messages c (Suc i) ms prog)) (set_task q ?t ?w) =
      run_cb E (AddTask (Suc n) E) p (send_messages c (Suc i) ms prog) (submitted E q ?t k (set_task q ?t ?w))"
    by (rule add_created(1) [OF _ t(1,2) r(2)]) (use w E(3) in \<open>simp_all add: room_def\<close>)
  then have run: "run_cb E (AddTask (Suc n) E) p (send_messages c i (m # ms) prog) w =
      run_cb E (AddTask (Suc n) E) p (send_messages c (Suc i) ms prog) ?w'"
    using r(1) run_set_all [OF t0, of E "AddTask (Suc n) E" p "[?d]"] by (simp del: set_all.simps run_cb.simps)
  have e: "entries (uring ?w') = entries (uring w) @ [write_entry c q m]"
    using submitted_fields(7) [of E q ?t k ?w] o by (simp add: write_entry_def del: submitted_fields(7))
  have h: "holds_message ?w' q m" using t(1) r(6,9) by (simp add: holds_message_def)
  have i: "store_inv out' (insert q used) (store ?w')" using submitted_inv [of _ _ ?w q ?b ?t] t(3) r(4,5) by simp
  show thesis
    by (rule that [OF run e r(3) h _ i]) (use r(4) submitted_sq [OF E(3)] in simp_all)
qed

lemma holds_message_frame:
  assumes "holds_message w q m" and "tasks (store w') q = tasks (store w) q"
  shows "holds_message w' q m"
  using assms by (auto simp: holds_message_def in_object_def kb_contents_def load_bytes_def KernelBuf_Data_def
      split: option.splits sum.splits if_splits)

lemma messages_sent:
  assumes E: "allocator_ok (env_alloc E)" "abundant (env_alloc E)" "flushing E"
    and "store_inv out used (store w)" and "sq (uring w) = []" and "room (int (length ms)) w"
    and "\<forall>m \<in> set ms. length m \<le> kKernelBufSboSize"
  shows "\<exists>qs w' out' used'. run_cb E (AddTask (Suc n) E) p (send_messages c i ms prog) w = run_cb E (AddTask (Suc n) E) p prog w' \<and>
    length qs = length ms \<and> entries (uring w') = entries (uring w) @ map2 (write_entry c) qs ms \<and>
    (\<forall>(q, m) \<in> set (zip qs ms). holds_message w' q m) \<and> set qs \<inter> dom (tasks (store w)) = {} \<and>
    (\<forall>r. r \<in> dom (tasks (store w)) \<longrightarrow> tasks (store w') r = tasks (store w) r) \<and>
    store_inv out' used' (store w') \<and> sq (uring w') = [] \<and> inflight w' = inflight w + int (length ms) \<and> config w' = config w \<and>
    invoked w' = invoked w \<and> closed_fds w' = closed_fds w \<and> shutdown_requested w' = shutdown_requested w"
  using assms(4-7)
proof (induction ms arbitrary: i w out used)
  case Nil
  show ?case by (intro exI [of _ "[]"] exI [of _ w] exI [of _ out] exI [of _ used]) (use Nil in simp)
next
  case (Cons m ms)
  have rm: "room 1 w" using Cons.prems(3) by (auto simp: room_def)
  have len: "length m \<le> kKernelBufSboSize" "\<forall>m \<in> set ms. length m \<le> kKernelBufSboSize" using Cons.prems(4) by simp_all
  obtain q w1 out1 where s: "run_cb E (AddTask (Suc n) E) p (send_messages c i (m # ms) prog) w =
      run_cb E (AddTask (Suc n) E) p (send_messages c (Suc i) ms prog) w1"
    "entries (uring w1) = entries (uring w) @ [write_entry c q m]" "tasks (store w) q = None"
    "holds_message w1 q m" "\<forall>r. r \<noteq> q \<longrightarrow> tasks (store w1) r = tasks (store w) r"
    "store_inv out1 (insert q used) (store w1)" "sq (uring w1) = []" "inflight w1 = inflight w + 1" "config w1 = config w"
    "invoked w1 = invoked w" "closed_fds w1 = closed_fds w" "shutdown_requested w1 = shutdown_requested w"
    by (rule send_one [OF E Cons.prems(1,2) rm len(1)])
  have "room (int (length ms)) w1" using Cons.prems(3) s(8,9) by (auto simp: room_def)
  from Cons.IH [OF s(6,7) this len(2), of "Suc i"] obtain qs w' out' used' where
    h: "run_cb E (AddTask (Suc n) E) p (send_messages c (Suc i) ms prog) w1 = run_cb E (AddTask (Suc n) E) p prog w'"
    "length qs = length ms" "entries (uring w') = entries (uring w1) @ map2 (write_entry c) qs ms"
    "\<forall>(q, m) \<in> set (zip qs ms). holds_message w' q m" "set qs \<inter> dom (tasks (store w1)) = {}"
    "\<forall>r. r \<in> dom (tasks (store w1)) \<longrightarrow> tasks (store w') r = tasks (store w1) r"
    "store_inv out' used' (store w')" "sq (uring w') = []" "inflight w' = inflight w1 + int (length ms)" "config w' = config w1"
    "invoked w' = invoked w1" "closed_fds w' = closed_fds w1" "shutdown_requested w' = shutdown_requested w1"
    by (elim exE conjE) (rule that)
  have "q \<in> dom (tasks (store w1))" using s(4) by (auto simp: holds_message_def split: option.splits)
  then have "holds_message w' q m" using holds_message_frame [OF s(4)] h(6) by simp
  then have a: "\<forall>(q, m) \<in> set (zip (q # qs) (m # ms)). holds_message w' q m" using h(4) by auto
  have b: "\<forall>r. r \<in> dom (tasks (store w)) \<longrightarrow> tasks (store w') r = tasks (store w) r"
    using h(6) s(3,5) by (metis domD domI option.distinct(1))
  have d: "set (q # qs) \<inter> dom (tasks (store w)) = {}"
    using h(5) s(3,5) by (auto simp: disjoint_iff) (metis domIff option.distinct(1))
  show ?case
    by (intro exI [of _ "q # qs"] exI [of _ w'] exI [of _ out'] exI [of _ used'] conjI a b d)
      (use s h in \<open>simp_all del: send_messages.simps\<close>)
qed

lemma client_messages_facts:
  "length client_messages = 3" "\<forall>m \<in> set client_messages. length m \<le> kKernelBufSboSize"
  by (simp_all add: client_messages_def to_bytes_def size_consts)

text \<open>The handler of the connection: one read that repeats, then the messages; the task of the connection stays as it is.\<close>

lemma connected_handler:
  assumes "env_cb E = tcp_wr_program" and "allocator_ok (env_alloc E)" and "abundant (env_alloc E)" and "flushing E"
    and "store_inv out used (store w)" and "awaiting c ConnectedId p k w" and "room 4 w"
  obtains r d qs v out' used' where
    "run_cb E (AddTask (Suc n) E) p (env_cb E ConnectedId (Some (record_result c 0 k), kbw (store w))) (called ConnectedId p 0 w) = Inr v"
    "entries (uring v) = entries (uring w) @
      \<lparr>sqe_op = OpRead c d 2048 0, sqe_user_data = task_word r, sqe_link = False\<rparr> # map2 (write_entry c) qs client_messages"
    "length qs = 3" "\<forall>(q, m) \<in> set (zip qs client_messages). holds_message v q m" "p \<notin> set qs"
    "tasks (store v) p = tasks (store (called ConnectedId p 0 w)) p" "store_inv out' used' (store v)"
    "inflight v = inflight w + 4" "closed_fds v = closed_fds w"
proof -
  let ?w1 = "called ConnectedId p 0 w"
  let ?cs = "[TaskTypeIs TypeRead, RepeatForeverIs True, DebugStrIs ''client_repeat_read'']"
  have i1: "store_inv out used (store ?w1)" using called_awaiting(2) [OF assms(6,5)] .
  have w1: "sq (uring ?w1) = []" "room 1 ?w1" using assms(6,7) by (auto simp: awaiting_def room_def)
  have p1: "p \<in> dom (tasks (store ?w1))" using assms(6) by (auto elim!: awaitingE simp: called_def recorded_def)
  have cs: "\<forall>e \<in> set ?cs. plain_setting e" "\<And>kq. ready (fold apply_setting ?cs (AsyncTask_construct c ClientReadId kq))"
    by (simp_all add: ready_def apply_setting_def task_setters AsyncTask_construct_def)
  obtain r s kr out1 where a: "run_cb E (AddTask (Suc n) E) p (Call (CreateCall c ClientReadId) (\<lambda>rt. set_all rt ?cs
      (add_then rt (send_messages c 0 client_messages Return)))) ?w1 = run_cb E (AddTask (Suc n) E) p (send_messages c 0 client_messages Return)
      (submitted E r (fold apply_setting ?cs (AsyncTask_construct c ClientReadId kr)) kr (?w1\<lparr>store := s\<rparr>))"
    "r \<noteq> nullptr" "tasks (store ?w1) r = None" "tasks s = (tasks (store ?w1))(r \<mapsto> AsyncTask_construct c ClientReadId kr)"
    "store_inv out1 (insert r used) s" "kb_size kr = kDefaultBufferSize" "kb_offset kr = 0" "storage_tag kr \<noteq> TagNone"
    by (rule reader_submitted [OF assms(2,4) i1 abundant_task [OF assms(3,2) i1] w1 cs])
  let ?t = "fold apply_setting ?cs (AsyncTask_construct c ClientReadId kr)"
  let ?w2 = "submitted E r ?t kr (?w1\<lparr>store := s\<rparr>)"
  have i2: "store_inv out1 (insert r used) (store ?w2)"
    using submitted_inv [of _ _ "?w1\<lparr>store := s\<rparr>" r "AsyncTask_construct c ClientReadId kr" ?t] a(4,5)
      plain_settings(1) [OF cs(1)] by simp
  have w2: "sq (uring ?w2) = []" "room (int (length client_messages)) ?w2"
    using submitted_sq [OF assms(4)] assms(7) by (auto simp: room_def client_messages_facts(1))
  obtain qs v out2 used2 where m: "run_cb E (AddTask (Suc n) E) p (send_messages c 0 client_messages Return) ?w2 =
      run_cb E (AddTask (Suc n) E) p Return v" "length qs = length client_messages"
    "entries (uring v) = entries (uring ?w2) @ map2 (write_entry c) qs client_messages"
    "\<forall>(q, m) \<in> set (zip qs client_messages). holds_message v q m" "set qs \<inter> dom (tasks (store ?w2)) = {}"
    "\<forall>r. r \<in> dom (tasks (store ?w2)) \<longrightarrow> tasks (store v) r = tasks (store ?w2) r" "store_inv out2 used2 (store v)"
    "inflight v = inflight ?w2 + int (length client_messages)" "closed_fds v = closed_fds ?w2"
    using messages_sent [OF assms(2-4) i2 w2 client_messages_facts(2), of n p c 0 Return] by (elim exE conjE) (rule that)
  have "env_cb E ConnectedId (Some (record_result c 0 k), kbw (store w)) = Call (CreateCall c ClientReadId) (\<lambda>rt. set_all rt ?cs
      (add_then rt (send_messages c 0 client_messages Return)))"
    by (simp add: assms(1) tcp_wr_program_def ConnectCompleteHandler_def del: set_all.simps)
  then have run: "run_cb E (AddTask (Suc n) E) p (env_cb E ConnectedId (Some (record_result c 0 k), kbw (store w))) ?w1 = Inr v"
    using a(1) m(1) by (simp only: run_cb.simps)
  have rp: "r \<noteq> p" using a(3) p1 by auto
  have pd: "p \<in> dom (tasks (store ?w2))" "tasks (store ?w2) p = tasks (store ?w1) p" using a(4) rp p1 by auto
  have ts: "tasks (store v) p = tasks (store ?w1) p" by (rule trans [OF m(6) [rule_format, OF pd(1)] pd(2)])
  have "task_op ?t kr = OpRead c (KernelBuf_Data kr) 2048 0"
    using a(6,7) by (simp add: apply_setting_def task_setters AsyncTask_construct_def task_op.simps size_consts)
  then have e: "entries (uring v) = entries (uring w) @ \<lparr>sqe_op = OpRead c (KernelBuf_Data kr) 2048 0,
      sqe_user_data = task_word r, sqe_link = False\<rparr> # map2 (write_entry c) qs client_messages"
    unfolding m(3) submitted_fields(7) by (simp add: called_fields)
  have np: "p \<notin> set qs" using m(5) pd(1) by (metis disjoint_iff)
  have fin: "length qs = 3" "inflight v = inflight w + 4" "closed_fds v = closed_fds w"
    unfolding m(2,8,9) client_messages_facts(1) by simp_all
  show thesis by (rule that [OF run e fin(1) m(4) np ts m(7) fin(2,3)])
qed

text \<open>
  C31: The client that connects and sends from the handler of its connection. When the connection is
  made (result 0) the handler submits one read that repeats and one write for each message, in
  order, each from a task that holds exactly that message. Then the event loop takes the 0 for
  the end of a file: it closes the socket that the four operations use and deletes the task of
  the connection.
\<close>

theorem connected_client_sends:
  assumes "env_cb E = tcp_wr_program" and "allocator_ok (env_alloc E)" and "abundant (env_alloc E)" and "flushing E"
    and "store_inv out used (store w)" and "awaiting c ConnectedId p k w" and "room 4 w" and "0 < c" and "0 < env_chain E"
  shows "\<exists>r d qs w'. DispatchCqe spins E (AddTask (Suc n) E) p EventNone 0 w = Inr w' \<and> length qs = 3 \<and>
    entries (uring w') = entries (uring w) @
      \<lparr>sqe_op = OpRead c d 2048 0, sqe_user_data = task_word r, sqe_link = False\<rparr> # map2 (write_entry c) qs client_messages \<and>
    (\<forall>(q, m) \<in> set (zip qs client_messages). holds_message w' q m) \<and>
    closed_fds w' = closed_fds w @ [c] \<and> tasks (store w') p = None \<and> inflight w' = inflight w + 3"
proof -
  obtain r d qs v out' used' where h:
    "run_cb E (AddTask (Suc n) E) p (env_cb E ConnectedId (Some (record_result c 0 k), kbw (store w))) (called ConnectedId p 0 w) = Inr v"
    "entries (uring v) = entries (uring w) @
      \<lparr>sqe_op = OpRead c d 2048 0, sqe_user_data = task_word r, sqe_link = False\<rparr> # map2 (write_entry c) qs client_messages"
    "length qs = 3" "\<forall>(q, m) \<in> set (zip qs client_messages). holds_message v q m" "p \<notin> set qs"
    "tasks (store v) p = tasks (store (called ConnectedId p 0 w)) p" "store_inv out' used' (store v)"
    "inflight v = inflight w + 4" "closed_fds v = closed_fds w"
    by (rule connected_handler [OF assms(1-7)])
  obtain w' where d: "DispatchCqe spins E (AddTask (Suc n) E) p EventNone 0 w = Inr w'" "deleted p used' v w'" "uring w' = uring v"
      "inflight w' = inflight v - 1" "closed_fds w' = closed_fds v @ [c]"
    using awaited_zero [OF assms(6,8,9) h(1,6,7), of spins] by (elim exE conjE) (rule that)
  have "holds_message w' q m" if "(q, m) \<in> set (zip qs client_messages)" for q m
  proof -
    have "q \<noteq> p" using h(5) set_zip_leftD [OF that] by metis
    then have "tasks (store w') q = tasks (store v) q" using d(2) by (simp add: deleted_def)
    moreover have "holds_message v q m" using h(4) that by blast
    ultimately show ?thesis using holds_message_frame by blast
  qed
  then have "\<forall>(q, m) \<in> set (zip qs client_messages). holds_message w' q m" by blast
  moreover have "tasks (store w') p = None" using d(2) by (simp add: deleted_def)
  moreover have "closed_fds w' = closed_fds w @ [c]" "inflight w' = inflight w + 3"
    unfolding d(4,5) h(8,9) by simp_all
  ultimately show ?thesis
    using d(1) h(2,3) unfolding d(3) [symmetric]
    by (intro exI [of _ r] exI [of _ d] exI [of _ qs] exI [of _ w'] conjI)
qed

section \<open>Counting the responses\<close>

text \<open>The state between two responses: the read repeats and its buffer can be shown.\<close>

definition listening :: "int \<Rightarrow> ptr \<Rightarrow> io_world \<Rightarrow> bool" where
  "listening c p w \<longleftrightarrow> (\<exists>k out used. repeating c ClientReadId p k w \<and> kb_size k = 2048 \<and> storage_tag k \<noteq> TagNone \<and>
     store_inv out used (store w))"

lemma repeating_load:
  assumes "repeating c h p k w" and "store_inv out used (store w)" and "storage_tag k \<noteq> TagNone" and "n \<le> kb_size k"
  shows "load_bytes (KernelBuf_Data k) n (k, kbw (store w)) = Inr (take n (kb_contents k (kbw (store w))))"
proof -
  have "kb_ok out k (kbw (store w))"
    using assms(1,2) by (auto elim!: repeatingE simp: store_inv_def task_ok_def)
  then show ?thesis using load_contents assms(3,4) by blast
qed

lemma response_step:
  assumes cb: "env_cb E = tcp_wr_program" and fl: "flushing E" and l: "listening c p w" and r: "0 < r" "r \<le> 2048"
  obtains w' where "DispatchCqe spins E (AddTask (Suc n) E) p EventNone r w = Inr w'" "listening c p w'"
    "counters w' 0 = counters w 0 + 1" "closed_fds w' = closed_fds w @ (if 3 \<le> counters w 0 + 1 then [c] else [])"
    "shutdown_requested w' \<longleftrightarrow> shutdown_requested w \<or> 3 \<le> counters w 0 + 1" "inflight w' = inflight w"
proof -
  obtain k out used where k: "repeating c ClientReadId p k w" "kb_size k = 2048" "storage_tag k \<noteq> TagNone"
    "store_inv out used (store w)" using l by (auto simp: listening_def)
  have ld: "load_bytes (KernelBuf_Data k) (nat r) (k, kbw (store w)) = Inr (take (nat r) (kb_contents k (kbw (store w))))"
    by (rule repeating_load [OF k(1,4,3)]) (use k(2) r(2) in simp)
  let ?w = "called ClientReadId p r w"
  let ?u = "?w\<lparr>counters := (counters w)(0 := counters w 0 + 1)\<rparr>"
  let ?s = "RequestShutdown E (close_fd c ?u)"
  let ?v = "if 3 \<le> counters w 0 + 1 then ?s else ?u"
  have run: "run_cb E (AddTask (Suc n) E) p (env_cb E ClientReadId (Some (record_result c r k), kbw (store w))) ?w = Inr ?v"
    using r(1) show_data_ok [OF ld]
    by (simp add: cb tcp_wr_program_def ClientReadId_def ConnectedId_def ClientReadHandler_def responses_needed_def
        close_then_def shutdown_now_def Let_def)
  have q: "sq (uring w) = []" using k(1) by (rule repeatingE)
  have s: "store ?s = store ?w" "closed_fds ?s = closed_fds w @ [c]" "inflight ?s = inflight w" "config ?s = config w"
      "counters ?s = (counters w)(0 := counters w 0 + 1)" "shutdown_requested ?s"
    using shutdown_flag [of E "close_fd c ?u"] shutdown_frame [of E "close_fd c ?u"] by (simp_all add: close_fd_def)
  have "has_entry E (uring (close_fd c ?u))" using fl q by (simp add: close_fd_def flushing_def)
  then have "sq (uring ?s) = []" using shutdown_entry(1) flush_drains [OF fl] by (simp add: AutoFlush_def)
  then have v: "store ?v = store ?w" "sq (uring ?v) = []" "inflight ?v = inflight w" "config ?v = config w"
    using s q by simp_all
  show thesis
  proof (rule repeating_step [OF k(1) fl _ run v])
    fix w'
    assume w': "DispatchCqe spins E (AddTask (Suc n) E) p EventNone r w = Inr w'"
      "repeating c ClientReadId p (record_result c r k) w'"
      "\<And>out used. store_inv out used (store w) \<Longrightarrow> store_inv out used (store w')" "inflight w' = inflight w"
      "closed_fds w' = closed_fds ?v" "counters w' = counters ?v" "shutdown_requested w' = shutdown_requested ?v"
    have "listening c p w'"
      unfolding listening_def using w'(2) w'(3) [OF k(4)] k(2,3)
      by (intro exI [of _ "record_result c r k"] exI [of _ out] exI [of _ used])
        (simp add: record_result_def SetActiveFileDescriptor_def SetBytesTransferred_def)
    then show thesis using that [OF w'(1)] w'(4-7) s by simp
  qed (use r(1) in simp)
qed

text \<open>
  The client counts its responses. Whatever the sizes of the responses, each is counted once
  and the next read is submitted; the shutdown is requested exactly when the third response has
  come, and not before. The socket is closed with the third response, and once more with every
  response that is still handled after it.
\<close>

theorem responses_counted:
  assumes "env_cb E = tcp_wr_program" and "flushing E" and "listening c p w" and "\<forall>r \<in> set rs. 0 < r \<and> r \<le> 2048"
    and "counters w 0 = 0" and "\<not> shutdown_requested w"
  shows "\<exists>w'. dispatch_all spins E (AddTask (Suc n) E) (map (Pair p) rs) w = Inr w' \<and> counters w' 0 = length rs \<and>
    (shutdown_requested w' \<longleftrightarrow> 3 \<le> length rs) \<and> closed_fds w' = closed_fds w @ replicate (length rs - 2) c \<and>
    listening c p w' \<and> inflight w' = inflight w"
  using assms(4)
proof (induction rs rule: rev_induct)
  case Nil
  then show ?case using assms(3,5,6) by simp
next
  case (snoc r rs)
  then obtain w1 where w1: "dispatch_all spins E (AddTask (Suc n) E) (map (Pair p) rs) w = Inr w1" "counters w1 0 = length rs"
    "shutdown_requested w1 \<longleftrightarrow> 3 \<le> length rs" "closed_fds w1 = closed_fds w @ replicate (length rs - 2) c"
    "listening c p w1" "inflight w1 = inflight w" by auto
  have r: "0 < r" "r \<le> 2048" using snoc.prems by auto
  obtain w' where w': "DispatchCqe spins E (AddTask (Suc n) E) p EventNone r w1 = Inr w'" "listening c p w'"
    "counters w' 0 = counters w1 0 + 1" "closed_fds w' = closed_fds w1 @ (if 3 \<le> counters w1 0 + 1 then [c] else [])"
    "shutdown_requested w' \<longleftrightarrow> shutdown_requested w1 \<or> 3 \<le> counters w1 0 + 1" "inflight w' = inflight w1"
    by (rule response_step [OF assms(1,2) w1(5) r])
  have "closed_fds w' = closed_fds w @ replicate (length (rs @ [r]) - 2) c"
    using w'(4) w1(2,4) by (cases "2 \<le> length rs") (auto simp: replicate_append_same dest!: le_Suc_ex)
  then show ?case using w1 w' by (auto simp: dispatch_all_append)
qed

section \<open>Examples\<close>

definition tcp_wr_env :: io_env where
  "tcp_wr_env = demo_env\<lparr>env_cb := tcp_wr_program, env_alloc := bump_alloc\<rparr>"

lemma tcp_wr_env_fields [simp]:
  "env_cb tcp_wr_env = tcp_wr_program" "env_alloc tcp_wr_env = bump_alloc" "flushing tcp_wr_env" "env_chain tcp_wr_env = 4"
  by (simp_all add: tcp_wr_env_def demo_env_def flushing_def)

abbreviation connecting_world :: io_world where
  "connecting_world \<equiv> demo_world (\<lambda>t. t\<lparr>task_state := StateSubmitted, task_type := TypeConnect, handler := ConnectedId\<rparr>) 0 1"

theorem connected_client_sends_witness:
  "\<exists>w'. DispatchCqe 0 tcp_wr_env (AddTask 1 tcp_wr_env) 64 EventNone 0 connecting_world = Inr w' \<and>
     length (entries (uring w')) = 4 \<and> closed_fds w' = [5] \<and> inflight w' = 4"
proof -
  have inv: "\<exists>out used. store_inv out used (store connecting_world)"
    using demo_inv [of "\<lambda>t. t\<lparr>task_state := StateSubmitted, task_type := TypeConnect, handler := ConnectedId\<rparr>" 0 1] by auto
  then obtain out used where i: "store_inv out used (store connecting_world)" by blast
  have a: "awaiting 5 ConnectedId 64 demo_buf connecting_world" "room 4 connecting_world"
    by (simp_all add: awaiting_def pending_def room_def)
  have E: "env_cb tcp_wr_env = tcp_wr_program" "allocator_ok (env_alloc tcp_wr_env)" "abundant (env_alloc tcp_wr_env)"
      "flushing tcp_wr_env" "(0 :: int) < 5" "0 < env_chain tcp_wr_env"
    using abundant_bump bump_alloc_ok by simp_all
  obtain r d qs w' where "DispatchCqe 0 tcp_wr_env (AddTask (Suc 0) tcp_wr_env) 64 EventNone 0 connecting_world = Inr w'"
      "length qs = 3" "entries (uring w') = entries (uring connecting_world) @
        \<lparr>sqe_op = OpRead 5 d 2048 0, sqe_user_data = task_word r, sqe_link = False\<rparr> # map2 (write_entry 5) qs client_messages"
      "closed_fds w' = closed_fds connecting_world @ [5]" "inflight w' = inflight connecting_world + 3"
    using connected_client_sends [OF E(1-4) i a E(5,6), of 0 0] by (elim exE conjE) (rule that)
  then show ?thesis by (intro exI [of _ w']) (simp add: client_messages_def)
qed

abbreviation listening_world :: io_world where
  "listening_world \<equiv> demo_world (\<lambda>t. t\<lparr>task_state := StateSubmitted, task_type := TypeRead, repeat_forever := True,
     handler := ClientReadId\<rparr>) 0 1"

theorem responses_counted_witness:
  "\<exists>w'. dispatch_all 0 tcp_wr_env (AddTask 1 tcp_wr_env) [(64, 14), (64, 13), (64, 9)] listening_world = Inr w' \<and>
     counters w' 0 = 3 \<and> shutdown_requested w' \<and> closed_fds w' = [5]"
proof -
  obtain out used where "store_inv out used (store listening_world)"
    using demo_inv [of "\<lambda>t. t\<lparr>task_state := StateSubmitted, task_type := TypeRead, repeat_forever := True,
      handler := ClientReadId\<rparr>" 0 1] by auto
  moreover have "repeating 5 ClientReadId 64 demo_buf listening_world"
    by (simp add: repeating_def pending_def room_def)
  ultimately have l: "listening 5 64 listening_world" using demo_buf_storage by (auto simp: listening_def)
  have "\<forall>r \<in> set [14, 13, 9 :: int]. 0 < r \<and> r \<le> 2048" "counters listening_world 0 = 0" by (simp_all add: demo_world_def)
  from responses_counted [OF tcp_wr_env_fields(1,3) l this, of 0 0] show ?thesis by auto
qed

end
