(* ===== verification/Loop_Programs.thy ===== *)
theory Loop_Programs
  imports File_Programs Lifecycle
begin

text \<open>
  \<^verbatim>\<open>examples/read_file_example.cc\<close>, \<^verbatim>\<open>examples/timeout_retry_example.cc\<close> and
  \<^verbatim>\<open>examples/signal_shutdown_example.cc\<close>: a program that waits for its read, one with a timeout and
  retries, and one that reads for ever until a signal comes.
\<close>

section \<open>Waiting for a read\<close>

definition ReadId :: nat where "ReadId = 13"

definition ReadHandler :: "KernelBuf \<Rightarrow> kb_world \<Rightarrow> cb_prog" where
  "ReadHandler buf v =
     (let n = io_value buf in if n < 0 then Return else show_data buf v (nat n) Return)"

text \<open>\<^verbatim>\<open>main\<close> from \<^verbatim>\<open>open\<close>, which returned \<^verbatim>\<open>c\<close>, up to \<^verbatim>\<open>WaitForCompletion\<close>, and after it.\<close>

definition read_file_main :: "int \<Rightarrow> cb_prog" where
  "read_file_main c =
     (if c < 0 then Return
      else Call (CreateCall c ReadId) (\<lambda>t.
        set_all t [TaskTypeIs TypeRead, DebugStrIs ''read_file_example'']
          (Call (AddCall t) (\<lambda>added. if added = 0 then close_then c Return else Return))))"

text \<open>
  \<^verbatim>\<open>main\<close> after the wait: \<^verbatim>\<open>RequestShutdown\<close>, \<^verbatim>\<open>Join\<close>, \<^verbatim>\<open>close\<close>. The event thread runs since the handler was
  constructed; it is at the head of its loop, or blocked in \<^verbatim>\<open>io_uring_wait_cqe\<close>.
\<close>

definition read_file_end ::
    "io_env \<Rightarrow> nat \<Rightarrow> add_fun \<Rightarrow> kernel \<Rightarrow> bool \<Rightarrow> poll list \<Rightarrow> int \<Rightarrow> io_handler \<Rightarrow> io_fault + io_handler option" where
  "read_file_end E spins add K blocked qs c H =
     and_then (Join E spins add K blocked qs (H\<lparr>io := RequestShutdown E (io H)\<rparr>)) (\<lambda>r.
       Inr (map_option (\<lambda>H1. H1\<lparr>io := close_fd c (io H1)\<rparr>) r))"

lemma read_file_submitted:
  assumes "allocator_ok (env_alloc E)" and "abundant (env_alloc E)" and "flushing E"
    and "store_inv out used (store w)" and "sq (uring w) = []" and "room 1 w" and "0 \<le> c"
  obtains q k t w1 out' where "run_cb E (AddTask (Suc n) E) nullptr (read_file_main c) w = Inr w1"
    "entries (uring w1) = entries (uring w) @
      [\<lparr>sqe_op = OpRead c (KernelBuf_Data k) 2048 0, sqe_user_data = task_word q, sqe_link = False\<rparr>]"
    "pending w1 q t k" "\<not> detach t" "task_state t = StateSubmitted" "handler t = ReadId" "fd t = c" "\<not> repeat_forever t"
    "next_task t = nullptr" "q \<noteq> nullptr" "kb_ok out' k (kbw (store w1))" "storage_tag k \<noteq> TagNone" "kb_size k = 2048"
    "closed_fds w1 = closed_fds w" "invoked w1 = invoked w" "inflight w1 = inflight w + 1"
proof -
  let ?cs = "[TaskTypeIs TypeRead, DebugStrIs ''read_file_example'']"
  let ?f = "\<lambda>added :: nat. if added = 0 then close_then c Return else Return"
  have cs: "\<forall>e \<in> set ?cs. plain_setting e" "\<And>kq. ready (fold apply_setting ?cs (AsyncTask_construct c ReadId kq))"
    by (simp_all add: ready_def apply_setting_def task_setters AsyncTask_construct_def)
  obtain q s k out' where m: "run_cb E (AddTask (Suc n) E) nullptr (Call (CreateCall c ReadId) (\<lambda>q. set_all q ?cs (Call (AddCall q) ?f))) w =
      run_cb E (AddTask (Suc n) E) nullptr (?f 1) (submitted E q (fold apply_setting ?cs (AsyncTask_construct c ReadId k)) k (w\<lparr>store := s\<rparr>))"
    "q \<noteq> nullptr" "tasks (store w) q = None" "tasks s = (tasks (store w))(q \<mapsto> AsyncTask_construct c ReadId k)"
    "store_inv out' (insert q used) s" "kb_size k = kDefaultBufferSize" "kb_offset k = 0" "storage_tag k \<noteq> TagNone"
    by (rule reader_submitted_call [OF assms(1,3,4) abundant_task [OF assms(2,1,4)] assms(5,6) cs, where f = ?f])
  let ?t = "fold apply_setting ?cs (AsyncTask_construct c ReadId k)"
  let ?w1 = "submitted E q ?t k (w\<lparr>store := s\<rparr>)"
  let ?t1 = "(in_flight ?t)\<lparr>user_data := task_word q\<rparr>"
  have run: "run_cb E (AddTask (Suc n) E) nullptr (read_file_main c) w = Inr ?w1"
    using m(1) assms(7) by (simp add: read_file_main_def del: set_all.simps run_cb.simps(2))
  have "task_op ?t k = OpRead c (KernelBuf_Data k) 2048 0"
    using m(6,7) by (simp add: apply_setting_def task_setters AsyncTask_construct_def task_op.simps size_consts)
  then have e: "entries (uring ?w1) = entries (uring w) @
      [\<lparr>sqe_op = OpRead c (KernelBuf_Data k) 2048 0, sqe_user_data = task_word q, sqe_link = False\<rparr>]"
    unfolding submitted_fields(7) by simp
  have f: "handler ?t1 = ReadId" "fd ?t1 = c" "\<not> repeat_forever ?t1" "next_task ?t1 = nullptr" "buffer ?t1 = Some k"
    by (simp_all add: apply_setting_def task_setters AsyncTask_construct_def)
  have "tasks s q = Some (AsyncTask_construct c ReadId k)" "buffer (AsyncTask_construct c ReadId k) = Some k"
    using m(4) by (simp_all add: AsyncTask_construct_def)
  then have "kb_ok out' k (kbw s)" using m(5) unfolding store_inv_def task_ok_def by blast
  then show thesis
    using that [of ?w1 k q ?t1 out'] run e f m(2,6,8) by (simp add: pending_def size_consts del: append_assoc)
qed

text \<open>The completion of the read while the shutdown is requested: the handler runs, and the task ends.\<close>

lemma read_file_completed:
  assumes "\<forall>k v. env_cb E ReadId (Some k, v) = ReadHandler k v" and "pending w q t k" and "handler t = ReadId"
    and "\<not> repeat_forever t" and "next_task t = nullptr" and "kb_ok out k (kbw (store w))" and "storage_tag k \<noteq> TagNone"
    and "0 < res" and "nat res \<le> kb_size k" and "q \<noteq> nullptr" and "q < 2 ^ 61"
  shows "\<exists>w'. loop_round spins E add (waited (0, Some (task_word q, res))) w = Inr w' \<and>
    invoked w' = invoked w @ [(ReadId, q, Some res)] \<and> closed_fds w' = closed_fds w \<and> inflight w' = inflight w - 1"
proof -
  let ?k = "record_result (fd t) res k"
  let ?w2 = "(recorded q t k res w)\<lparr>invoked := invoked w @ [(ReadId, q, Some res)]\<rparr>"
  have "env_cb E (handler t) (Some ?k, kbw (store w)) = Return"
    using assms(1,3,8) show_data_ok [OF load_contents [OF assms(6,7,9)]] by (simp add: ReadHandler_def)
  then have "handler_run E add q t k res w = Inr ?w2" using assms(3) by (simp add: handler_run_def)
  from one_shot_world [OF assms(2,8) this, of "t\<lparr>buffer := Some ?k\<rparr>" spins]
  have d: "DispatchCqe spins E add q EventNone res w = Inr ((set_task q (t\<lparr>buffer := Some ?k, task_state := StateSuccess,
      done_state := kSignaled, detach := True\<rparr>) ?w2)\<lparr>inflight := inflight w - 1\<rparr>)"
    using assms(4,5) by (simp add: recorded_def)
  have "task_word q = tag_user_data (task_word q) EventNone" by (simp add: tag_user_data_def EventNone_def)
  then have "loop_round spins E add (waited (0, Some (task_word q, res))) w = DispatchCqe spins E add q EventNone res w"
    using loop_finds_task [OF assms(10,11), of EventNone "waited (0, Some (task_word q, res))" "task_word q" res spins E add w]
    by (simp add: waited_def)
  then show ?thesis using d by (simp add: recorded_def)
qed

text \<open>The end of the program when the loop does not handle the read's completion, and when it does.\<close>

lemma read_file_missed:
  assumes "joinable H" and "\<not> blocked \<or> K (sent (uring (RequestShutdown E (io H)))) = Some (0, Some (0, 0))"
  shows "\<exists>H'. read_file_end E spins (AddTask n E) K blocked qs c H = Inr (Some H') \<and> io H' = close_fd c (RequestShutdown E (io H))"
proof -
  let ?v = "RequestShutdown E (io H)"
  have "Join E spins (AddTask n E) K blocked qs (H\<lparr>io := ?v\<rparr>) = Inr (Some (H\<lparr>io := ?v, joinable := False\<rparr>))"
    using assms shutdown_flag [of E "io H"] Join_blocked [of "H\<lparr>io := ?v\<rparr>" K "(0, Some (0, 0))"] Join_running [of "H\<lparr>io := ?v\<rparr>"]
    by (cases blocked) (simp_all add: waited_def loop_round_def)
  then show ?thesis by (simp add: read_file_end_def)
qed

lemma read_file_delivered:
  assumes "\<forall>k v. env_cb E ReadId (Some k, v) = ReadHandler k v" and pen: "pending (io H) q t k" and "handler t = ReadId"
    and "\<not> repeat_forever t" and "next_task t = nullptr" and "kb_ok out k (kbw (store (io H)))" and "storage_tag k \<noteq> TagNone"
    and "0 < res" and "nat res \<le> kb_size k" and "q \<noteq> nullptr" and "q < 2 ^ 61" and "joinable H"
    and K: "K (sent (uring (RequestShutdown E (io H)))) = Some (0, Some (task_word q, res))"
  shows "\<exists>H'. read_file_end E spins (AddTask n E) K True qs c H = Inr (Some H') \<and> closed_fds (io H') = closed_fds (io H) @ [c] \<and>
    invoked (io H') = invoked (io H) @ [(ReadId, q, Some res)] \<and> inflight (io H') = inflight (io H) - 1"
proof -
  let ?v = "RequestShutdown E (io H)"
  have fr: "shutdown_requested ?v" "store ?v = store (io H)" "closed_fds ?v = closed_fds (io H)" "invoked ?v = invoked (io H)"
      "inflight ?v = inflight (io H)" using shutdown_flag [of E "io H"] shutdown_frame [of E "io H"] by simp_all
  have pv: "pending ?v q t k" "kb_ok out k (kbw (store ?v))" using pen assms(6) fr(2) by (simp_all add: pending_def)
  obtain w' where w': "loop_round spins E (AddTask n E) (waited (0, Some (task_word q, res))) ?v = Inr w'"
      "invoked w' = invoked (io H) @ [(ReadId, q, Some res)]" "closed_fds w' = closed_fds (io H)" "inflight w' = inflight (io H) - 1"
    using read_file_completed [OF assms(1) pv(1) assms(3-5) pv(2) assms(7-11), of spins "AddTask n E"] fr(3-5) by auto
  then have "Join E spins (AddTask n E) K True qs (H\<lparr>io := ?v\<rparr>) = Inr (Some (H\<lparr>io := w', joinable := False\<rparr>))"
    using assms(12) K fr(1) Join_blocked [of "H\<lparr>io := ?v\<rparr>" K "(0, Some (task_word q, res))"] by simp
  then show ?thesis using w' by (simp add: read_file_end_def close_fd_def)
qed

text \<open>
  C32: The program that reads a file and waits for the result. Until the event loop has handled the
  completion, \<^verbatim>\<open>WaitForCompletion\<close> without a timeout returns -1 at once, so the program goes on to the
  shutdown with its read in flight. What happens then depends on the event thread. If it is at the
  head of its loop, or blocked and woken by the no-op of the shutdown, the program joins it,
  closes the file and ends with the read still in flight and its handler never called. If it is
  blocked and gets the read's completion first, the handler is called once with the result, after
  the program has already reported -1.
\<close>

theorem read_file_wait_fails:
  assumes "\<forall>k v. env_cb E ReadId (Some k, v) = ReadHandler k v" and "allocator_ok (env_alloc E)" and "abundant (env_alloc E)"
    and "flushing E" and "store_inv out used (store w)" and "sq (uring w) = []" and "room 1 w" and "0 \<le> c"
  shows "\<exists>q d t r w1. run_cb E (AddTask (Suc n) E) nullptr (read_file_main c) w = Inr w1 \<and>
    entries (uring w1) = entries (uring w) @
      [\<lparr>sqe_op = OpRead c d 2048 0, sqe_user_data = task_word q, sqe_link = False\<rparr>] \<and>
    tasks (store w1) q = Some t \<and> task_state t = StateSubmitted \<and>
    WaitForCompletion (-1) arrives t = Some (r, t) \<and> io_ret r = -1 \<and> \<not> iodone r \<and>
    (\<forall>K blocked qs H. joinable H \<and> io H = w1 \<longrightarrow>
      (\<not> blocked \<or> K (sent (uring (RequestShutdown E w1))) = Some (0, Some (0, 0)) \<longrightarrow>
        (\<exists>H'. read_file_end E spins (AddTask (Suc n) E) K blocked qs c H = Inr (Some H') \<and>
           closed_fds (io H') = closed_fds w @ [c] \<and> invoked (io H') = invoked w \<and> inflight (io H') = inflight w + 1 \<and>
           tasks (store (io H')) q = Some t)) \<and>
      (\<forall>res. blocked \<and> K (sent (uring (RequestShutdown E w1))) = Some (0, Some (task_word q, res)) \<and> 0 < res \<and> res \<le> 2048 \<and>
          q < 2 ^ 61 \<longrightarrow>
        (\<exists>H'. read_file_end E spins (AddTask (Suc n) E) K blocked qs c H = Inr (Some H') \<and>
           closed_fds (io H') = closed_fds w @ [c] \<and> invoked (io H') = invoked w @ [(ReadId, q, Some res)] \<and>
           inflight (io H') = inflight w)))"
proof -
  obtain q k t w1 out' where m: "run_cb E (AddTask (Suc n) E) nullptr (read_file_main c) w = Inr w1"
    "entries (uring w1) = entries (uring w) @
      [\<lparr>sqe_op = OpRead c (KernelBuf_Data k) 2048 0, sqe_user_data = task_word q, sqe_link = False\<rparr>]"
    "pending w1 q t k" "\<not> detach t" "task_state t = StateSubmitted" "handler t = ReadId" "fd t = c" "\<not> repeat_forever t"
    "next_task t = nullptr" "q \<noteq> nullptr" "kb_ok out' k (kbw (store w1))" "storage_tag k \<noteq> TagNone" "kb_size k = 2048"
    "closed_fds w1 = closed_fds w" "invoked w1 = invoked w" "inflight w1 = inflight w + 1"
    by (rule read_file_submitted [OF assms(2-8)])
  let ?v = "RequestShutdown E w1"
  have fr: "store ?v = store w1" "closed_fds ?v = closed_fds w" "invoked ?v = invoked w" "inflight ?v = inflight w + 1"
    using shutdown_flag [of E w1] shutdown_frame [of E w1] m(14-16) by simp_all
  obtain r where r: "WaitForCompletion (-1) arrives t = Some (r, t)" "io_ret r = -1" "\<not> iodone r"
    using m(4) by (simp add: WaitForCompletion_def Let_def)
  have t: "tasks (store w1) q = Some t" using m(3) by (simp add: pending_def)
  have all: "\<forall>K blocked qs H. joinable H \<and> io H = w1 \<longrightarrow>
      (\<not> blocked \<or> K (sent (uring ?v)) = Some (0, Some (0, 0)) \<longrightarrow>
        (\<exists>H'. read_file_end E spins (AddTask (Suc n) E) K blocked qs c H = Inr (Some H') \<and>
           closed_fds (io H') = closed_fds w @ [c] \<and> invoked (io H') = invoked w \<and> inflight (io H') = inflight w + 1 \<and>
           tasks (store (io H')) q = Some t)) \<and>
      (\<forall>res. blocked \<and> K (sent (uring ?v)) = Some (0, Some (task_word q, res)) \<and> 0 < res \<and> res \<le> 2048 \<and> q < 2 ^ 61 \<longrightarrow>
        (\<exists>H'. read_file_end E spins (AddTask (Suc n) E) K blocked qs c H = Inr (Some H') \<and>
           closed_fds (io H') = closed_fds w @ [c] \<and> invoked (io H') = invoked w @ [(ReadId, q, Some res)] \<and>
           inflight (io H') = inflight w))"
  proof (intro allI impI, elim conjE, intro conjI allI impI, goal_cases)
    case (1 K blocked qs H)
    then show ?case
      using read_file_missed [of H blocked K E spins "Suc n" qs c] fr t by (auto simp: close_fd_def)
  next
    case (2 K blocked qs H res)
    then have "nat res \<le> kb_size k" "pending (io H) q t k" "kb_ok out' k (kbw (store (io H)))" using m(3,11,13) by auto
    then show ?case
      using 2 read_file_delivered [OF assms(1) _ m(6,8,9) _ m(12) _ _ m(10), where H = H and out = out' and res = res and K = K
          and spins = spins and n = "Suc n" and qs = qs and c = c] m(14-16) by simp
  qed
  show ?thesis
    by (intro exI [of _ q] exI [of _ "KernelBuf_Data k"] exI [of _ t] exI [of _ r] exI [of _ w1] conjI m(1,2,5) t r all)
qed

section \<open>A timeout and retries\<close>

definition TimeoutAwareId :: nat where "TimeoutAwareId = 15"

text \<open>Counter 0 is \<^verbatim>\<open>g_attempts\<close>.\<close>

definition TimeoutAwareHandler :: "KernelBuf \<Rightarrow> cb_prog" where
  "TimeoutAwareHandler buf =
     (let n = io_value buf; c = io_fd buf
      in Call (CountCall 0) (\<lambda>attempt.
           if n < 0 then Return
           else if n = 0 then close_then c shutdown_now
           else close_then c shutdown_now))"

definition timeout_main :: "int \<Rightarrow> cb_prog" where
  "timeout_main c =
     (if c < 0 then Return
      else Call (CreateCall c TimeoutAwareId) (\<lambda>t.
        set_all t [TaskTypeIs TypeRead, DebugStrIs ''timeout_demo'', TimeoutIs 10, MaxRetryCountIs 3]
          (Call (AddCall t) (\<lambda>added. if added = 0 then close_then c Return else Return))))"

text \<open>The start of the program: a read that is linked to a timeout of ten milliseconds.\<close>

lemma timeout_started:
  assumes E: "allocator_ok (env_alloc E)" "abundant (env_alloc E)" "flushing E" "\<forall>c. api_get (env_api E) c 1"
    and inv: "store_inv out used (store w)" and w: "sq (uring w) = []" "room 1 w" and c: "0 \<le> c"
  obtains q k w' out' where "run_cb E (AddTask (Suc n) E) nullptr (timeout_main c) w = Inr w'"
    "entries (uring w') = entries (uring w) @
      [\<lparr>sqe_op = OpRead c (KernelBuf_Data k) 2048 0, sqe_user_data = task_word q, sqe_link = True\<rparr>,
       \<lparr>sqe_op = OpLinkTimeout 0 10000000, sqe_user_data = task_word q OR kTimeoutFlag, sqe_link = False\<rparr>]"
    "awaiting c TimeoutAwareId q k w'" "store_inv out' (insert q used) (store w')" "inflight w' = inflight w + 1"
    "invoked w' = invoked w" "closed_fds w' = closed_fds w" "counters w' = counters w"
    "shutdown_requested w' = shutdown_requested w"
proof -
  let ?cs = "[TaskTypeIs TypeRead, DebugStrIs ''timeout_demo'', TimeoutIs 10, MaxRetryCountIs 3]"
  obtain q s k out' where m: "create_task E c TimeoutAwareId w = (q, w\<lparr>store := s\<rparr>)" "q \<noteq> nullptr" "tasks (store w) q = None"
    "tasks s = (tasks (store w))(q \<mapsto> AsyncTask_construct c TimeoutAwareId k)" "kb_size k = kDefaultBufferSize" "kb_offset k = 0"
    "store_inv out' (insert q used) s"
    by (rule create_task_world [OF E(1) inv abundant_task [OF E(2,1) inv]])
  let ?t0 = "AsyncTask_construct c TimeoutAwareId k"
  let ?u = "fold apply_setting ?cs ?t0"
  have t: "buffer ?u = buffer ?t0" "buffer ?u = Some k" "task_state ?u \<noteq> StateSubmitted" "task_type ?u = TypeRead"
      "timeout_ms ?u = 10" "fd ?u = c" "handler ?u = TimeoutAwareId" "\<not> repeat_forever ?u" "next_task ?u = nullptr"
    by (simp_all add: apply_setting_def task_setters AsyncTask_construct_def)
  let ?v = "set_task q ?u (w\<lparr>store := s\<rparr>)"
  let ?tq = "(in_flight ?u)\<lparr>user_data := task_word q\<rparr>"
  let ?w' = "AutoFlush E (with_entries (timed_entries q ?u k) (set_task q ?tq (?v\<lparr>inflight := inflight ?v + 1\<rparr>)))"
  have "AddTask (Suc n) E q ?v = Inr (True, ?w')"
    by (rule AddTask_timed)
      (use t m(2) w E(3,4) in \<open>auto simp: room_def BackpressureActive_def flushing_def with_entries_def\<close>)
  then have "run_cb E (AddTask (Suc n) E) nullptr (timeout_main c) w = Inr ?w'"
    using m(1,4) c run_set_all [of "w\<lparr>store := s\<rparr>" q ?t0 E "AddTask (Suc n) E" nullptr ?cs]
    by (simp add: timeout_main_def del: set_all.simps fold.simps)
  moreover have "task_op ?u k = OpRead c (KernelBuf_Data k) 2048 0"
    using t(4,6) m(5,6) by (simp add: task_op.simps size_consts del: fold.simps)
  then have "entries (uring ?w') = entries (uring w) @
      [\<lparr>sqe_op = OpRead c (KernelBuf_Data k) 2048 0, sqe_user_data = task_word q, sqe_link = True\<rparr>,
       \<lparr>sqe_op = OpLinkTimeout 0 10000000, sqe_user_data = task_word q OR kTimeoutFlag, sqe_link = False\<rparr>]"
    using t(5) by (simp add: timed_entries_def del: fold.simps)
  moreover have "tasks (store ?w') q = Some ?tq" by (simp del: fold.simps)
  from submitted_awaits [OF this t(2) m(2) flush_drains [OF E(3)] t(8,9)]
  have "awaiting c TimeoutAwareId q k ?w'" unfolding t(6,7) .
  moreover have "store_inv out' (insert q used) (store ?w')"
    using store_inv_upd [OF m(7), of q ?t0 ?tq] m(4) t(1) by (simp add: set_task_def del: fold.simps)
  ultimately show thesis
    using that [of ?w' k q out'] by (simp add: AutoFlush_def submit_def with_entries_def set_task_def del: fold.simps)
qed

text \<open>
  C33: The program with a timeout of ten milliseconds and three retries, when the timeout expires.
  The kernel ends the read with \<^verbatim>\<open>ECANCELED\<close>: the task is deleted without a retry, no handler
  runs, no attempt is counted, the descriptor stays open, nothing is left in flight and no
  shutdown is requested, so the event loop that the program joins has no reason to end. The
  completion of the timeout itself then makes the loop read the deleted task.
\<close>

theorem timeout_demo_never_retries:
  assumes "allocator_ok (env_alloc E)" and "abundant (env_alloc E)" and "flushing E" and "\<forall>c. api_get (env_api E) c 1"
    and "store_inv out used (store w)" and "sq (uring w) = []" and "room 1 w" and "0 \<le> c" and "0 < env_chain E"
  shows "\<exists>q d w1 w'. run_cb E (AddTask (Suc n) E) nullptr (timeout_main c) w = Inr w1 \<and>
    entries (uring w1) = entries (uring w) @
      [\<lparr>sqe_op = OpRead c d 2048 0, sqe_user_data = task_word q, sqe_link = True\<rparr>,
       \<lparr>sqe_op = OpLinkTimeout 0 10000000, sqe_user_data = task_word q OR kTimeoutFlag, sqe_link = False\<rparr>] \<and>
    DispatchCqe spins E (AddTask (Suc n) E) q EventNone (- ECANCELED) w1 = Inr w' \<and>
    uring w' = uring w1 \<and> tasks (store w') q = None \<and> invoked w' = invoked w \<and> counters w' = counters w \<and>
    closed_fds w' = closed_fds w \<and> shutdown_requested w' = shutdown_requested w \<and> inflight w' = inflight w \<and>
    DispatchCqe spins E (AddTask (Suc n) E) q EventTimeout res w' = Inl (UseAfterFree q)"
proof -
  obtain q k w1 out' where m: "run_cb E (AddTask (Suc n) E) nullptr (timeout_main c) w = Inr w1"
    "entries (uring w1) = entries (uring w) @
      [\<lparr>sqe_op = OpRead c (KernelBuf_Data k) 2048 0, sqe_user_data = task_word q, sqe_link = True\<rparr>,
       \<lparr>sqe_op = OpLinkTimeout 0 10000000, sqe_user_data = task_word q OR kTimeoutFlag, sqe_link = False\<rparr>]"
    "awaiting c TimeoutAwareId q k w1" "store_inv out' (insert q used) (store w1)" "inflight w1 = inflight w + 1"
    "invoked w1 = invoked w" "closed_fds w1 = closed_fds w" "counters w1 = counters w"
    "shutdown_requested w1 = shutdown_requested w"
    by (rule timeout_started [OF assms(1-8)])
  obtain tk where t: "pending w1 q tk k" "tasks (store w1) q = Some tk" "buffer tk = Some k" "next_task tk = nullptr" "q \<noteq> nullptr"
    using m(3) by (rule awaitingE)
  have st: "task_state tk = StateSubmitted \<or> task_state tk = StateReady" using t(1) by (simp add: pending_def)
  obtain s where d: "DispatchCqe spins E (AddTask (Suc n) E) q EventNone (- ECANCELED) w1 = Inr (w1\<lparr>store := s, inflight := inflight w1 - 1\<rparr>)"
      "deleted q (insert q used) w1 (w1\<lparr>store := s\<rparr>)"
    using ended_without_handler_world [OF m(4) t(2,3) st t(4) _ t(5) assms(9), of EventNone "- ECANCELED" spins "AddTask (Suc n) E"]
    by blast
  have g: "tasks s q = None" using d(2) by (simp add: deleted_def)
  then have "DispatchCqe spins E (AddTask (Suc n) E) q EventTimeout res (w1\<lparr>store := s, inflight := inflight w1 - 1\<rparr>) = Inl (UseAfterFree q)"
    by (simp add: DispatchCqe_def deref_def)
  then show ?thesis
    using m d(1) g
    by (intro exI [of _ q] exI [of _ "KernelBuf_Data k"] exI [of _ w1] exI [of _ "w1\<lparr>store := s, inflight := inflight w1 - 1\<rparr>"]) simp
qed

text \<open>When the read succeeds in time, one attempt is counted, the file closed and the shutdown requested.\<close>

theorem timeout_demo_reads:
  assumes cb: "\<forall>k v. env_cb E TimeoutAwareId (Some k, v) = TimeoutAwareHandler k"
    and aw: "awaiting c TimeoutAwareId p k w" and r: "0 < r"
  shows "\<exists>w'. DispatchCqe spins E add p EventNone r w = Inr w' \<and> counters w' 0 = counters w 0 + 1 \<and>
    closed_fds w' = closed_fds w @ [c] \<and> shutdown_requested w' \<and> inflight w' = inflight w - 1"
proof -
  let ?u = "close_fd c ((called TimeoutAwareId p r w)\<lparr>counters := (counters w)(0 := counters w 0 + 1)\<rparr>)"
  have run: "run_cb E add p (env_cb E TimeoutAwareId (Some (record_result c r k), kbw (store w))) (called TimeoutAwareId p r w) =
      Inr (RequestShutdown E ?u)"
    using cb r by (simp add: TimeoutAwareHandler_def close_then_def shutdown_now_def Let_def)
  have ts: "tasks (store (RequestShutdown E ?u)) = tasks (store (called TimeoutAwareId p r w))"
    using shutdown_flag [of E ?u] by (simp add: close_fd_def)
  show ?thesis
    using awaited_last [OF aw r run ts, of spins] shutdown_flag [of E ?u] shutdown_frame [of E ?u] by (auto simp: close_fd_def)
qed

section \<open>Reading for ever\<close>

definition RepeatReadId :: nat where "RepeatReadId = 14"

definition RepeatReadHandler :: "KernelBuf \<Rightarrow> cb_prog" where
  "RepeatReadHandler buf = (if io_value buf \<le> 0 then close_then (io_fd buf) Return else Return)"

text \<open>\<^verbatim>\<open>main\<close> up to the installation of the signal handlers.\<close>

definition signal_main :: "int \<Rightarrow> cb_prog" where
  "signal_main c =
     (if c < 0 then Return
      else Call (CreateCall c RepeatReadId) (\<lambda>t.
        set_all t [TaskTypeIs TypeRead, RepeatForeverIs True, DebugStrIs ''repeat_null_read''] (add_then t Return)))"

lemma end_of_null:
  assumes cb: "\<forall>k v. env_cb E RepeatReadId (Some k, v) = RepeatReadHandler k" and fl: "flushing E"
    and rp: "repeating c RepeatReadId p k w"
  defines "e \<equiv> \<lparr>sqe_op = OpRead c (KernelBuf_Data k) (kb_size k mod 2 ^ 32) (word_of_int (kb_offset k)),
    sqe_user_data = task_word p, sqe_link = False\<rparr>"
  shows "\<exists>w' k'. dispatch_all spins E (AddTask (Suc n) E) (replicate m (p, 0)) w = Inr w' \<and> repeating c RepeatReadId p k' w' \<and>
    KernelBuf_Data k' = KernelBuf_Data k \<and> kb_size k' = kb_size k \<and> kb_offset k' = kb_offset k \<and>
    entries (uring w') = entries (uring w) @ replicate m e \<and> closed_fds w' = closed_fds w @ replicate m c \<and>
    inflight w' = inflight w \<and> shutdown_requested w' = shutdown_requested w"
proof (induction m)
  case 0
  show ?case using rp by auto
next
  case (Suc m)
  then obtain v k' where h: "dispatch_all spins E (AddTask (Suc n) E) (replicate m (p, 0)) w = Inr v"
    "repeating c RepeatReadId p k' v" "KernelBuf_Data k' = KernelBuf_Data k" "kb_size k' = kb_size k" "kb_offset k' = kb_offset k"
    "entries (uring v) = entries (uring w) @ replicate m e" "closed_fds v = closed_fds w @ replicate m c"
    "inflight v = inflight w" "shutdown_requested v = shutdown_requested w" by (elim exE conjE) (rule that)
  let ?u = "close_fd c (called RepeatReadId p 0 v)"
  have run: "run_cb E (AddTask (Suc n) E) p (env_cb E RepeatReadId (Some (record_result c 0 k'), kbw (store v)))
      (called RepeatReadId p 0 v) = Inr ?u"
    using cb by (simp add: RepeatReadHandler_def close_then_def)
  have u: "store ?u = store (called RepeatReadId p 0 v)" "sq (uring ?u) = []" "inflight ?u = inflight v" "config ?u = config v"
    using h(2) by (simp_all add: close_fd_def repeating_def)
  obtain w' where w': "DispatchCqe spins E (AddTask (Suc n) E) p EventNone 0 v = Inr w'"
    "repeating c RepeatReadId p (record_result c 0 k') w'"
    "entries (uring w') = entries (uring ?u) @ [\<lparr>sqe_op = OpRead c (KernelBuf_Data k') (kb_size k' mod 2 ^ 32)
       (word_of_int (kb_offset k')), sqe_user_data = task_word p, sqe_link = False\<rparr>]"
    "inflight w' = inflight v" "closed_fds w' = closed_fds ?u" "shutdown_requested w' = shutdown_requested ?u"
    by (rule repeating_step [OF h(2) fl order_refl run u])
  have "dispatch_all spins E (AddTask (Suc n) E) (replicate (Suc m) (p, 0)) w = Inr w'"
    unfolding replicate.simps replicate_append_same [symmetric] dispatch_all_append using h(1) w'(1) by simp
  moreover have "entries (uring w') = entries (uring w) @ replicate (Suc m) e"
    using w'(3) h(3-6) by (simp add: e_def replicate_append_same close_fd_def)
  moreover have "closed_fds w' = closed_fds w @ replicate (Suc m) c"
    using w'(5) h(7) by (simp add: replicate_append_same close_fd_def)
  ultimately show ?case
    using w'(2,4,6) h(3-5,8,9)
    by (intro exI [of _ w'] exI [of _ "record_result c 0 k'"]) (simp add: close_fd_def del: replicate.simps dispatch_all.simps)
qed

text \<open>
  The program that reads from a file that is always at its end. Its task repeats, so each of
  any number of completions closes the descriptor once more and submits the next read on it:
  after \<^verbatim>\<open>m\<close> completions there were \<^verbatim>\<open>m + 1\<close> reads and \<^verbatim>\<open>m\<close> closes of the one descriptor, a read is
  still in flight, and nothing has asked for the shutdown.
\<close>

theorem null_read_never_ends:
  assumes "\<forall>k v. env_cb E RepeatReadId (Some k, v) = RepeatReadHandler k"
    and "allocator_ok (env_alloc E)" and "abundant (env_alloc E)" and "flushing E"
    and "store_inv out used (store w)" and "sq (uring w) = []" and "room 2 w" and "0 \<le> c"
  shows "\<exists>q d w1 w'. run_cb E (AddTask (Suc n) E) nullptr (signal_main c) w = Inr w1 \<and>
    dispatch_all spins E (AddTask (Suc n) E) (replicate m (q, 0)) w1 = Inr w' \<and>
    entries (uring w') = entries (uring w) @
      replicate (m + 1) \<lparr>sqe_op = OpRead c d 2048 0, sqe_user_data = task_word q, sqe_link = False\<rparr> \<and>
    closed_fds w' = closed_fds w @ replicate m c \<and> inflight w' = inflight w + 1 \<and>
    shutdown_requested w' = shutdown_requested w"
proof -
  let ?cs = "[TaskTypeIs TypeRead, RepeatForeverIs True, DebugStrIs ''repeat_null_read'']"
  have rm: "room 1 w" using assms(7) by (auto simp: room_def)
  have cs: "\<forall>e \<in> set ?cs. plain_setting e" "\<And>kq. ready (fold apply_setting ?cs (AsyncTask_construct c RepeatReadId kq))"
    by (simp_all add: ready_def apply_setting_def task_setters AsyncTask_construct_def)
  obtain q s k out' where a: "run_cb E (AddTask (Suc n) E) nullptr (Call (CreateCall c RepeatReadId) (\<lambda>q. set_all q ?cs (add_then q Return))) w =
      run_cb E (AddTask (Suc n) E) nullptr Return (submitted E q (fold apply_setting ?cs (AsyncTask_construct c RepeatReadId k)) k (w\<lparr>store := s\<rparr>))"
    "q \<noteq> nullptr" "tasks (store w) q = None" "tasks s = (tasks (store w))(q \<mapsto> AsyncTask_construct c RepeatReadId k)"
    "store_inv out' (insert q used) s" "kb_size k = kDefaultBufferSize" "kb_offset k = 0" "storage_tag k \<noteq> TagNone"
    by (rule reader_submitted [OF assms(2,4,5) abundant_task [OF assms(3,2,5)] assms(6) rm cs])
  let ?t = "fold apply_setting ?cs (AsyncTask_construct c RepeatReadId k)"
  let ?w1 = "submitted E q ?t k (w\<lparr>store := s\<rparr>)"
  let ?e = "\<lparr>sqe_op = OpRead c (KernelBuf_Data k) 2048 0, sqe_user_data = task_word q, sqe_link = False\<rparr>"
  have run: "run_cb E (AddTask (Suc n) E) nullptr (signal_main c) w = Inr ?w1"
    using a(1) assms(8) by (simp add: signal_main_def del: set_all.simps run_cb.simps(2))
  have "task_op ?t k = OpRead c (KernelBuf_Data k) 2048 0"
    using a(6,7) by (simp add: apply_setting_def task_setters AsyncTask_construct_def task_op.simps size_consts)
  then have e1: "entries (uring ?w1) = entries (uring w) @ [?e]" unfolding submitted_fields(7) by simp
  have "repeating c RepeatReadId q k ?w1"
    using a(2) assms(7) submitted_sq [OF assms(4)]
    by (auto simp: repeating_def room_def pending_def admitted_def Let_def task_setters apply_setting_def AsyncTask_construct_def)
  from end_of_null [OF assms(1,4) this, of spins n m] a(6,7)
  obtain w' where w': "dispatch_all spins E (AddTask (Suc n) E) (replicate m (q, 0)) ?w1 = Inr w'"
    "entries (uring w') = entries (uring ?w1) @ replicate m ?e" "closed_fds w' = closed_fds ?w1 @ replicate m c"
    "inflight w' = inflight ?w1" "shutdown_requested w' = shutdown_requested ?w1"
    unfolding size_consts by auto
  have "entries (uring w') = entries (uring w) @ replicate (m + 1) ?e" using w'(2) e1 by simp
  then show ?thesis
    using run w'(1,3-5) by (intro exI [of _ q] exI [of _ "KernelBuf_Data k"] exI [of _ ?w1] exI [of _ w']) simp
qed

section \<open>Examples\<close>

definition loop_env :: io_env where
  "loop_env = demo_env\<lparr>env_cb := \<lambda>h kv. case kv of
     (Some k, v) \<Rightarrow> (if h = RepeatReadId then RepeatReadHandler k else if h = ReadId then ReadHandler k v
       else if h = TimeoutAwareId then TimeoutAwareHandler k else Return)
   | (None, v) \<Rightarrow> Return, env_alloc := bump_alloc\<rparr>"

lemma loop_env_facts:
  "\<forall>k v. env_cb loop_env RepeatReadId (Some k, v) = RepeatReadHandler k" "allocator_ok (env_alloc loop_env)"
  "abundant (env_alloc loop_env)" "flushing loop_env" "\<forall>c. api_get (env_api loop_env) c 1" "0 < env_chain loop_env"
  using abundant_bump bump_alloc_ok by (simp_all add: loop_env_def demo_env_def flushing_def)

abbreviation start_world :: io_world where "start_world \<equiv> demo_world id 0 0"

lemma start_facts:
  "\<exists>out used. store_inv out used (store start_world)" "sq (uring start_world) = []" "room 2 start_world" "room 1 start_world"
  using demo_inv [of id 0 0] by (simp_all add: room_def)

lemma loop_env_read: "\<forall>k v. env_cb loop_env ReadId (Some k, v) = ReadHandler k v"
  by (simp add: loop_env_def ReadId_def RepeatReadId_def)

theorem read_file_wait_fails_witness:
  "\<exists>w1 t r H'. run_cb loop_env (AddTask 1 loop_env) nullptr (read_file_main 8) start_world = Inr w1 \<and>
     WaitForCompletion (-1) False t = Some (r, t) \<and> io_ret r = -1 \<and>
     read_file_end loop_env 0 (AddTask 1 loop_env) nop_kernel False [] 8
       ((IOHandler_construct 0 '''' (default_config 4096) demo_store)\<lparr>io := w1\<rparr>) = Inr (Some H') \<and>
     closed_fds (io H') = [8] \<and> invoked (io H') = [] \<and> inflight (io H') = 1"
proof -
  obtain out used where inv: "store_inv out used (store start_world)" using start_facts(1) by blast
  have c: "(0 :: int) \<le> 8" by simp
  obtain q d t r w1 where w1: "run_cb loop_env (AddTask (Suc 0) loop_env) nullptr (read_file_main 8) start_world = Inr w1"
    "WaitForCompletion (-1) False t = Some (r, t)" "io_ret r = -1" and H: "\<forall>K blocked qs H. joinable H \<and> io H = w1 \<longrightarrow>
      (\<not> blocked \<or> K (sent (uring (RequestShutdown loop_env w1))) = Some (0, Some (0, 0)) \<longrightarrow>
        (\<exists>H'. read_file_end loop_env 0 (AddTask (Suc 0) loop_env) K blocked qs 8 H = Inr (Some H') \<and>
           closed_fds (io H') = closed_fds start_world @ [8] \<and> invoked (io H') = invoked start_world \<and>
           inflight (io H') = inflight start_world + 1 \<and> tasks (store (io H')) q = Some t))"
    using read_file_wait_fails [OF loop_env_read loop_env_facts(2-4) inv start_facts(2,4) c, of 0 False 0]
    by (elim exE conjE) (rule that; blast)
  let ?H = "(IOHandler_construct 0 '''' (default_config 4096) demo_store)\<lparr>io := w1\<rparr>"
  have "joinable ?H" "io ?H = w1" by (simp_all add: IOHandler_construct_def)
  with H obtain H' where "read_file_end loop_env 0 (AddTask (Suc 0) loop_env) nop_kernel False [] 8 ?H = Inr (Some H')"
      "closed_fds (io H') = closed_fds start_world @ [8]" "invoked (io H') = invoked start_world"
      "inflight (io H') = inflight start_world + 1"
    by blast
  then show ?thesis
    using w1 by (intro exI [of _ w1] exI [of _ t] exI [of _ r] exI [of _ H']) simp
qed

theorem timeout_demo_never_retries_witness:
  "\<exists>q w1 w'. run_cb loop_env (AddTask 1 loop_env) nullptr (timeout_main 8) start_world = Inr w1 \<and>
     DispatchCqe 0 loop_env (AddTask 1 loop_env) q EventNone (- ECANCELED) w1 = Inr w' \<and>
     invoked w' = [] \<and> inflight w' = 0 \<and>
     DispatchCqe 0 loop_env (AddTask 1 loop_env) q EventTimeout (- 62) w' = Inl (UseAfterFree q)"
proof -
  obtain out used where inv: "store_inv out used (store start_world)" using start_facts(1) by blast
  have "(0 :: int) \<le> 8" by simp
  from timeout_demo_never_retries [OF loop_env_facts(2-5) inv start_facts(2,4) this loop_env_facts(6), of 0 0 "- 62"]
  show ?thesis by auto
qed

theorem null_read_never_ends_witness:
  "\<exists>q w1 w'. run_cb loop_env (AddTask 1 loop_env) nullptr (signal_main 8) start_world = Inr w1 \<and>
     dispatch_all 0 loop_env (AddTask 1 loop_env) [(q, 0), (q, 0), (q, 0)] w1 = Inr w' \<and>
     closed_fds w' = [8, 8, 8] \<and> length (entries (uring w')) = 4 \<and> inflight w' = 1"
proof -
  obtain out used where inv: "store_inv out used (store start_world)" using start_facts(1) by blast
  have "(0 :: int) \<le> 8" by simp
  from null_read_never_ends [OF loop_env_facts(1-4) inv start_facts(2,3) this, of 0 0 3]
  obtain q d w1 w' where "run_cb loop_env (AddTask (Suc 0) loop_env) nullptr (signal_main 8) start_world = Inr w1"
    "dispatch_all 0 loop_env (AddTask (Suc 0) loop_env) (replicate 3 (q, 0)) w1 = Inr w'"
    "entries (uring w') = entries (uring start_world) @
      replicate (3 + 1) \<lparr>sqe_op = OpRead 8 d 2048 0, sqe_user_data = task_word q, sqe_link = False\<rparr>"
    "closed_fds w' = closed_fds start_world @ replicate 3 8" "inflight w' = inflight start_world + 1"
    by (elim exE conjE) (rule that)
  then show ?thesis
    by (intro exI [of _ q] exI [of _ w1] exI [of _ w']) (simp add: numeral_3_eq_3 del: dispatch_all.simps run_cb.simps)
qed

end
