(* ===== verification/Memory_Demo.thy ===== *)
theory Memory_Demo
  imports Programs
begin

text \<open>
  \<^verbatim>\<open>examples/buffer_pool_example.cc\<close>: the two pools used directly. What its loops rely on is the
  contract \<^verbatim>\<open>block_pool\<close>, which both pools keep.
\<close>

section \<open>Loops over a pool\<close>

text \<open>A loop that takes an object in each round, uses it and keeps it, unless the pool gave none.\<close>

fun acquire_loop :: "('s \<Rightarrow> ptr \<times> 's) \<Rightarrow> (nat \<Rightarrow> ptr \<Rightarrow> 's \<Rightarrow> 's) \<Rightarrow> nat list \<Rightarrow> 's \<Rightarrow> ptr list \<times> 's" where
  "acquire_loop grab fill [] s = ([], s)"
| "acquire_loop grab fill (i # is) s =
     (let (p, s1) = grab s
      in if p = nullptr then acquire_loop grab fill is s1
         else let (ps, s2) = acquire_loop grab fill is (fill i p s1) in (p # ps, s2))"

fun release_loop :: "(ptr \<Rightarrow> 's \<Rightarrow> 's option) \<Rightarrow> ptr list \<Rightarrow> 's \<Rightarrow> 's option" where
  "release_loop give [] s = Some s"
| "release_loop give (p # ps) s = (case give p s of None \<Rightarrow> None | Some s1 \<Rightarrow> release_loop give ps s1)"

text \<open>One round that takes a block, fills it and gives it back.\<close>

definition borrow :: "('s \<Rightarrow> ptr \<times> 's) \<Rightarrow> (nat \<Rightarrow> ptr \<Rightarrow> 's \<Rightarrow> 's) \<Rightarrow> (ptr \<Rightarrow> 's \<Rightarrow> 's option) \<Rightarrow> nat \<Rightarrow> 's \<Rightarrow>
    (ptr \<times> 's) option" where
  "borrow grab fill give i s =
     (let (p, s1) = grab s
      in if p = nullptr then Some (p, s1) else map_option (Pair p) (give p (fill i p s1)))"

section \<open>The contract\<close>

text \<open>
  \<^verbatim>\<open>ok U s\<close>: the pool is well formed and exactly the blocks of \<^verbatim>\<open>U\<close> are in use. A block that is taken
  was not in use, its owner may fill it, and giving it back ends and makes it the next one.
\<close>

locale block_pool =
  fixes ok :: "ptr set \<Rightarrow> 's \<Rightarrow> bool" and grab :: "'s \<Rightarrow> ptr \<times> 's"
    and fill :: "nat \<Rightarrow> ptr \<Rightarrow> 's \<Rightarrow> 's" and give :: "ptr \<Rightarrow> 's \<Rightarrow> 's option"
  assumes grab_law: "ok U s \<Longrightarrow> grab s = (p, s') \<Longrightarrow>
      p = nullptr \<and> ok U s' \<or> p \<noteq> nullptr \<and> p \<notin> U \<and> ok (insert p U) s'"
    and fill_law: "ok U s \<Longrightarrow> p \<in> U \<Longrightarrow> ok U (fill i p s)"
    and give_law: "ok U s \<Longrightarrow> p \<in> U \<Longrightarrow> \<exists>s'. give p s = Some s' \<and> ok (U - {p}) s' \<and> fst (grab s') = p"
begin

lemma acquired:
  assumes "ok U s" and "acquire_loop grab fill is s = (ps, s')"
  shows "distinct ps \<and> nullptr \<notin> set ps \<and> set ps \<inter> U = {} \<and> ok (U \<union> set ps) s'"
  using assms
proof (induction "is" arbitrary: U s ps)
  case (Cons i "is")
  obtain p s1 where g: "grab s = (p, s1)" by fastforce
  show ?case
  proof (cases "p = nullptr")
    case True
    then show ?thesis using Cons.IH [of U s1 ps] Cons.prems grab_law [OF Cons.prems(1) g] g by simp
  next
    case False
    obtain qs where q: "acquire_loop grab fill is (fill i p s1) = (qs, s')" "ps = p # qs"
      using Cons.prems(2) False g by (auto split: prod.splits)
    have p: "p \<notin> U" "ok (insert p U) (fill i p s1)"
      using grab_law [OF Cons.prems(1) g] False fill_law [of "insert p U" s1 p i] by auto
    from Cons.IH [OF p(2) q(1)] show ?thesis using False p(1) q(2) by auto
  qed
qed simp

lemma acquired_all:
  assumes "ok U s" and "acquire_loop grab fill is s = (ps, s')" and "\<forall>V v. ok V v \<longrightarrow> fst (grab v) \<noteq> nullptr"
  shows "length ps = length is"
  using assms(1,2)
proof (induction "is" arbitrary: U s ps)
  case (Cons i "is")
  obtain p s1 where g: "grab s = (p, s1)" by fastforce
  then have p: "p \<noteq> nullptr" using assms(3) Cons.prems(1) by fastforce
  obtain qs where q: "acquire_loop grab fill is (fill i p s1) = (qs, s')" "ps = p # qs"
    using Cons.prems(2) p g by (auto split: prod.splits)
  have "ok (insert p U) (fill i p s1)"
    using grab_law [OF Cons.prems(1) g] p fill_law [of "insert p U" s1 p i] by auto
  from Cons.IH [OF this q(1)] show ?case using q(2) by simp
qed simp

lemma released:
  assumes "ok (U \<union> set ps) s" and "distinct ps" and "set ps \<inter> U = {}"
  shows "\<exists>s'. release_loop give ps s = Some s' \<and> ok U s'"
  using assms
proof (induction ps arbitrary: s)
  case (Cons p ps)
  obtain s1 where "give p s = Some s1" "ok ((U \<union> set (p # ps)) - {p}) s1"
    using give_law [OF Cons.prems(1), of p] by auto
  moreover have "(U \<union> set (p # ps)) - {p} = U \<union> set ps" using Cons.prems(2,3) by auto
  ultimately show ?case using Cons.IH [of s1] Cons.prems(2,3) by simp
qed simp

lemma borrowed:
  assumes "ok U s"
  shows "\<exists>p s'. borrow grab fill give i s = Some (p, s') \<and> ok U s' \<and> p = fst (grab s) \<and>
    (p \<noteq> nullptr \<longrightarrow> p \<notin> U \<and> fst (grab s') = p)"
proof -
  obtain p s1 where g: "grab s = (p, s1)" by fastforce
  show ?thesis
  proof (cases "p = nullptr")
    case True
    then show ?thesis using grab_law [OF assms g] g by (simp add: borrow_def)
  next
    case False
    have p: "p \<notin> U" "ok (insert p U) (fill i p s1)"
      using grab_law [OF assms g] False fill_law [of "insert p U" s1 p i] by auto
    then obtain s' where "give p (fill i p s1) = Some s'" "ok (insert p U - {p}) s'" "fst (grab s') = p"
      using give_law [OF p(2), of p] by auto
    then show ?thesis using False g p(1) by (simp add: borrow_def)
  qed
qed

end

section \<open>The object pool\<close>

text \<open>\<^verbatim>\<open>obj->id = i\<close> and \<^verbatim>\<open>snprintf(obj->label, 32, "obj-%d", i)\<close>; an object has 36 bytes.\<close>

definition demo_object :: "nat \<Rightarrow> byte list" where
  "demo_object i = [word_of_nat i, 0, 0, 0] @ to_bytes (''obj-'' @ to_string (int i)) @ [0]"

definition fill_object :: "nat \<Rightarrow> ptr \<Rightarrow> ObjectPool \<Rightarrow> ObjectPool" where
  "fill_object i p s = s\<lparr>mem := write_bytes p (demo_object i) (mem s)\<rparr>"

text \<open>The destructor of \<^verbatim>\<open>PoolDemo\<close> is trivial.\<close>

definition release_object :: "tid \<Rightarrow> ptr \<Rightarrow> ObjectPool \<Rightarrow> ObjectPool option" where
  "release_object t = Release (\<lambda>_ m. m) t"

definition object_pool_rounds ::
    "allocator \<Rightarrow> tid \<Rightarrow> ObjectPool \<Rightarrow> (ptr list \<times> nat \<times> ptr \<times> ptr \<times> ObjectPool) option" where
  "object_pool_rounds alloc t pool =
     (let (objects, s1) = acquire_loop (Acquire alloc t) fill_object [0..<10] pool;
          free = ApproximateFreeCount s1
      in case release_loop (release_object t) objects s1 of None \<Rightarrow> None | Some s2 \<Rightarrow>
         let (a, s3) = Acquire alloc t s2; (b, s4) = Acquire alloc t s3
         in case release_object t a s4 of None \<Rightarrow> None | Some s5 \<Rightarrow>
            map_option (\<lambda>s6. (objects, free, a, b, s6)) (release_object t b s5))"

text \<open>The whole demo up to the end of the pool's scope.\<close>

definition DemoObjectPool ::
    "allocator \<Rightarrow> tid \<Rightarrow> bool \<Rightarrow> (tid \<Rightarrow> pool_cache) \<Rightarrow> pmem \<Rightarrow> region list \<Rightarrow>
       (ptr list \<times> nat \<times> ptr \<times> ptr \<times> ObjectPool) option" where
  "DemoObjectPool alloc t lockfree tls0 m0 live0 =
     object_pool_rounds alloc t (ObjectPool_construct alloc t lockfree 36 128 32 tls0 m0 live0)"

lemma fill_object_tls [simp]: "tls_cache (fill_object i p s) = tls_cache s"
  by (simp add: fill_object_def)

lemma release_object_eq: "p \<noteq> nullptr \<Longrightarrow> release_object t p s = ReleaseMemory t p s"
  by (simp add: release_object_def Release_def)

lemma write_bytes_outside: "p \<in> X \<Longrightarrow> same_outside X m (write_bytes p bs m)"
  by (auto simp: same_outside_def)

interpretation objects: block_pool "\<lambda>U s. allocator_ok alloc \<and> (\<exists>xs. pool_inv xs U s)" "Acquire alloc t" fill_object "release_object t"
  for alloc t
proof
  fix U s p s'
  assume ok: "allocator_ok alloc \<and> (\<exists>xs. pool_inv xs U s)" and "Acquire alloc t s = (p, s')"
  then show "p = nullptr \<and> allocator_ok alloc \<and> (\<exists>xs. pool_inv xs U s') \<or>
      p \<noteq> nullptr \<and> p \<notin> U \<and> allocator_ok alloc \<and> (\<exists>xs. pool_inv xs (insert p U) s')"
    using Acquire_inv [of alloc _ U s t p s'] by metis
next
  fix U s p i
  assume ok: "allocator_ok alloc \<and> (\<exists>xs. pool_inv xs U s)" and p: "p \<in> U"
  then obtain xs where "pool_inv xs U s" by (elim conjE exE)
  from mem_write_inv [OF this write_bytes_outside [OF p]] show "allocator_ok alloc \<and> (\<exists>xs. pool_inv xs U (fill_object i p s))"
    using ok by (auto simp: fill_object_def)
next
  fix U s p
  assume ok: "allocator_ok alloc \<and> (\<exists>xs. pool_inv xs U s)" and p: "p \<in> U"
  then obtain xs where inv: "pool_inv xs U s" by (elim conjE exE)
  obtain s' xs' ys where r: "ReleaseMemory t p s = Some s'" "pool_inv xs' (U - {p}) s'" "cached (tls_cache s' t) = ys @ [p]"
    using ReleaseMemory_inv [OF inv p] by blast
  have "p \<noteq> nullptr" using bucket_out_nonnull [OF pool_invD(1) [OF inv] p] .
  then show "\<exists>s'. release_object t p s = Some s' \<and> (allocator_ok alloc \<and> (\<exists>xs. pool_inv xs (U - {p}) s')) \<and>
      fst (Acquire alloc t s') = p"
    using ok r(1,2) acquire_cached [OF bucket_okD(3) [OF pool_invD(1) [OF r(2)]] r(3)] by (auto simp: release_object_eq)
qed

text \<open>The calls while the cache of the thread is empty, has room, or is not empty.\<close>

lemma acquire_empty_cache:
  assumes "cache_inv kObjectPoolTlsCacheSize (tls_cache s t)" and "cached (tls_cache s t) = []"
  shows "tls_cache (snd (Acquire alloc t s)) = tls_cache s"
  using assms(1)
proof (cases rule: cache_Pop_cases)
  case empty
  then show ?thesis
    by (simp add: Acquire_def ThreadCache_Pop_def pool_aligned_alloc_def Let_def split: prod.splits)
qed (use assms(2) in simp)

lemma acquire_loop_empty_cache:
  assumes "cache_inv kObjectPoolTlsCacheSize (tls_cache s t)" and "cached (tls_cache s t) = []"
    and "acquire_loop (Acquire alloc t) fill_object is s = (ps, s')"
  shows "tls_cache s' = tls_cache s"
  using assms
proof (induction "is" arbitrary: s ps)
  case (Cons i "is")
  obtain p s1 where g: "Acquire alloc t s = (p, s1)" by fastforce
  then have c: "tls_cache s1 = tls_cache s" using acquire_empty_cache [OF Cons.prems(1,2), of alloc] by simp
  have "\<exists>v qs. tls_cache v = tls_cache s \<and> acquire_loop (Acquire alloc t) fill_object is v = (qs, s')"
    using Cons.prems(3) g c
    by (intro exI [of _ "if p = nullptr then s1 else fill_object i p s1"]) (auto split: prod.splits)
  then show ?case using Cons.IH Cons.prems(1,2) by metis
qed simp

lemma release_room:
  assumes "cache_inv kObjectPoolTlsCacheSize (tls_cache s t)" and "count (tls_cache s t) < kObjectPoolTlsCacheSize" and "p \<noteq> nullptr"
  shows "\<exists>s'. release_object t p s = Some s' \<and> cached (tls_cache s' t) = cached (tls_cache s t) @ [p] \<and>
    cache_inv kObjectPoolTlsCacheSize (tls_cache s' t)"
  using cache_Push_room [OF assms(1,2), of p] assms(3)
  by (auto simp: release_object_eq ReleaseMemory_def release_node_def)

lemma release_loop_room:
  assumes "cache_inv kObjectPoolTlsCacheSize (tls_cache s t)" and "count (tls_cache s t) + length ps \<le> kObjectPoolTlsCacheSize"
    and "nullptr \<notin> set ps" and "release_loop (release_object t) ps s = Some s'"
  shows "cached (tls_cache s' t) = cached (tls_cache s t) @ ps \<and> cache_inv kObjectPoolTlsCacheSize (tls_cache s' t)"
  using assms
proof (induction ps arbitrary: s)
  case (Cons p ps)
  obtain s1 where s1: "release_object t p s = Some s1" "cached (tls_cache s1 t) = cached (tls_cache s t) @ [p]"
    "cache_inv kObjectPoolTlsCacheSize (tls_cache s1 t)"
    using release_room [OF Cons.prems(1), of p] Cons.prems(2,3) by auto
  have "count (tls_cache s1 t) = Suc (count (tls_cache s t))"
    using length_cached [OF s1(3)] length_cached [OF Cons.prems(1)] s1(2) by simp
  then show ?case using Cons.IH [OF s1(3)] Cons.prems(2-4) s1(1,2) by simp
qed simp

lemma acquire_pops:
  assumes "cache_inv kObjectPoolTlsCacheSize (tls_cache s t)" and "cached (tls_cache s t) = ys @ [p]" and "p \<noteq> nullptr"
  shows "\<exists>s'. Acquire alloc t s = (p, s') \<and> cached (tls_cache s' t) = ys \<and> cache_inv kObjectPoolTlsCacheSize (tls_cache s' t)"
  using assms(1)
proof (cases rule: cache_Pop_cases)
  case (node q c')
  then show ?thesis using assms(2,3) by (auto simp: Acquire_def ThreadCache_Pop_def)
qed (use assms(2) in simp)

lemma rounds_on_new_pool:
  assumes "allocator_ok alloc" and "abundant alloc" and "pool_inv xs {} pool" and "cached (tls_cache pool t) = []"
  shows "\<exists>objects free s'. object_pool_rounds alloc t pool = Some (objects, free, objects ! 9, objects ! 8, s') \<and>
    length objects = 10 \<and> distinct objects \<and> nullptr \<notin> set objects \<and> (\<exists>xs'. pool_inv xs' {} s')"
proof -
  let ?ok = "\<lambda>U s. allocator_ok alloc \<and> (\<exists>xs. pool_inv xs U s)"
  obtain os s1 where l: "acquire_loop (Acquire alloc t) fill_object [0..<10] pool = (os, s1)" by fastforce
  have ok: "?ok {} pool" using assms(1,3) by blast
  have nn: "\<forall>V v. ?ok V v \<longrightarrow> fst (Acquire alloc t v) \<noteq> nullptr"
    using abundant_acquire [OF assms(2,1)] by blast
  have os: "length os = 10" "distinct os" "nullptr \<notin> set os" "?ok (set os) s1"
    using objects.acquired [OF ok l] objects.acquired_all [OF ok l nn] by simp_all
  obtain s2 where s2: "release_loop (release_object t) os s1 = Some s2" "?ok {} s2"
    using objects.released [of alloc "{}" os s1 t] os by auto
  have ci: "cache_inv kObjectPoolTlsCacheSize (tls_cache pool t)" using bucket_okD(3) [OF pool_invD(1) [OF assms(3)]] .
  have t1: "tls_cache s1 = tls_cache pool" by (rule acquire_loop_empty_cache [OF ci assms(4) l])
  have "count (tls_cache s1 t) + length os \<le> kObjectPoolTlsCacheSize"
    using length_cached [OF ci] assms(4) t1 os(1) by (simp add: size_consts)
  from release_loop_room [OF _ this os(3) s2(1)] have c2: "cached (tls_cache s2 t) = os" "cache_inv kObjectPoolTlsCacheSize (tls_cache s2 t)"
    using ci t1 assms(4) by simp_all
  have split: "os = take 8 os @ [os ! 8] @ [os ! 9]"
    using os(1) by (auto simp: list_eq_iff_nth_eq nth_append nth_Cons' less_Suc_eq numeral_eq_Suc)
  have nz: "os ! i \<noteq> nullptr" if "i < 10" for i using nth_mem [of i os] that os(1,3) by metis
  have n: "os ! 8 \<noteq> nullptr" "os ! 9 \<noteq> nullptr" by (rule nz, simp)+
  have n3: "os ! 8 \<noteq> os ! 9" using os(1,2) by (simp add: nth_eq_iff_index_eq)
  obtain s3 where s3: "Acquire alloc t s2 = (os ! 9, s3)" "cached (tls_cache s3 t) = take 8 os @ [os ! 8]"
      "cache_inv kObjectPoolTlsCacheSize (tls_cache s3 t)"
    using acquire_pops [OF c2(2), of "take 8 os @ [os ! 8]" "os ! 9" alloc] c2(1) split n(2) by auto
  obtain s4 where s4: "Acquire alloc t s3 = (os ! 8, s4)" using acquire_pops [OF s3(3,2) n(1)] by blast
  have k3: "?ok {os ! 9} s3" using objects.grab_law [OF s2(2) s3(1)] n(2) by simp
  have k4: "?ok {os ! 8, os ! 9} s4" using objects.grab_law [OF k3 s4] n(1) by simp
  obtain s5 where s5: "release_object t (os ! 9) s4 = Some s5" "?ok ({os ! 8, os ! 9} - {os ! 9}) s5"
    using objects.give_law [OF k4] by blast
  then have k5: "?ok {os ! 8} s5" using n3 by (simp add: insert_Diff_if)
  obtain s6 where s6: "release_object t (os ! 8) s5 = Some s6" "?ok ({os ! 8} - {os ! 8}) s6"
    using objects.give_law [OF k5] by blast
  have "object_pool_rounds alloc t pool = Some (os, ApproximateFreeCount s1, os ! 9, os ! 8, s6)"
    using l s2(1) s3(1) s4 s5(1) s6(1) by (simp add: object_pool_rounds_def)
  then show ?thesis using os s6(2) by auto
qed

text \<open>
  C30: The object pool demo, with an allocator that does not run out and on a thread whose cache may
  hold nodes of an earlier pool: the ten objects are ten different ones, every release ends, the
  two objects acquired afterwards are the two released last, in reverse order, and at the end no
  object is in use.
\<close>

theorem demo_object_pool:
  assumes "allocator_ok alloc" and "abundant alloc" and "\<forall>u. cache_inv kObjectPoolTlsCacheSize (tls0 u)"
    and "\<forall>u. u \<noteq> t \<longrightarrow> cached (tls0 u) = []"
  shows "\<exists>objects free s'. DemoObjectPool alloc t lockfree tls0 m0 live0 = Some (objects, free, objects ! 9, objects ! 8, s') \<and>
    length objects = 10 \<and> distinct objects \<and> nullptr \<notin> set objects \<and> (\<exists>xs'. pool_inv xs' {} s')"
proof -
  let ?pool = "ObjectPool_construct alloc t lockfree 36 128 32 tls0 m0 live0"
  have "slot_size 36 = 64" by (simp add: slot_size_eq)
  then obtain xs where "pool_inv xs {} ?pool"
    using construct_inv [OF assms(1), of tls0 t 36 128 32 lockfree m0 live0] assms(3,4) by auto
  moreover have "cached (tls_cache ?pool t) = []" by (simp add: ObjectPool_construct_def)
  ultimately show ?thesis unfolding DemoObjectPool_def by (rule rounds_on_new_pool [OF assms(1,2)])
qed

theorem demo_object_pool_witness:
  "\<exists>objects free s'. DemoObjectPool bump_alloc 0 True no_cached \<lparr>nx = \<lambda>_. 0, bytes = \<lambda>_ _. 0\<rparr> [] =
      Some (objects, free, objects ! 9, objects ! 8, s') \<and> length objects = 10 \<and> distinct objects"
  using demo_object_pool [OF bump_alloc_ok abundant_bump, of no_cached 0 True "\<lparr>nx = \<lambda>_. 0, bytes = \<lambda>_ _. 0\<rparr>" "[]"]
  by auto

section \<open>The buffer pool\<close>

text \<open>\<^verbatim>\<open>memset(p, 0xAB, sz)\<close>.\<close>

definition scribble :: "nat \<Rightarrow> ptr \<Rightarrow> BufferPool \<Rightarrow> BufferPool" where
  "scribble n p s = s\<lparr>buf_mem := write_bytes p (replicate n 171) (buf_mem s)\<rparr>"

definition demo_sizes :: "nat list" where "demo_sizes = [64, 128, 512, 4096, 65536]"

fun tier_loop :: "allocator \<Rightarrow> tid \<Rightarrow> nat list \<Rightarrow> BufferPool \<Rightarrow> (ptr list \<times> BufferPool) option" where
  "tier_loop alloc t [] s = Some ([], s)"
| "tier_loop alloc t (n # ns) s =
     (case borrow (Allocate alloc t n) scribble (\<lambda>p. Deallocate t p n) n s of None \<Rightarrow> None
      | Some (p, s1) \<Rightarrow> map_option (\<lambda>(ps, s2). (p # ps, s2)) (tier_loop alloc t ns s1))"

definition DemoBufferPool :: "allocator \<Rightarrow> tid \<Rightarrow> BufferPool \<Rightarrow> (ptr list \<times> ptr \<times> BufferPool) option" where
  "DemoBufferPool alloc t s =
     (case tier_loop alloc t demo_sizes s of None \<Rightarrow> None
      | Some (ps, s1) \<Rightarrow>
          let (too_big, s2) = Allocate alloc t 131072 s1
          in map_option (\<lambda>s3. (ps, too_big, s3)) (Deallocate t nullptr 64 s2))"

text \<open>The blocks of one size; \<^verbatim>\<open>out\<close> are the blocks of the other classes in use.\<close>

abbreviation class_state :: "allocator \<Rightarrow> (nat \<Rightarrow> ptr set) \<Rightarrow> nat \<Rightarrow> ptr set \<Rightarrow> BufferPool \<Rightarrow> bool" where
  "class_state alloc out n U s \<equiv> allocator_ok alloc \<and> ClassForSize n < kBufferPoolNumClasses \<and>
     (\<exists>xs. buf_inv xs (out(ClassForSize n := U)) s)"

interpretation buffers: block_pool "class_state alloc out n" "Allocate alloc t n" scribble "\<lambda>p. Deallocate t p n"
  for alloc out n t
proof
  fix U s p s'
  assume "class_state alloc out n U s" and "Allocate alloc t n s = (p, s')"
  then show "p = nullptr \<and> class_state alloc out n U s' \<or>
      p \<noteq> nullptr \<and> p \<notin> U \<and> class_state alloc out n (insert p U) s'"
    using Allocate_inv [of alloc _ "out(ClassForSize n := U)" s t n p s'] by auto
next
  fix U s p i
  assume ok: "class_state alloc out n U s" and p: "p \<in> U"
  then obtain xs where "buf_inv xs (out(ClassForSize n := U)) s" by (elim conjE exE)
  from buf_write_inv [OF this, of "ClassForSize n" p "write_bytes p (replicate i 171) (buf_mem s)"]
  show "class_state alloc out n U (scribble i p s)"
    using ok p write_bytes_outside [of p "{p}"] by (auto simp: scribble_def)
next
  fix U s p
  assume ok: "class_state alloc out n U s" and p: "p \<in> U"
  let ?i = "ClassForSize n"
  obtain xs where inv: "buf_inv xs (out(?i := U)) s" and i: "?i < kBufferPoolNumClasses" using ok by (elim conjE exE)
  obtain s' xs' ys where r: "Deallocate t p n s = Some s'" "buf_inv xs' (out(?i := U - {p})) s'"
      "cached (class_tls s' ?i t) = ys @ [p]"
    using Deallocate_inv [OF inv i, of p t] p by auto
  have "p \<noteq> nullptr" using bucket_out_nonnull [OF buf_invD(1) [OF inv i]] p by simp
  then have "fst (Allocate alloc t n s') = p"
    using allocate_cached [OF bucket_okD(3) [OF buf_invD(1) [OF r(2) i]] r(3)] i by simp
  then show "\<exists>s'. Deallocate t p n s = Some s' \<and> class_state alloc out n (U - {p}) s' \<and> fst (Allocate alloc t n s') = p"
    using ok r(1,2) by auto
qed

lemma tiers_borrowed:
  assumes "allocator_ok alloc" and "abundant alloc" and "buf_inv xs out s" and "\<forall>n \<in> set ns. n \<le> kBufferPoolMaxPooledSize"
  shows "\<exists>ps s' xs'. tier_loop alloc t ns s = Some (ps, s') \<and> length ps = length ns \<and> buf_inv xs' out s' \<and>
    (\<forall>(n, p) \<in> set (zip ns ps). p \<noteq> nullptr \<and> p \<notin> out (ClassForSize n))"
  using assms(3,4)
proof (induction ns arbitrary: xs s)
  case (Cons n ns)
  have i: "ClassForSize n < kBufferPoolNumClasses" using Cons.prems(2) by (simp add: ClassForSize_lt)
  have ok: "class_state alloc out n (out (ClassForSize n)) s" using assms(1) i Cons.prems(1) by auto
  have nz: "fst (Allocate alloc t n s) \<noteq> nullptr"
    using allocate_null_iff [OF assms(1) Cons.prems(1), of t n] assms(2) Cons.prems(2) by (auto simp: abundant_def Let_def)
  obtain p s1 where all: "borrow (Allocate alloc t n) scribble (\<lambda>p. Deallocate t p n) n s = Some (p, s1) \<and>
      class_state alloc out n (out (ClassForSize n)) s1 \<and> p = fst (Allocate alloc t n s) \<and>
      (p \<noteq> nullptr \<longrightarrow> p \<notin> out (ClassForSize n) \<and> fst (Allocate alloc t n s1) = p)"
    using buffers.borrowed [OF ok, of t n] by (elim exE) (rule that)
  note b = all [THEN conjunct1] all [THEN conjunct2, THEN conjunct1] all [THEN conjunct2, THEN conjunct2, THEN conjunct1]
    all [THEN conjunct2, THEN conjunct2, THEN conjunct2]
  have p: "p \<noteq> nullptr" "p \<notin> out (ClassForSize n)" using b(3,4) nz by simp_all
  obtain xs1 where "buf_inv xs1 (out(ClassForSize n := out (ClassForSize n))) s1" using b(2) by (elim conjE exE)
  then have x: "buf_inv xs1 out s1" by simp
  have ns: "\<forall>n \<in> set ns. n \<le> kBufferPoolMaxPooledSize" using Cons.prems(2) by simp
  obtain ps s' xs' where "tier_loop alloc t ns s1 = Some (ps, s')" "length ps = length ns"
      "buf_inv xs' out s'" "\<forall>(n, p) \<in> set (zip ns ps). p \<noteq> nullptr \<and> p \<notin> out (ClassForSize n)"
    using Cons.IH [OF x ns] by (elim exE conjE) (rule that)
  then show ?case using b(1) p by (intro exI [of _ "p # ps"] exI [of _ s'] exI [of _ xs']) simp
qed (simp, blast)

text \<open>
  The buffer pool demo, on any state of the pool, with an allocator that does not run out:
  each of its five sizes gets a block that nobody else uses and every block goes back, the
  request above the largest class gets null, giving null back is allowed, and afterwards exactly
  the same blocks are in use as before.
\<close>

theorem demo_buffer_pool:
  assumes "allocator_ok alloc" and "abundant alloc" and "buf_inv xs out s"
  shows "\<exists>ps s' xs'. DemoBufferPool alloc t s = Some (ps, nullptr, s') \<and> length ps = 5 \<and> buf_inv xs' out s' \<and>
    (\<forall>(n, p) \<in> set (zip demo_sizes ps). p \<noteq> nullptr \<and> p \<notin> out (ClassForSize n))"
proof -
  have "\<forall>n \<in> set demo_sizes. n \<le> kBufferPoolMaxPooledSize" by (simp add: demo_sizes_def size_consts)
  from tiers_borrowed [OF assms this, of t] obtain ps s' xs' where t: "tier_loop alloc t demo_sizes s = Some (ps, s')"
      "length ps = length demo_sizes" "buf_inv xs' out s'"
      "\<forall>(n, p) \<in> set (zip demo_sizes ps). p \<noteq> nullptr \<and> p \<notin> out (ClassForSize n)" by (elim exE conjE) (rule that)
  have "\<not> 131072 \<le> kBufferPoolMaxPooledSize" by (simp add: size_consts)
  then have "Allocate alloc t 131072 s' = (nullptr, s')" using ClassForSize_lt [of 131072] by (simp add: Allocate_def)
  then have "DemoBufferPool alloc t s = Some (ps, nullptr, s')" using t(1) by (simp add: DemoBufferPool_def Deallocate_def)
  then show ?thesis using t(2-4) by (intro exI [of _ ps] exI [of _ s'] exI [of _ xs']) (simp add: demo_sizes_def)
qed

theorem demo_buffer_pool_witness:
  "\<exists>ps s'. DemoBufferPool bump_alloc 0 empty_pool = Some (ps, nullptr, s') \<and> length ps = 5"
proof -
  obtain xs where "buf_inv xs (\<lambda>_. {}) empty_pool"
    using buf_reach_inv [OF tight_alloc_ok empty_pool_reach] by blast
  from demo_buffer_pool [OF bump_alloc_ok abundant_bump this, of 0] show ?thesis by auto
qed

end
