(* ===== verification/Spec2Isabelle.thy ===== *)
theory Spec2Isabelle
  imports Treiber_Interleaving Inline_Function Admission Io_Accounting Lifecycle Tcp Echo_Server Chunk_Reader
    Net_Programs Loop_Programs Memory_Demo
begin

text \<open>
  A verification development for \<^verbatim>\<open>talon\<close>, a header-only C++17 library for asynchronous I/O on
  Linux io_uring (\<^verbatim>\<open>src/include/talon/async_io_*.hpp\<close>).

  \<^bold>\<open>The program.\<close> An application makes tasks (\<^verbatim>\<open>AsyncTask\<close>), each with a descriptor, an operation,
  a buffer (\<^verbatim>\<open>KernelBuf\<close>) and a handler, and gives them to an \<^verbatim>\<open>IOHandler\<close>. \<^verbatim>\<open>AddTask\<close> admits a task
  that is not in flight, within the limit on operations in flight, and puts an entry into the
  ring whose user data is the task's address with an event flag in the top bits. The event
  thread takes completions from the ring, finds the task again, runs its handler and retries,
  repeats, continues with the chained task, completes or deletes it. Tasks and large buffers
  come from memory pools (\<^verbatim>\<open>ObjectPool\<close>, \<^verbatim>\<open>BufferPool\<close>): free lists of nodes behind caches per
  thread. A waiting thread is woken through a latch (\<^verbatim>\<open>DoneState\<close>). \<^verbatim>\<open>TcpServer\<close> and \<^verbatim>\<open>TcpClient\<close>
  make sockets and tasks for them.

  \<^bold>\<open>The theories\<close>, from the bottom:

  \<^item> \<open>Prelude\<close>: machine types, linked lists in memory, the error monad (\<open>and_then\<close>), collections of
    simplification rules.
  \<^item> \<open>Constants\<close> (\<^verbatim>\<open>async_io_constants.hpp\<close>): constants, configuration, task types and states, the
    tagging of addresses in 64-bit words with its round trip.
  \<^item> \<open>Done_State\<close> (\<^verbatim>\<open>async_io_result.hpp\<close>): \<^verbatim>\<open>IOResult\<close> and \<^verbatim>\<open>DoneState\<close> as operations, and as the
    interleaving of a waiter and a signaller: no spurious return; once the signal is set outside
    of the waiter's check-then-store windows every run delivers it (a measure that every step
    lowers, and a next step that is not a spurious wake-up); the schedule that loses a signal.
  \<^item> \<open>Node_Stack\<close> (\<^verbatim>\<open>async_io_pool.hpp\<close>): \<^verbatim>\<open>MutexStack\<close>, \<^verbatim>\<open>LockFreeStack\<close> and \<^verbatim>\<open>TreiberStack\<close>, all three
    interpretations of the locale \<open>node_stack\<close>.
  \<^item> \<open>Treiber_Interleaving\<close>: \<^verbatim>\<open>LockFreeStack\<close> with any number of threads, one step per atomic access;
    it refines an atomic stack (linearizability), although addresses are reused (the tag).
  \<^item> \<open>Pool_Cache\<close>, \<open>Object_Pool\<close>, \<open>Buffer_Pool\<close> (\<^verbatim>\<open>async_io_pool.hpp\<close>): thread caches, growing, acquire
    and release. Memory handed out is handed out to one owner and does not overlap; a released
    block is the next one acquired; null is returned exactly when the allocator is exhausted;
    the size class is the smallest that fits.
  \<^item> \<open>Kernel_Buf\<close> (\<^verbatim>\<open>async_io_kernelbuf.hpp\<close>): the three kinds of storage with their contents; moves,
    \<^verbatim>\<open>Resize\<close>, access within bounds, release exactly once.
  \<^item> \<open>Inline_Function\<close> (\<^verbatim>\<open>async_io_task.hpp\<close>): the type-erased callable; every operation keeps exactly
    one live callable in one place.
  \<^item> \<open>Uring\<close>: what the sources use of liburing, over a parameter for its answers.
  \<^item> \<open>Async_Task\<close> (\<^verbatim>\<open>async_io_task.hpp\<close>): the task record, its operations, the store of tasks with its
    pools, deletion of a chain; the invariant \<open>store_inv\<close> says that every task owns its memory and
    its buffer alone.
  \<^item> \<open>Io_Handler\<close> (\<^verbatim>\<open>async_io_handler.hpp\<close>): the whole of submission, event loop, dispatch and
    shutdown as functions on the record \<open>io_world\<close>, one definition per member function.
  \<^item> \<open>Io_Submit\<close>, \<open>Io_Events\<close>, \<open>Io_Completion\<close>: what they do. The locale \<open>submitter\<close> is what the event
    handlers and user handlers need of \<^verbatim>\<open>AddTask\<close>; its interpretation is the model's \<open>AddTask\<close> for
    every amount of fuel. The count of operations in flight stays within the limit along every
    run; a task is submitted once; every kind of completion has a theorem with the final world.
  \<^item> \<open>Io_Accounting\<close>: what that count says about the tasks. The locale \<open>accountant\<close> is what the event
    handlers need of \<^verbatim>\<open>AddTask\<close> to keep the books, interpreted on the model's \<open>AddTask\<close>; along every run
    the tasks in state \<^verbatim>\<open>kSubmitted\<close> are at most the count plus the completions that lowered it without
    ending an operation (those of cancellations, which count twice).
  \<^item> \<open>Io_Defects\<close>: shutdown, and the runs on which the loop does not keep its promises.
  \<^item> \<open>Admission\<close>: both gates of \<^verbatim>\<open>AddTask\<close> with any number of threads, one step per atomic access, while
    the rest of the program stores any other state in any task and lowers the count at any time.
  \<^item> \<open>Lifecycle\<close>: constructor, destructor with \<^verbatim>\<open>io_uring_queue_exit\<close>, \<^verbatim>\<open>Join\<close>, signal handlers. A thread that
    is blocked in \<^verbatim>\<open>io_uring_wait_cqe\<close> gets what the kernel answers to the entries sent so far.
  \<^item> \<open>Tcp\<close> (\<^verbatim>\<open>async_io_tcp_server.hpp\<close>, \<^verbatim>\<open>async_io_tcp_client.hpp\<close>): listening, accept tasks, connect
    tasks with the socket address as bytes.
  \<^item> \<open>Programs\<close>, \<open>Messages\<close>: what handlers that create, configure, fill and submit tasks do to the world;
    \<open>Messages\<close> is for buffers of any size, in the object, in a pooled block or in a vector.
  \<^item> \<open>Echo_Server\<close> (\<^verbatim>\<open>examples/server_tcp_example.cc\<close>): the handlers of the echo server run on the
    model, from the completion to the entries in the ring: accepting, answering, and what happens
    when the client disconnects.
  \<^item> \<open>Chunk_Reader\<close> (\<^verbatim>\<open>examples/read_large_file_example.cc\<close>): a file read in chunks by a handler that
    submits the next read; no gaps and no overlaps over runs of any length.
  \<^item> \<open>File_Programs\<close> (\<^verbatim>\<open>examples/file_write_example.cc\<close>, \<^verbatim>\<open>task_chain_example.cc\<close>,
    \<^verbatim>\<open>custom_handler_example.cc\<close>): whole programs from \<^verbatim>\<open>main\<close> to the shutdown; what \<^verbatim>\<open>open\<close> returns is a
    parameter, the descriptors closed and the files removed are recorded in the world.
  \<^item> \<open>Net_Programs\<close> (\<^verbatim>\<open>examples/tcp_client_example.cc\<close>, \<^verbatim>\<open>tcp_wr_example.cc\<close>): two TCP clients; messages in
    order, responses counted, and the socket that the event loop closes under its operations.
  \<^item> \<open>Loop_Programs\<close> (\<^verbatim>\<open>examples/read_file_example.cc\<close>, \<^verbatim>\<open>timeout_retry_example.cc\<close>,
    \<^verbatim>\<open>signal_shutdown_example.cc\<close>): a wait that fails while the read is in flight, on
    every schedule of the event thread, a timeout that is not retried, a read that
    repeats for ever at the end of a file.
  \<^item> \<open>Memory_Demo\<close> (\<^verbatim>\<open>examples/buffer_pool_example.cc\<close>): the loops over the two pools. The locale
    \<open>block_pool\<close> is the contract of taking, filling and giving back a block; both pools interpret it.

  \<^bold>\<open>Parameters.\<close> Code outside the repository is an argument: the allocator (its answers are fresh,
  aligned and disjoint: \<open>allocator_ok\<close>), liburing (\<open>ring_api\<close>: any answers), the socket calls
  (\<open>net_api\<close>), \<^verbatim>\<open>sigaction\<close> and \<^verbatim>\<open>io_uring_queue_init\<close> (their results), the kernel that answers a
  blocked wait (\<open>kernel\<close>; where a theorem needs that posted no-ops complete, it says \<open>completes_nops\<close>).
  The size of the storage inside an \<^verbatim>\<open>InlineFunction\<close>, a template parameter, is an argument too.
  A user handler is a program over the calls of the library (\<open>cb_prog\<close>), chosen by the number in the
  task and the buffer it is given. The theorems about successful and failed completions, the end
  of a file and chained tasks are for arbitrary handlers: they say that the handler, run in the
  world where the result is recorded, returns a world (\<open>handler_run\<close>), and what the dispatch makes
  of that world. Three theorems on defects (\<open>chained_zero_unsignalled\<close>, \<open>chained_task_lost\<close>,
  \<open>timeout_use_after_free\<close>) are stated for handlers that make no calls (\<open>reads_only\<close>).

  \<^bold>\<open>Errors.\<close> A fault (a read of a deleted task, a null buffer, an access outside of a buffer, fuel
  that is used up) is a value \<open>Inl\<close>; results of the sources are \<open>Inr\<close>. The theorems that say what an
  operation does state \<open>Inr\<close>, so they include that there is no fault.

  \<^bold>\<open>Fuel.\<close> \<^verbatim>\<open>AddTask\<close> calls itself through \<^verbatim>\<open>HandleFailedTask\<close> when it fails to prepare a connect; \<open>AddTask\<close>
  has fuel for these calls, and the theorems about it hold for every fuel of at least one. The
  loop \<^verbatim>\<open>while (!AddTask(tp))\<close> after \<^verbatim>\<open>EAGAIN\<close> has fuel \<open>spins\<close>; it is shown to exhaust every amount.
  The event loop runs over a list of answers of the kernel, and reports whether it has ended.
  The deletion of a chain takes fuel; the length of the chain is enough.

  \<^bold>\<open>Not modelled.\<close> \<^verbatim>\<open>async_io_traits.hpp\<close>, \<^verbatim>\<open>async_io_fwd.hpp\<close>, \<^verbatim>\<open>async_io.hpp\<close> (types and includes only);
  \<^verbatim>\<open>DebugLog\<close> (a build with \<^verbatim>\<open>kDebugEnabled\<close> false); \<^verbatim>\<open>std::bad_alloc\<close>; reorderings that the weak memory
  orders of the atomics permit (interleavings are sequentially consistent); two threads that grow
  one pool at once; the wrap-around of the 32-bit retry counter; of the examples, what they print,
  \<^verbatim>\<open>DemoKernelBuf\<close>, and \<^verbatim>\<open>backpressure_example.cc\<close>, whose loop retries \<^verbatim>\<open>AddTask\<close> and sleeps while the
  event thread completes (the gates it runs into are the subject of \<open>Admission\<close>); the tests.
\<close>

end
